(* ===== verification/Prelude.thy ===== *)
theory Prelude
  imports Main "HOL-Library.Word" "HOL-Library.Monad_Syntax"
begin

text \<open>
  Shared vocabulary of the development: the machine integers of the C++ sources, array reads
  and block copies whose failure (an access outside the array) is the value \<open>None\<close>, the
  implementation-defined signedness of \<open>char\<close>, and the generic facts about lists, options
  and runs of a machine that the component theories use.
\<close>

unbundle bit_operations_syntax

named_theorems mem_simps \<open>reads, block copies and their lengths\<close>

section \<open>Machine integers\<close>

type_synonym u8 = "8 word"
type_synonym u16 = "16 word"
type_synonym u32 = "32 word"
type_synonym u64 = "64 word"
type_synonym bytes = "u8 list"

text \<open>
  Whether plain \<open>char\<close> is signed is implementation-defined (signed on x86, unsigned on ARM
  Linux, the two targets of \<open>include/config_fcc.h\<close>). Definitions that read \<open>char\<close>
  buffers take the choice \<open>sc\<close> as an argument. \<open>char_int\<close> is the integral
  promotion to \<open>int\<close>, \<open>char_size\<close> the conversion to \<open>size_t\<close>.
\<close>

definition char_int :: "bool \<Rightarrow> u8 \<Rightarrow> u32" where
  "char_int sc b = (if sc then scast b else ucast b)"

definition char_size :: "bool \<Rightarrow> u8 \<Rightarrow> u64" where
  "char_size sc b = (if sc then scast b else ucast b)"

section \<open>Arrays: reads and block copies\<close>

definition rd :: "'a list \<Rightarrow> nat \<Rightarrow> 'a option" where
  "rd xs i = (if i < length xs then Some (xs ! i) else None)"

definition mem_read :: "'a list \<Rightarrow> nat \<Rightarrow> nat \<Rightarrow> 'a list option" where
  "mem_read xs i n = (if i + n \<le> length xs then Some (take n (drop i xs)) else None)"

definition mem_write :: "'a list \<Rightarrow> nat \<Rightarrow> 'a list \<Rightarrow> 'a list option" where
  "mem_write xs i ys =
     (if i + length ys \<le> length xs
      then Some (take i xs @ ys @ drop (i + length ys) xs) else None)"

lemma rd_eq_Some [mem_simps]: "rd xs i = Some x \<longleftrightarrow> i < length xs \<and> xs ! i = x"
  by (auto simp: rd_def)

lemma Some_eq_rd [mem_simps]: "Some x = rd xs i \<longleftrightarrow> i < length xs \<and> xs ! i = x"
  by (auto simp: rd_def)

lemma rd_eq_None [mem_simps]: "rd xs i = None \<longleftrightarrow> length xs \<le> i"
  by (auto simp: rd_def)

lemma rd_Some [mem_simps, simp]: "i < length xs \<Longrightarrow> rd xs i = Some (xs ! i)"
  by (simp add: rd_def)

lemma rd_beyond [mem_simps, simp]: "length xs \<le> i \<Longrightarrow> rd xs i = None"
  by (simp add: rd_def)

lemma rd_append: "rd (xs @ ys) i = (if i < length xs then rd xs i else rd ys (i - length xs))"
  by (auto simp: rd_def nth_append)

lemma rd_at: "length p = n \<Longrightarrow> rd (p @ xs) (n + k) = rd xs k"
  by (simp add: rd_append)

lemma mem_read_Some [mem_simps]:
  "mem_read xs i n = Some ys \<longleftrightarrow> i + n \<le> length xs \<and> ys = take n (drop i xs)"
  by (auto simp: mem_read_def)

lemma mem_read_ok [mem_simps]: "i + n \<le> length xs \<Longrightarrow> mem_read xs i n = Some (take n (drop i xs))"
  by (simp add: mem_read_def)

lemma mem_read_length: "mem_read xs i n = Some ys \<Longrightarrow> length ys = n"
  by (auto simp: mem_simps)

lemma mem_write_Some [mem_simps]:
  "mem_write xs i ys = Some zs \<longleftrightarrow>
     i + length ys \<le> length xs \<and> zs = take i xs @ ys @ drop (i + length ys) xs"
  by (auto simp: mem_write_def)

lemma mem_write_length: "mem_write xs i ys = Some zs \<Longrightarrow> length zs = length xs"
  by (auto simp: mem_simps)

section \<open>Conversions between widths\<close>

lemma unat_of_nat_small: "n < 2 ^ LENGTH('a) \<Longrightarrow> unat (word_of_nat n :: 'a::len word) = n"
  by (simp add: unat_of_nat)

lemma ucast_of_nat_small:
  "n < 2 ^ LENGTH('a) \<Longrightarrow> ucast (word_of_nat n :: 'a::len word) = (word_of_nat n :: 'b::len word)"
  by (simp add: unsigned_of_nat take_bit_nat_eq_self)

lemma mod_once: "N \<le> a \<Longrightarrow> a < 2 * N \<Longrightarrow> a mod N = a - (N :: int)"
  using mod_pos_pos_trivial [of "a - N" N] by simp

lemma uint_of_nat_small: "n < 2 ^ LENGTH('a) \<Longrightarrow> uint (word_of_nat n :: 'a::len word) = int n"
  using unat_of_nat_small [of n, where 'a = 'a] by (metis uint_nat)

lemma uint16_less: "uint (w :: u16) < 0x10000"
  using uint_lt2p [of w] by simp

lemma uint16_plus:
  "i < 0x10000 \<Longrightarrow> uint (n + word_of_nat i :: u16) = (uint n + int i) mod 0x10000"
  using uint_of_nat_small [of i, where 'a = 16] by (simp add: uint_word_ariths)

lemma uint_eq_uint: "uint a = uint b \<longleftrightarrow> a = b"
  by (simp add: word_uint_eq_iff)

lemma uint_not_minus_one: "uint (w :: 'a::len word) \<noteq> - 1"
  using uint_ge_0 [of w] by linarith

lemma be16_join:
  fixes q :: u16
  shows "(ucast (push_bit 8 (ucast (ucast (drop_bit 8 q) :: u8) :: u32) OR ucast (ucast q :: u8)) :: u16) = q"
  by (rule bit_word_eqI) (auto simp: bit_simps)

lemma be16_sum:
  "push_bit 8 (ucast (ucast (drop_bit 8 q) :: u8) :: u32) + ucast (ucast (q::u16) :: u8) = ucast q"
proof -
  have "push_bit 8 (ucast (ucast (drop_bit 8 q) :: u8) :: u32) + ucast (ucast q :: u8) =
        push_bit 8 (ucast (ucast (drop_bit 8 q) :: u8) :: u32) OR ucast (ucast q :: u8)"
    by (rule disjunctive_add) (auto simp: bit_simps)
  also have "\<dots> = ucast q"
    by (rule bit_word_eqI) (auto simp: bit_simps dest: bit_imp_le_length)
  finally show ?thesis .
qed

lemma scast_ucast16: "(scast (ucast (q::u16) :: u32) :: u64) = ucast q"
  by (rule bit_word_eqI) (auto simp: bit_simps min_def dest: bit_imp_le_length)

lemma char_be16_join:
  "(ucast (push_bit 8 (char_int False (ucast (drop_bit 8 q))) OR char_int False (ucast q)) :: u16) = q"
  by (simp add: char_int_def be16_join)

lemma char_be16_sum:
  "(scast (push_bit 8 (char_int False (ucast (drop_bit 8 q))) + char_int False (ucast q)) :: u64)
   = ucast (q :: u16)"
  by (simp add: char_int_def be16_sum scast_ucast16)

lemma be16_split: "\<exists>w :: u16. hi = (ucast (drop_bit 8 w) :: u8) \<and> lo = (ucast w :: u8)"
proof (rule exI [of _ "push_bit 8 (ucast hi) OR ucast lo"], rule conjI)
  show "hi = ucast (drop_bit 8 (push_bit 8 (ucast hi) OR ucast lo :: u16))"
    by (rule bit_word_eqI) (auto simp: bit_simps dest: bit_imp_le_length)
  show "lo = ucast (push_bit 8 (ucast hi) OR ucast lo :: u16)"
    by (rule bit_word_eqI) (auto simp: bit_simps dest: bit_imp_le_length)
qed

lemma unat_less_exp: "unat (w :: 'a::len word) < 2 ^ LENGTH('a)"
  by (rule unsigned_less)

lemma unat_and_15: "unat (x AND 0x0F :: u32) < 16"
proof -
  have "x AND 0x0F = take_bit 4 x" by (simp add: take_bit_eq_mask mask_eq_exp_minus_1 and.commute)
  then show ?thesis using take_bit_nat_less_exp [of 4 "unat x"] by (simp add: unsigned_take_bit_eq)
qed

lemma word_of_nat_unat: "ucast (x :: 'a::len word) = (word_of_nat (unat x) :: 'b::len word)"
  by simp

lemma sint16: "sint (x :: u16) = (if uint x < 0x8000 then uint x else uint x - 0x10000)"
proof -
  have "sint x = (uint x + 0x8000) mod 0x10000 - 0x8000"
    by (simp add: sint_uint signed_take_bit_eq_take_bit_shift take_bit_eq_mod)
  moreover have "0 \<le> uint x" "uint x < 0x10000" by (simp_all add: uint16_less)
  ultimately show ?thesis
    using mod_once [of "0x10000" "uint x + 0x8000"] by (cases "uint x < 0x8000") simp_all
qed

lemma uint16_minus:
  "uint (f - s :: u16) = (if uint s \<le> uint f then uint f - uint s else uint f - uint s + 0x10000)"
proof -
  have b: "0 \<le> uint f" "uint f < 0x10000" "0 \<le> uint s" "uint s < 0x10000"
    by (simp_all add: uint16_less)
  have m: "uint (f - s) = (uint f - uint s) mod 0x10000" by (simp add: uint_word_ariths)
  show ?thesis
  proof (cases "uint s \<le> uint f")
    case True
    have "(uint f - uint s) mod 0x10000 = uint f - uint s"
      using b True by (intro mod_pos_pos_trivial) linarith+
    then show ?thesis using m True by simp
  next
    case False
    have "(uint f - uint s + 0x10000) mod 0x10000 = uint f - uint s + 0x10000"
      using b False by (intro mod_pos_pos_trivial) linarith+
    then show ?thesis using m False by simp
  qed
qed

section \<open>Partial-correctness rules for fallible code\<close>

text \<open>
  \<open>opt_all P m\<close>: if \<open>m\<close> has a result, it satisfies \<open>P\<close>. The introduction rules follow the
  structure of monadic definitions, so that a property of all results is reduced to its leaves.
\<close>

definition opt_all :: "('a \<Rightarrow> bool) \<Rightarrow> 'a option \<Rightarrow> bool" where
  "opt_all P m \<longleftrightarrow> (case m of None \<Rightarrow> True | Some x \<Rightarrow> P x)"

named_theorems opt_intros \<open>introduction rules of \<open>opt_all\<close>\<close>

lemma opt_allD: "opt_all P m \<Longrightarrow> m = Some x \<Longrightarrow> P x"
  by (simp add: opt_all_def)

lemma opt_allI: "(\<And>x. m = Some x \<Longrightarrow> P x) \<Longrightarrow> opt_all P m"
  by (simp add: opt_all_def split: option.split)

lemma opt_all_Some [opt_intros]: "P x \<Longrightarrow> opt_all P (Some x)"
  by (simp add: opt_all_def)

lemma opt_all_None [opt_intros]: "opt_all P None"
  by (simp add: opt_all_def)

lemma opt_all_bind [opt_intros]:
  "(\<And>x. m = Some x \<Longrightarrow> opt_all P (f x)) \<Longrightarrow> opt_all P (Option.bind m f)"
  by (cases m) (simp_all add: opt_all_def)

lemma opt_all_if [opt_intros]:
  "(b \<Longrightarrow> opt_all P x) \<Longrightarrow> (\<not> b \<Longrightarrow> opt_all P y) \<Longrightarrow> opt_all P (if b then x else y)"
  by simp

lemma opt_all_Let [opt_intros]: "(\<And>v. v = e \<Longrightarrow> opt_all P (f v)) \<Longrightarrow> opt_all P (Let e f)"
  by simp

lemma opt_all_map [opt_intros]: "opt_all (\<lambda>x. P (f x)) m \<Longrightarrow> opt_all P (map_option f m)"
  by (cases m) (simp_all add: opt_all_def)

lemma opt_all_case_prod [opt_intros]:
  "(\<And>a b. p = (a, b) \<Longrightarrow> opt_all P (f a b)) \<Longrightarrow> opt_all P (case_prod f p)"
  by (cases p) simp

lemma opt_all_case_option [opt_intros]:
  "(m = None \<Longrightarrow> opt_all P x) \<Longrightarrow> (\<And>y. m = Some y \<Longrightarrow> opt_all P (f y)) \<Longrightarrow>
     opt_all P (case m of None \<Rightarrow> x | Some y \<Rightarrow> f y)"
  by (cases m) simp_all

lemma opt_all_weaken: "opt_all P m \<Longrightarrow> (\<And>x. P x \<Longrightarrow> Q x) \<Longrightarrow> opt_all Q m"
  by (cases m) (simp_all add: opt_all_def)

text \<open>\<open>sum_all E P r\<close>: a fault of \<open>r\<close> satisfies \<open>E\<close> and a value satisfies \<open>P\<close>.\<close>

definition sum_all :: "('e \<Rightarrow> bool) \<Rightarrow> ('a \<Rightarrow> bool) \<Rightarrow> 'e + 'a \<Rightarrow> bool" where
  "sum_all E P r \<longleftrightarrow> (case r of Inl e \<Rightarrow> E e | Inr x \<Rightarrow> P x)"

named_theorems sum_intros \<open>introduction rules of \<open>sum_all\<close>\<close>

lemma sum_allD: "sum_all E P r \<Longrightarrow> r = Inr x \<Longrightarrow> P x"
  by (simp add: sum_all_def)

lemma sum_allE: "sum_all E P r \<Longrightarrow> r = Inl e \<Longrightarrow> E e"
  by (simp add: sum_all_def)

lemma sum_all_Inr [sum_intros]: "P x \<Longrightarrow> sum_all E P (Inr x)"
  by (simp add: sum_all_def)

lemma sum_all_Inl [sum_intros]: "E e \<Longrightarrow> sum_all E P (Inl e)"
  by (simp add: sum_all_def)

lemma sum_all_case_sum [sum_intros]:
  "(\<And>e. r = Inl e \<Longrightarrow> sum_all E P (g e)) \<Longrightarrow> (\<And>x. r = Inr x \<Longrightarrow> sum_all E P (f x)) \<Longrightarrow>
     sum_all E P (case r of Inl e \<Rightarrow> g e | Inr x \<Rightarrow> f x)"
  by (cases r) simp_all

lemma sum_all_if [sum_intros]:
  "(b \<Longrightarrow> sum_all E P x) \<Longrightarrow> (\<not> b \<Longrightarrow> sum_all E P y) \<Longrightarrow> sum_all E P (if b then x else y)"
  by simp

lemma sum_all_Let [sum_intros]: "(\<And>v. v = e \<Longrightarrow> sum_all E P (f v)) \<Longrightarrow> sum_all E P (Let e f)"
  by simp

lemma sum_all_case_prod [sum_intros]:
  "(\<And>a b. p = (a, b) \<Longrightarrow> sum_all E P (f a b)) \<Longrightarrow> sum_all E P (case_prod f p)"
  by (cases p) simp

lemma sum_all_case_option [sum_intros]:
  "(m = None \<Longrightarrow> sum_all E P x) \<Longrightarrow> (\<And>y. m = Some y \<Longrightarrow> sum_all E P (f y)) \<Longrightarrow>
     sum_all E P (case m of None \<Rightarrow> x | Some y \<Rightarrow> f y)"
  by (cases m) simp_all

lemma sum_all_bind:
  "sum_all E Q r \<Longrightarrow> (\<And>x. Q x \<Longrightarrow> sum_all E P (f x)) \<Longrightarrow> sum_all E P (case r of Inl e \<Rightarrow> Inl e | Inr x \<Rightarrow> f x)"
  by (cases r) (simp_all add: sum_all_def)

lemma sum_all_weaken: "sum_all E P r \<Longrightarrow> (\<And>x. P x \<Longrightarrow> Q x) \<Longrightarrow> sum_all E Q r"
  by (cases r) (simp_all add: sum_all_def)

section \<open>Runs of a machine\<close>

text \<open>
  A deterministic component is a step function on its state that may fail; a run feeds it a list
  of events and stops at the first failure.
\<close>

fun run_opt :: "('s \<Rightarrow> 'e \<Rightarrow> 's option) \<Rightarrow> 's \<Rightarrow> 'e list \<Rightarrow> 's option" where
  "run_opt f s [] = Some s"
| "run_opt f s (e # es) = (case f s e of None \<Rightarrow> None | Some s' \<Rightarrow> run_opt f s' es)"

lemma run_opt_append:
  "run_opt f s (xs @ ys) = (case run_opt f s xs of None \<Rightarrow> None | Some s' \<Rightarrow> run_opt f s' ys)"
  by (induction xs arbitrary: s) (auto split: option.splits)

text \<open>
  A component whose steps interleave is a relation; its reachable states are the least set that
  holds the initial states and is closed under steps.
\<close>

inductive reach :: "('s \<Rightarrow> bool) \<Rightarrow> ('s \<Rightarrow> 's \<Rightarrow> bool) \<Rightarrow> 's \<Rightarrow> bool" for init step where
  reach_init: "init s \<Longrightarrow> reach init step s"
| reach_step: "reach init step s \<Longrightarrow> step s t \<Longrightarrow> reach init step t"

text \<open>The contract of an inductive invariant, and what it gives for every reachable state.\<close>

locale inductive_invariant =
  fixes init :: "'s \<Rightarrow> bool" and step :: "'s \<Rightarrow> 's \<Rightarrow> bool" and inv :: "'s \<Rightarrow> bool"
  assumes inv_init: "init s \<Longrightarrow> inv s"
    and inv_step: "inv s \<Longrightarrow> step s t \<Longrightarrow> inv t"
begin

lemma reach_inv: "reach init step s \<Longrightarrow> inv s"
  by (induction rule: reach.induct) (auto intro: inv_init inv_step)

end

text \<open>The same contract for a step function that may fail.\<close>

locale step_invariant =
  fixes f :: "'s \<Rightarrow> 'e \<Rightarrow> 's option" and inv :: "'s \<Rightarrow> bool"
  assumes f_inv: "inv s \<Longrightarrow> f s e = Some s' \<Longrightarrow> inv s'"
begin

lemma run_inv: "inv s \<Longrightarrow> run_opt f s es = Some s' \<Longrightarrow> inv s'"
  by (induction es arbitrary: s) (auto split: option.splits intro: f_inv)

end

end
