(* ===== verification/Config_Options.thy ===== *)
theory Config_Options
  imports Prelude
begin

text \<open>
  The constants of \<open>include/config_options.h\<close> that the components share: names of the file
  system nodes, identifiers of the monitored variables, the table that assigns each node its kind
  of handler, the compile-time string hash and the sizes of the time-shift buffer; and the sizes of
  the demuxers' buffers of \<open>include/config_fcc.h\<close>.
\<close>

section \<open>Nodes and variables\<close>

type_synonym FsNode = string
type_synonym ConfigVariableId = string

definition CONFIG_F_CHANNEL_SELECT :: FsNode where "CONFIG_F_CHANNEL_SELECT = ''chan_select0''"
definition CONFIG_F_CHANNEL_SELECT_TIMESTAMP :: FsNode where
  "CONFIG_F_CHANNEL_SELECT_TIMESTAMP = ''chan_select_timestamp0''"
definition CONFIG_F_PLAYER_STATE :: FsNode where "CONFIG_F_PLAYER_STATE = ''player_state0''"
definition CONFIG_F_SEEK_CONTROL :: FsNode where "CONFIG_F_SEEK_CONTROL = ''seek0''"
definition STREAM_SRC_FILE :: FsNode where "STREAM_SRC_FILE = ''stream0.ts''"
definition CONFIG_F_STATS_DEVICE_IP :: FsNode where "CONFIG_F_STATS_DEVICE_IP = ''stat_device_ip''"
definition CONFIG_F_STATS_SW_VERSION :: FsNode where "CONFIG_F_STATS_SW_VERSION = ''sw_version''"
definition CONFIG_F_MODEL_ID :: FsNode where "CONFIG_F_MODEL_ID = ''model_id''"
definition CONFIG_F_STAT_DAILY_OFFSET :: FsNode where "CONFIG_F_STAT_DAILY_OFFSET = ''stat_daily_offset''"
definition CONFIG_F_STAT_RESET_STATS :: FsNode where
  "CONFIG_F_STAT_RESET_STATS = ''feipmgr_reset_statistics''"
definition CONFIG_F_STAT_ONDEMAND_STATISTIC :: FsNode where
  "CONFIG_F_STAT_ONDEMAND_STATISTIC = ''stat_ondemand_statistics''"
definition CONFIG_F_STAT_PERIODIC_STAT_SERVER :: FsNode where
  "CONFIG_F_STAT_PERIODIC_STAT_SERVER = ''stat_periodic_stat_server''"
definition CONFIG_F_STAT_ONDEMAND_STAT_SERVER :: FsNode where
  "CONFIG_F_STAT_ONDEMAND_STAT_SERVER = ''stat_ondemand_stat_server''"
definition CONFIG_F_STAT_INFORM_FIRST_FRAME :: FsNode where
  "CONFIG_F_STAT_INFORM_FIRST_FRAME = ''stat_inform_first_frame''"
definition CONFIG_F_STAT_GLOBAL :: FsNode where "CONFIG_F_STAT_GLOBAL = ''stat_global''"
definition CONFIG_F_STAT_CHANNEL :: FsNode where "CONFIG_F_STAT_CHANNEL = ''stat_channel''"
definition CONFIG_F_STAT_PERIOD_FREQ :: FsNode where "CONFIG_F_STAT_PERIOD_FREQ = ''stat_periodic_freq''"
definition CONFIG_F_STREAMFS_PID :: FsNode where "CONFIG_F_STREAMFS_PID = ''pidfile''"
definition CONFIG_F_STREAM_STATUS :: FsNode where "CONFIG_F_STREAM_STATUS = ''stream_status''"
definition CONFIG_FCC_PLUGIN_ID :: string where "CONFIG_FCC_PLUGIN_ID = ''fcc''"

definition CONFIG_F_PROTECTION_INFO :: FsNode where "CONFIG_F_PROTECTION_INFO = ''drm0''"
definition CONFIG_F_FCC_STREAM_INFO_ECM :: FsNode where "CONFIG_F_FCC_STREAM_INFO_ECM = ''ecm0''"
definition CONFIG_F_FCC_STREAM_INFO_PAT :: FsNode where "CONFIG_F_FCC_STREAM_INFO_PAT = ''pat0''"
definition CONFIG_F_FCC_STREAM_INFO_PMT :: FsNode where "CONFIG_F_FCC_STREAM_INFO_PMT = ''pmt0''"
definition CONFIG_F_STREAM_INFO_FLUSH :: FsNode where "CONFIG_F_STREAM_INFO_FLUSH = ''flush0''"
definition CONFIG_F_CDM_STATUS :: FsNode where "CONFIG_F_CDM_STATUS = ''cdm_ready0''"
definition CONFIG_F_TRICK_PLAY :: FsNode where "CONFIG_F_TRICK_PLAY = ''trick_play0''"

definition kDrm0 :: ConfigVariableId where "kDrm0 = ''streamfs.fcc.kDrm0''"
definition kEcm0 :: ConfigVariableId where "kEcm0 = ''streamfs.fcc.kEcm0''"
definition kPmt0 :: ConfigVariableId where "kPmt0 = ''streamfs.fcc.kPmt0''"
definition kPat0 :: ConfigVariableId where "kPat0 = ''streamfs.fcc.kPat0''"
definition kFlush0 :: ConfigVariableId where "kFlush0 = ''streamfs.fcc.kFlush0''"
definition kCdm0 :: ConfigVariableId where "kCdm0 = ''streamfs.fcc.kCdm0''"
definition kTrickPlay0 :: ConfigVariableId where "kTrickPlay0 = ''streamfs.fcc.kTrickPlay0''"
definition kBufferSrcLost0 :: ConfigVariableId where "kBufferSrcLost0 = ''streamfs.fcc.kBufferSrcLost0''"

lemmas node_defs =
  CONFIG_F_CHANNEL_SELECT_def CONFIG_F_CHANNEL_SELECT_TIMESTAMP_def CONFIG_F_PLAYER_STATE_def
  CONFIG_F_SEEK_CONTROL_def CONFIG_F_STATS_DEVICE_IP_def CONFIG_F_STATS_SW_VERSION_def
  CONFIG_F_MODEL_ID_def CONFIG_F_STAT_DAILY_OFFSET_def CONFIG_F_STAT_RESET_STATS_def
  CONFIG_F_STAT_ONDEMAND_STATISTIC_def CONFIG_F_STAT_PERIODIC_STAT_SERVER_def
  CONFIG_F_STAT_ONDEMAND_STAT_SERVER_def CONFIG_F_STAT_INFORM_FIRST_FRAME_def
  CONFIG_F_STAT_GLOBAL_def CONFIG_F_STAT_CHANNEL_def CONFIG_F_STAT_PERIOD_FREQ_def
  CONFIG_F_STREAMFS_PID_def CONFIG_F_STREAM_STATUS_def CONFIG_F_PROTECTION_INFO_def
  CONFIG_F_FCC_STREAM_INFO_ECM_def CONFIG_F_FCC_STREAM_INFO_PAT_def CONFIG_F_FCC_STREAM_INFO_PMT_def
  CONFIG_F_STREAM_INFO_FLUSH_def CONFIG_F_CDM_STATUS_def CONFIG_F_TRICK_PLAY_def

section \<open>Kinds of handlers\<close>

datatype ConfigType =
  CHANNEL_SELECT | PLAYER_STATE | SEEK_CONTROL | STATS_CONTROL | STREAM_INFO | PROTECTION_INFO
| CDM_STATUS | TRICK_PLAY | UNDEFINED

definition config_handlers_g :: "(FsNode \<times> ConfigType) list" where
  "config_handlers_g =
    [(CONFIG_F_CHANNEL_SELECT,            CHANNEL_SELECT),
     (CONFIG_F_CHANNEL_SELECT_TIMESTAMP,  CHANNEL_SELECT),
     (CONFIG_F_PLAYER_STATE,              PLAYER_STATE),
     (CONFIG_F_SEEK_CONTROL,              SEEK_CONTROL),
     (CONFIG_F_STATS_SW_VERSION,          STATS_CONTROL),
     (CONFIG_F_MODEL_ID,                  STATS_CONTROL),
     (CONFIG_F_MODEL_ID,                  STATS_CONTROL),
     (CONFIG_F_STAT_DAILY_OFFSET,         STATS_CONTROL),
     (CONFIG_F_STAT_RESET_STATS,          STATS_CONTROL),
     (CONFIG_F_STAT_ONDEMAND_STATISTIC,   STATS_CONTROL),
     (CONFIG_F_STAT_PERIODIC_STAT_SERVER, STATS_CONTROL),
     (CONFIG_F_STAT_ONDEMAND_STAT_SERVER, STATS_CONTROL),
     (CONFIG_F_STAT_INFORM_FIRST_FRAME,   STATS_CONTROL),
     (CONFIG_F_STAT_GLOBAL,               STATS_CONTROL),
     (CONFIG_F_STAT_CHANNEL,              STATS_CONTROL),
     (CONFIG_F_STATS_DEVICE_IP,           STATS_CONTROL),
     (CONFIG_F_STAT_PERIOD_FREQ,          STATS_CONTROL),
     (CONFIG_F_PROTECTION_INFO,           PROTECTION_INFO),
     (CONFIG_F_CDM_STATUS,                CDM_STATUS),
     (CONFIG_F_FCC_STREAM_INFO_ECM,       STREAM_INFO),
     (CONFIG_F_FCC_STREAM_INFO_PAT,       STREAM_INFO),
     (CONFIG_F_FCC_STREAM_INFO_PMT,       STREAM_INFO),
     (CONFIG_F_STREAMFS_PID,              STATS_CONTROL),
     (CONFIG_F_STREAM_INFO_FLUSH,         SEEK_CONTROL),
     (CONFIG_F_STREAM_STATUS,             STATS_CONTROL),
     (CONFIG_F_TRICK_PLAY,                TRICK_PLAY)]"

text \<open>
  The hash that labels the cases of the handlers' \<open>switch\<close> statements: the characters enter with
  the sign of \<open>char\<close>.
\<close>

fun hashStr :: "bool \<Rightarrow> string \<Rightarrow> u32" where
  "hashStr sc [] = 5381"
| "hashStr sc (c # cs) = (hashStr sc cs * 33) XOR char_int sc (of_char c)"

section \<open>Time-shift buffer sizes\<close>

definition TSB_SIZE_SEC :: nat where "TSB_SIZE_SEC = 1"
definition BUFFER_CHUNK_CBR_PERIOD_USEC :: nat where "BUFFER_CHUNK_CBR_PERIOD_USEC = 12655"
definition BUFFER_POOL_TAIL_SIZE :: nat where "BUFFER_POOL_TAIL_SIZE = 100"
definition BUFFER_SAMPLING_RATIO :: nat where "BUFFER_SAMPLING_RATIO = 4"
definition TSB_MAX_DURATION_BYTES :: nat where "TSB_MAX_DURATION_BYTES = 1024 * 1024 * 1024"
definition MIN_BITRATE_SUPPORTED :: nat where "MIN_BITRATE_SUPPORTED = 1024 * 1024 div 8"
definition TSB_MAX_DURATION_SECONDS :: nat where
  "TSB_MAX_DURATION_SECONDS = TSB_MAX_DURATION_BYTES div MIN_BITRATE_SUPPORTED"

section \<open>Buffers of the demuxers\<close>

definition FEIP_DEFAULT_BUFFER_COUNT :: nat where "FEIP_DEFAULT_BUFFER_COUNT = 64"
definition FEIP_BUFFER_SIZE :: nat where "FEIP_BUFFER_SIZE = 32 * 7 * 188"

text \<open>A string as its bytes.\<close>

definition str_bytes :: "string \<Rightarrow> bytes" where
  "str_bytes = map of_char"

end
