(* ===== verification/Rtp_Listener.thy ===== *)
theory Rtp_Listener
  imports Config_Options "HOL-Library.Multiset"
begin

text \<open>
  The RTP input of \<open>3rdparty/rtp/RtpStreamListener.cpp\<close>: header parsing, the sequence-number
  comparison, the reordering cache and the delivery of payloads to the media source. The state
  keeps, beside the members of the class, the payloads handed to
  \<open>MediaSourceHandler::pushBuffertoBQ\<close> in order (\<open>rtp_sink\<close>). An access outside a
  buffer is \<open>None\<close>; the call of \<open>abort()\<close> is \<open>Inl Aborted\<close>.
\<close>

section \<open>State\<close>

definition MAX_RTP_BUFFER_CACHE :: nat where "MAX_RTP_BUFFER_CACHE = 5"
definition MAX_SEQNUM_DIFF_FOR_DISCONTINUITY :: int where
  "MAX_SEQNUM_DIFF_FOR_DISCONTINUITY = 10"
definition MID_SEQUENCE_NUMBER :: int where "MID_SEQUENCE_NUMBER = 0x8000"

record BufferInfo =
  mSequenceNumber :: u16
  mBuffer :: bytes

record RtpStreamListener =
  mFd :: int
  mAddr_port :: u16
  mPHandler :: bool
  mNextSequenceNumber :: int
  mBufferCache :: "BufferInfo list"
  rtp_sink :: "bytes list"
  rtp_open_fds :: "int list"

datatype process_exit = Aborted

definition RtpStreamListener_init :: RtpStreamListener where
  "RtpStreamListener_init =
     \<lparr>mFd = 0, mAddr_port = 0, mPHandler = False, mNextSequenceNumber = -1, mBufferCache = [],
      rtp_sink = [], rtp_open_fds = []\<rparr>"

definition disableSequencing :: bool where "disableSequencing = False"

text \<open>
  \<open>setup\<close>: the results of \<open>socket\<close>, the two \<open>setsockopt\<close> calls and \<open>bind\<close> are
  its input. \<open>rtp_open_fds\<close> are the sockets the class has opened and not closed. The sequence
  state is left as it is.
\<close>

record setup_calls =
  sc_socket :: int
  sc_reuse :: int
  sc_bind :: int
  sc_join :: int

definition RtpStreamListener_setup ::
    "setup_calls \<Rightarrow> int \<Rightarrow> RtpStreamListener \<Rightarrow> int \<times> RtpStreamListener" where
  "RtpStreamListener_setup os port s0 =
     (let s = s0\<lparr>mPHandler := True\<rparr>; fd = sc_socket os
      in if fd < 0 then (1, s)
         else
           let s1 = s\<lparr>rtp_open_fds := fd # rtp_open_fds s\<rparr>;
               fail_setup = (1, s1\<lparr>rtp_open_fds := remove1 fd (rtp_open_fds s1)\<rparr>)
           in if sc_reuse os < 0 then fail_setup
              else if sc_bind os < 0 then fail_setup
              else if sc_join os < 0 then fail_setup
              else
                let s2 = (if mFd s1 \<noteq> 0
                          then s1\<lparr>rtp_open_fds := remove1 (mFd s1) (rtp_open_fds s1)\<rparr> else s1)
                in (0, s2\<lparr>mFd := fd, mAddr_port := word_of_int port\<rparr>))"

text \<open>The destructor closes the socket and waits for the reader thread.\<close>

definition RtpStreamListener_destroy :: "RtpStreamListener \<Rightarrow> RtpStreamListener" where
  "RtpStreamListener_destroy s =
     (if mFd s \<noteq> 0 then s\<lparr>rtp_open_fds := remove1 (mFd s) (rtp_open_fds s)\<rparr> else s)"

section \<open>Sequence numbers\<close>

definition diffSequenceNumber :: "u16 \<Rightarrow> u16 \<Rightarrow> int" where
  "diffSequenceNumber first second =
     (let f = uint first; s = uint second
      in if f > s then
           if f - s > MID_SEQUENCE_NUMBER then - (0x10000 + s - f) else f - s
         else
           if s - f > MID_SEQUENCE_NUMBER then 0x10000 + s - f else - (s - f))"

section \<open>Delivery and the reordering cache\<close>

text \<open>
  \<open>pushBuffertoBQ(buf, len, sequenceNumber)\<close>: \<open>src\<close> and \<open>off\<close> give the array and the
  position the pointer \<open>buf\<close> points to. The acquired buffer holds \<open>FEIP_BUFFER_SIZE\<close> bytes.
\<close>

definition RtpStreamListener_pushBuffertoBQ ::
    "bytes \<Rightarrow> nat \<Rightarrow> nat \<Rightarrow> int \<Rightarrow> RtpStreamListener \<Rightarrow> RtpStreamListener option" where
  "RtpStreamListener_pushBuffertoBQ src off len sequenceNumber s = do {
     s' \<leftarrow> (if mPHandler s then do {
              d \<leftarrow> mem_read src off len;
              if len \<le> FEIP_BUFFER_SIZE then Some (s\<lparr>rtp_sink := rtp_sink s @ [d]\<rparr>) else None
            } else Some s);
     Some (s'\<lparr>mNextSequenceNumber := (sequenceNumber + 1) mod 0x10000\<rparr>)
   }"

definition push_cached :: "BufferInfo \<Rightarrow> RtpStreamListener \<Rightarrow> RtpStreamListener option" where
  "push_cached x s =
     RtpStreamListener_pushBuffertoBQ (mBuffer x) 0 (length (mBuffer x)) (uint (mSequenceNumber x)) s"

text \<open>One sweep of the \<open>for\<close> loop over the cache: what stays, whether anything was pushed.\<close>

fun cached_pass ::
    "BufferInfo list \<Rightarrow> RtpStreamListener \<Rightarrow> (BufferInfo list \<times> bool \<times> RtpStreamListener) option" where
  "cached_pass [] s = Some ([], False, s)"
| "cached_pass (x # xs) s =
     (if uint (mSequenceNumber x) = mNextSequenceNumber s then do {
        s' \<leftarrow> push_cached x s;
        (ys, p, s'') \<leftarrow> cached_pass xs s';
        Some (ys, True, s'')
      } else do {
        (ys, p, s') \<leftarrow> cached_pass xs s;
        Some (x # ys, p, s')
      })"

lemma cached_pass_length:
  "cached_pass xs s = Some (ys, p, s') \<Longrightarrow>
     length ys \<le> length xs \<and> (p \<longrightarrow> length ys < length xs)"
  by (induction xs arbitrary: s ys p s')
     (fastforce simp: bind_eq_Some_conv split: if_splits)+

lemma cached_pass_not_pushed:
  "cached_pass xs s = Some (ys, False, s') \<Longrightarrow>
     ys = xs \<and> s' = s \<and> (\<forall>x \<in> set xs. uint (mSequenceNumber x) \<noteq> mNextSequenceNumber s)"
  by (induction xs arbitrary: s ys s')
     (fastforce simp: bind_eq_Some_conv split: if_splits)+

text \<open>
  How far the next expected number is from the nearest cached one: skipping a number brings it one
  closer, which is why the loop ends.
\<close>

definition cache_gap :: "RtpStreamListener \<Rightarrow> nat" where
  "cache_gap s =
     (if 0 \<le> mNextSequenceNumber s \<and> mNextSequenceNumber s < 0x10000
      then Min ((\<lambda>x. nat ((uint (mSequenceNumber x) - mNextSequenceNumber s) mod 0x10000)) `
                set (mBufferCache s))
      else 0x10000)"

lemma seq_distance_skip:
  fixes q n :: int
  assumes "0 \<le> q" "q < 0x10000" "0 \<le> n" "n < 0x10000" "q \<noteq> n"
  shows "nat ((q - (n + 1) mod 0x10000) mod 0x10000) = nat ((q - n) mod 0x10000) - 1"
    and "0 < nat ((q - n) mod 0x10000)"
proof -
  have nz: "(q - n) mod 0x10000 \<noteq> 0"
  proof
    assume "(q - n) mod 0x10000 = 0"
    then have "0x10000 dvd q - n" by (simp only: mod_eq_0_iff_dvd)
    then obtain k where k: "q - n = 0x10000 * k" by (rule dvdE)
    have "k < 1" "- 1 < k" using assms k by linarith+
    then have "k = 0" by linarith
    with k \<open>q \<noteq> n\<close> show False by simp
  qed
  have ge: "0 \<le> (q - n) mod 0x10000" by simp
  with nz show "0 < nat ((q - n) mod 0x10000)" by simp
  have "(q - (n + 1) mod 0x10000) mod 0x10000 = ((q - n) mod 0x10000 - 1) mod 0x10000"
    by (simp only: mod_diff_right_eq mod_diff_left_eq diff_diff_eq)
  also have "\<dots> = (q - n) mod 0x10000 - 1"
    using nz ge pos_mod_bound [of "0x10000" "q - n"] by (intro mod_pos_pos_trivial) linarith+
  finally show "nat ((q - (n + 1) mod 0x10000) mod 0x10000) = nat ((q - n) mod 0x10000) - 1"
    using ge nz by (simp add: nat_diff_distrib)
qed

lemma cache_gap_skip:
  assumes ne: "mBufferCache s \<noteq> []"
    and no: "\<forall>x \<in> set (mBufferCache s). uint (mSequenceNumber x) \<noteq> mNextSequenceNumber s"
  shows "cache_gap (s\<lparr>mNextSequenceNumber := (mNextSequenceNumber s + 1) mod 0x10000\<rparr>) < cache_gap s"
proof -
  let ?n = "mNextSequenceNumber s" and ?C = "set (mBufferCache s)"
  let ?d = "\<lambda>m x. nat ((uint (mSequenceNumber x) - m) mod 0x10000)"
  let ?m = "(?n + 1) mod 0x10000"
  have new: "cache_gap (s\<lparr>mNextSequenceNumber := ?m\<rparr>) = Min (?d ?m ` ?C)"
    by (simp add: cache_gap_def)
  have C: "finite ?C" "?C \<noteq> {}" using ne by auto
  show ?thesis
  proof (cases "0 \<le> ?n \<and> ?n < 0x10000")
    case True
    then have old: "cache_gap s = Min (?d ?n ` ?C)" by (simp add: cache_gap_def)
    have "Min (?d ?n ` ?C) \<in> ?d ?n ` ?C" using C by (intro Min_in) auto
    then obtain x where x: "x \<in> ?C" and eq: "Min (?d ?n ` ?C) = ?d ?n x" by auto
    have "?d ?m x = ?d ?n x - 1" "0 < ?d ?n x"
      using seq_distance_skip [of "uint (mSequenceNumber x)" ?n] True no x uint16_less
      by auto
    then have "?d ?m x < ?d ?n x" by linarith
    moreover have "Min (?d ?m ` ?C) \<le> ?d ?m x" using C x by (intro Min_le) auto
    ultimately show ?thesis using new old eq by linarith
  next
    case False
    then have old: "cache_gap s = 0x10000" by (auto simp: cache_gap_def)
    obtain x where x: "x \<in> ?C" using ne by (cases "mBufferCache s") auto
    have "Min (?d ?m ` ?C) \<le> ?d ?m x" using C x by (intro Min_le) auto
    also have "?d ?m x < 0x10000"
      using pos_mod_bound [of "0x10000" "uint (mSequenceNumber x) - ?m"] by linarith
    finally show ?thesis by (simp only: new old)
  qed
qed

function processCachedBuffers :: "RtpStreamListener \<Rightarrow> RtpStreamListener option" where
  "processCachedBuffers s =
     (case cached_pass (mBufferCache s) s of
        None \<Rightarrow> None
      | Some (ys, pushed, s') \<Rightarrow>
          let s1 = s'\<lparr>mBufferCache := ys\<rparr>
          in if 0 < length ys \<and> pushed then processCachedBuffers s1
             else if length ys = MAX_RTP_BUFFER_CACHE
             then processCachedBuffers
                    (s1\<lparr>mNextSequenceNumber := (mNextSequenceNumber s1 + 1) mod 0x10000\<rparr>)
             else Some s1)"
  by pat_completeness auto
termination
proof (relation "measures [\<lambda>s. length (mBufferCache s), cache_gap]", goal_cases)
  case 1
  then show ?case by simp
next
  case (2 s a ys b pushed s' s1)
  then have "cached_pass (mBufferCache s) s = Some (ys, pushed, s')" by simp
  from cached_pass_length [OF this] 2(5) show ?case by (simp add: 2(4))
next
  case (3 s a ys b pushed s' s1)
  have np: "\<not> pushed" using 3(5,6) by (auto simp: MAX_RTP_BUFFER_CACHE_def)
  then have pass: "cached_pass (mBufferCache s) s = Some (ys, False, s')" using 3(1-3) by simp
  then have same: "ys = mBufferCache s" "s' = s"
    and no: "\<forall>x \<in> set (mBufferCache s). uint (mSequenceNumber x) \<noteq> mNextSequenceNumber s"
    using cached_pass_not_pushed by blast+
  have ne: "mBufferCache s \<noteq> []" using 3(6) same by (auto simp: MAX_RTP_BUFFER_CACHE_def)
  have s1: "s1 = s" using 3(4) same by simp
  show ?case using cache_gap_skip [OF ne no] by (simp add: s1)
qed

declare processCachedBuffers.simps [simp del]

section \<open>Packets\<close>

text \<open>
  The header part of \<open>processRtpPacket\<close>: sequence number, payload offset and padding length;
  \<open>Some None\<close> is the early return for a packet whose extension header lies behind its end.
\<close>

definition rtp_header :: "bool \<Rightarrow> bytes \<Rightarrow> u64 \<Rightarrow> (u16 \<times> u64 \<times> u64) option option" where
  "rtp_header sc buf len = do {
     b0 \<leftarrow> rd buf 0;
     b2 \<leftarrow> rd buf 2;
     b3 \<leftarrow> rd buf 3;
     let padding = (char_int sc b0 AND 0x20 \<noteq> 0);
     let extension = (char_int sc b0 AND 0x10 \<noteq> 0);
     let csrcCount = char_int sc b0 AND 0x0F;
     let sequenceNumber = (ucast (push_bit 8 (char_int sc b2) OR char_int sc b3) :: u16);
     let offset = (12 + ucast csrcCount * 4 :: u64);
     paddingLen \<leftarrow> (if padding then map_option (char_size sc) (rd buf (unat (len - 1))) else Some 0);
     if extension then
       if offset > len + 4 then Some None
       else do {
         e2 \<leftarrow> rd buf (unat (offset + 2));
         e3 \<leftarrow> rd buf (unat (offset + 3));
         let extensionLen = (scast (push_bit 8 (char_int sc e2) + char_int sc e3) :: u64);
         Some (Some (sequenceNumber, offset + (4 * extensionLen + 4), paddingLen))
       }
     else Some (Some (sequenceNumber, offset, paddingLen))
   }"

text \<open>
  The insertion loop: before the first cached packet that comes later, at the end otherwise.
\<close>

fun cache_insert :: "BufferInfo \<Rightarrow> BufferInfo list \<Rightarrow> BufferInfo list" where
  "cache_insert x [] = [x]"
| "cache_insert x (y # ys) =
     (if diffSequenceNumber (mSequenceNumber y) (mSequenceNumber x) > 0
      then x # y # ys else y # cache_insert x ys)"

text \<open>The discontinuity branch pushes the cached packets in order and empties the cache.\<close>

fun push_all :: "BufferInfo list \<Rightarrow> RtpStreamListener \<Rightarrow> RtpStreamListener option" where
  "push_all [] s = Some (s\<lparr>mBufferCache := []\<rparr>)"
| "push_all (x # xs) s = do {
     s' \<leftarrow> push_cached x s;
     push_all xs s'
   }"

text \<open>The sequencing part of \<open>processRtpPacket\<close>, from the computed payload on.\<close>

definition rtp_sequence ::
    "u16 \<Rightarrow> bytes \<Rightarrow> nat \<Rightarrow> nat \<Rightarrow> RtpStreamListener \<Rightarrow> (process_exit + RtpStreamListener) option" where
  "rtp_sequence sequenceNumber buf offset payLoadSize s = (
     let cachedBuffersPresent = (length (mBufferCache s) > 0);
         push = RtpStreamListener_pushBuffertoBQ buf offset payLoadSize (uint sequenceNumber);
         finish = (\<lambda>present s'. if present then map_option Inr (processCachedBuffers s')
                                else Some (Inr s'))
     in if disableSequencing \<or> uint sequenceNumber = mNextSequenceNumber s \<or> mNextSequenceNumber s = -1
        then do { s' \<leftarrow> push s; finish cachedBuffersPresent s' }
        else
          let diff = diffSequenceNumber (word_of_int (mNextSequenceNumber s)) sequenceNumber
          in if \<bar>diff\<bar> > MAX_SEQNUM_DIFF_FOR_DISCONTINUITY
             then do { s1 \<leftarrow> push_all (mBufferCache s) s; s2 \<leftarrow> push s1; finish False s2 }
             else if length (mBufferCache s) < MAX_RTP_BUFFER_CACHE
             then do {
               d \<leftarrow> mem_read buf offset payLoadSize;
               finish cachedBuffersPresent
                 (s\<lparr>mBufferCache :=
                      cache_insert \<lparr>mSequenceNumber = sequenceNumber, mBuffer = d\<rparr> (mBufferCache s)\<rparr>)
             }
             else Some (Inl Aborted))"

definition processRtpPacket ::
    "bool \<Rightarrow> bytes \<Rightarrow> u64 \<Rightarrow> RtpStreamListener \<Rightarrow> (process_exit + RtpStreamListener) option" where
  "processRtpPacket sc buf len s = do {
     h \<leftarrow> rtp_header sc buf len;
     (case h of
        None \<Rightarrow> Some (Inr s)
      | Some (sequenceNumber, offset, paddingLen) \<Rightarrow>
          if offset + paddingLen > len then Some (Inr s)
          else rtp_sequence sequenceNumber buf (unat offset) (unat (len - offset - paddingLen)) s)
   }"

text \<open>
  The listener's events: a turn of \<open>readLoop\<close>, where \<open>recvfrom\<close> filled the array \<open>buf\<close>
  and returned \<open>n\<close>, which is passed on as a \<open>size_t\<close>, an error (\<open>-1\<close>) included; and
  a call of \<open>setup\<close>. Both hold \<open>mLock\<close>. The process makes no step after an abort.
\<close>

datatype rtp_event =
    Ev_recv bytes int
  | Ev_setup setup_calls int

definition readLoop_turn ::
    "bool \<Rightarrow> bytes \<Rightarrow> int \<Rightarrow> RtpStreamListener \<Rightarrow> (process_exit + RtpStreamListener) option" where
  "readLoop_turn sc buf n s = processRtpPacket sc buf (word_of_int n) s"

fun rtp_step ::
    "bool \<Rightarrow> process_exit + RtpStreamListener \<Rightarrow> rtp_event \<Rightarrow> (process_exit + RtpStreamListener) option" where
  "rtp_step sc (Inl x) e = Some (Inl x)"
| "rtp_step sc (Inr s) (Ev_recv buf n) = readLoop_turn sc buf n s"
| "rtp_step sc (Inr s) (Ev_setup os port) = Some (Inr (snd (RtpStreamListener_setup os port s)))"

section \<open>The cache never overflows\<close>

lemma push_keeps_cache:
  "RtpStreamListener_pushBuffertoBQ src off len q s = Some s' \<Longrightarrow>
     mBufferCache s' = mBufferCache s \<and> mNextSequenceNumber s' = (q + 1) mod 0x10000 \<and>
     mPHandler s' = mPHandler s"
  by (auto simp: RtpStreamListener_pushBuffertoBQ_def bind_eq_Some_conv split: if_splits)

lemma processCachedBuffers_bound:
  "processCachedBuffers s = Some s' \<Longrightarrow>
     length (mBufferCache s') \<le> length (mBufferCache s) \<and>
     length (mBufferCache s') \<noteq> MAX_RTP_BUFFER_CACHE"
proof (induction s arbitrary: s' rule: processCachedBuffers.induct)
  case (1 s)
  from "1.prems" obtain ys p t where pass: "cached_pass (mBufferCache s) s = Some (ys, p, t)"
    by (subst (asm) processCachedBuffers.simps) (auto split: option.splits)
  note len = cached_pass_length [OF pass]
  note eq = processCachedBuffers.simps [of s]
  let ?s1 = "t\<lparr>mBufferCache := ys\<rparr>"
  consider (again) "0 < length ys \<and> p"
    | (skip) "\<not> (0 < length ys \<and> p)" "length ys = MAX_RTP_BUFFER_CACHE"
    | (stop) "\<not> (0 < length ys \<and> p)" "length ys \<noteq> MAX_RTP_BUFFER_CACHE"
    by blast
  then show ?case
  proof cases
    case again
    then have "processCachedBuffers ?s1 = Some s'" using "1.prems" eq pass by simp
    from "1.IH"(1) [OF pass refl refl refl again this] len show ?thesis by auto
  next
    case skip
    let ?s2 = "?s1\<lparr>mNextSequenceNumber := (mNextSequenceNumber ?s1 + 1) mod 0x10000\<rparr>"
    have "\<not> p" using skip by (auto simp: MAX_RTP_BUFFER_CACHE_def)
    then have "processCachedBuffers ?s2 = Some s'"
      using "1.prems" unfolding eq by (simp add: pass skip(2))
    then have "length (mBufferCache s') \<le> length (mBufferCache ?s2)"
      and "length (mBufferCache s') \<noteq> MAX_RTP_BUFFER_CACHE"
      using "1.IH"(2) [OF pass refl refl refl skip] by blast+
    then show ?thesis using len by simp
  next
    case stop
    then have "s' = ?s1" using "1.prems" eq pass by auto
    then show ?thesis using len stop by simp
  qed
qed

lemma length_cache_insert [simp]: "length (cache_insert x xs) = Suc (length xs)"
  by (induction xs) auto

lemma mset_cache_insert: "mset (cache_insert x xs) = add_mset x (mset xs)"
  by (induction xs) auto

lemma set_cache_insert: "set (cache_insert x xs) = insert x (set xs)"
  by (induction xs) auto

lemma push_all_cache: "push_all xs s = Some s' \<Longrightarrow> mBufferCache s' = []"
  by (induction xs arbitrary: s) (auto simp: bind_eq_Some_conv)

definition cache_bounded :: "RtpStreamListener \<Rightarrow> bool" where
  "cache_bounded s \<longleftrightarrow> length (mBufferCache s) < MAX_RTP_BUFFER_CACHE"

lemma rtp_sequence_bounded:
  assumes inv: "cache_bounded s" and res: "rtp_sequence q buf off n s = Some r"
  shows "\<exists>s'. r = Inr s' \<and> cache_bounded s'"
  using res inv
  by (auto simp: rtp_sequence_def Let_def bind_eq_Some_conv cache_bounded_def MAX_RTP_BUFFER_CACHE_def
           disableSequencing_def split: if_splits
           dest!: push_keeps_cache push_all_cache processCachedBuffers_bound)

lemma processRtpPacket_bounded:
  "cache_bounded s \<Longrightarrow> processRtpPacket sc buf len s = Some r \<Longrightarrow>
     \<exists>s'. r = Inr s' \<and> cache_bounded s'"
proof -
  assume inv: "cache_bounded s" and res: "processRtpPacket sc buf len s = Some r"
  show ?thesis
  proof (cases "rtp_header sc buf len")
    case None
    with res show ?thesis by (simp add: processRtpPacket_def)
  next
    case (Some h)
    then show ?thesis using res inv
      by (cases h) (auto simp: processRtpPacket_def split: if_splits dest: rtp_sequence_bounded)
  qed
qed

definition listener_ok :: "process_exit + RtpStreamListener \<Rightarrow> bool" where
  "listener_ok r = (case r of Inl _ \<Rightarrow> False | Inr s \<Rightarrow> cache_bounded s)"

lemma setup_cache [simp]: "mBufferCache (snd (RtpStreamListener_setup os port s)) = mBufferCache s"
  by (simp add: RtpStreamListener_setup_def Let_def)

lemma rtp_step_ok: "listener_ok r \<Longrightarrow> rtp_step sc r e = Some r' \<Longrightarrow> listener_ok r'"
  by (cases "(sc, r, e)" rule: rtp_step.cases)
     (auto simp: listener_ok_def readLoop_turn_def cache_bounded_def [of "snd _"] cache_bounded_def
           dest: processRtpPacket_bounded [unfolded cache_bounded_def])

interpretation rtp_run: step_invariant "rtp_step sc" listener_ok for sc
  by unfold_locales (rule rtp_step_ok)

lemma listener_init_ok: "listener_ok (Inr RtpStreamListener_init)"
  by (simp add: listener_ok_def cache_bounded_def RtpStreamListener_init_def MAX_RTP_BUFFER_CACHE_def)

text \<open>
  C11: the branch of \<open>processRtpPacket\<close> that calls \<open>abort()\<close> when the cache is full is never
  taken: whatever bytes and lengths \<open>recvfrom\<close> delivers, and however calls of \<open>setup\<close>
  come between, a run of the constructed listener that stays inside its buffers ends in a live state
  whose cache holds fewer than \<open>MAX_RTP_BUFFER_CACHE\<close> packets.
\<close>

theorem rtp_never_aborts:
  assumes "run_opt (rtp_step sc) (Inr RtpStreamListener_init) es = Some r"
  shows "\<exists>s. r = Inr s \<and> length (mBufferCache s) < MAX_RTP_BUFFER_CACHE"
  using rtp_run.run_inv [OF listener_init_ok assms]
  by (auto simp: listener_ok_def cache_bounded_def split: sum.splits)

theorem rtp_never_aborts_witness:
  "\<exists>s. run_opt (rtp_step True) (Inr RtpStreamListener_init)
         [Ev_setup \<lparr>sc_socket = 3, sc_reuse = 0, sc_bind = 0, sc_join = 0\<rparr> 1234,
          Ev_recv [0x80, 33, 0, 5, 0, 0, 0, 0, 0, 0, 0, 0, 7] 13] = Some (Inr s) \<and>
       length (mBufferCache s) < MAX_RTP_BUFFER_CACHE"
proof -
  have "run_opt (rtp_step True) (Inr RtpStreamListener_init)
         [Ev_setup \<lparr>sc_socket = 3, sc_reuse = 0, sc_bind = 0, sc_join = 0\<rparr> 1234,
          Ev_recv [0x80, 33, 0, 5, 0, 0, 0, 0, 0, 0, 0, 0, 7] 13] =
        Some (Inr \<lparr>mFd = 3, mAddr_port = 1234, mPHandler = True, mNextSequenceNumber = 6,
                   mBufferCache = [], rtp_sink = [[7]], rtp_open_fds = [3]\<rparr>)"
    by code_simp
  from this rtp_never_aborts [OF this] show ?thesis by simp
qed

section \<open>What is delivered\<close>

text \<open>
  \<open>run_from n zs\<close>: the packets \<open>zs\<close> carry the consecutive numbers \<open>n\<close>, \<open>n + 1\<close>, ...;
  \<open>seq_after n k\<close> is the number expected after \<open>k\<close> of them.
\<close>

fun run_from :: "int \<Rightarrow> BufferInfo list \<Rightarrow> bool" where
  "run_from n [] = True"
| "run_from n (z # zs) =
     (uint (mSequenceNumber z) = n \<and> run_from ((n + 1) mod 0x10000) zs)"

fun seq_after :: "int \<Rightarrow> nat \<Rightarrow> int" where
  "seq_after n 0 = n"
| "seq_after n (Suc k) = seq_after ((n + 1) mod 0x10000) k"

lemma run_from_append:
  "run_from n (xs @ ys) = (run_from n xs \<and> run_from (seq_after n (length xs)) ys)"
  by (induction xs arbitrary: n) auto

lemma seq_after_add: "seq_after n (i + j) = seq_after (seq_after n i) j"
  by (induction i arbitrary: n) auto

text \<open>\<open>delivers zs s s'\<close>: from \<open>s\<close> to \<open>s'\<close> exactly the packets \<open>zs\<close> were handed on, in order.\<close>

definition delivers :: "BufferInfo list \<Rightarrow> RtpStreamListener \<Rightarrow> RtpStreamListener \<Rightarrow> bool" where
  "delivers zs s s' \<longleftrightarrow>
     mPHandler s' = mPHandler s \<and>
     rtp_sink s' = (if mPHandler s then rtp_sink s @ map mBuffer zs else rtp_sink s)"

lemma delivers_Nil [simp]: "delivers [] s s"
  by (simp add: delivers_def)

lemma delivers_trans: "delivers xs s s' \<Longrightarrow> delivers ys s' s'' \<Longrightarrow> delivers (xs @ ys) s s''"
  by (simp add: delivers_def)

lemma delivers_frame [simp]:
  "delivers zs s (s'\<lparr>mBufferCache := ys\<rparr>) = delivers zs s s'"
  "delivers zs (s\<lparr>mBufferCache := ys\<rparr>) s' = delivers zs s s'"
  "delivers zs (s\<lparr>mNextSequenceNumber := n\<rparr>) s' = delivers zs s s'"
  by (simp_all add: delivers_def)

lemma push_cached_delivers:
  "push_cached x s = Some s' \<Longrightarrow> delivers [x] s s'"
  by (auto simp: push_cached_def RtpStreamListener_pushBuffertoBQ_def delivers_def bind_eq_Some_conv
                 mem_simps split: if_splits)

lemma push_cached_next:
  "push_cached x s = Some s' \<Longrightarrow>
     mNextSequenceNumber s' = (uint (mSequenceNumber x) + 1) mod 0x10000 \<and> mBufferCache s' = mBufferCache s"
  unfolding push_cached_def by (auto dest: push_keeps_cache)

lemma cached_pass_run:
  "cached_pass xs s = Some (ys, p, s') \<Longrightarrow>
     \<exists>zs. run_from (mNextSequenceNumber s) zs \<and> mset xs = mset zs + mset ys \<and> (p \<longleftrightarrow> zs \<noteq> []) \<and>
          mNextSequenceNumber s' = seq_after (mNextSequenceNumber s) (length zs) \<and>
          delivers zs s s'"
proof (induction xs arbitrary: s ys p s')
  case (Cons x xs)
  show ?case
  proof (cases "uint (mSequenceNumber x) = mNextSequenceNumber s")
    case True
    with Cons.prems obtain s1 q where s1: "push_cached x s = Some s1"
      and rest: "cached_pass xs s1 = Some (ys, q, s')" and p: "p"
      by (auto simp: bind_eq_Some_conv)
    from Cons.IH [OF rest] obtain zs where
      "run_from (mNextSequenceNumber s1) zs" "mset xs = mset zs + mset ys"
      "mNextSequenceNumber s' = seq_after (mNextSequenceNumber s1) (length zs)" "delivers zs s1 s'"
      by blast
    then show ?thesis
      using p True push_cached_next [OF s1] delivers_trans [OF push_cached_delivers [OF s1], of zs s']
      by (intro exI [of _ "x # zs"]) simp
  next
    case False
    with Cons.prems obtain ys' where ys: "ys = x # ys'"
      and rest: "cached_pass xs s = Some (ys', p, s')"
      by (auto simp: bind_eq_Some_conv)
    show ?thesis using Cons.IH [OF rest] by (auto simp: ys)
  qed
qed simp

lemma processCachedBuffers_delivers:
  "processCachedBuffers s = Some s' \<Longrightarrow>
     \<exists>zs. mset (mBufferCache s) = mset zs + mset (mBufferCache s') \<and> delivers zs s s' \<and>
          (\<forall>x \<in> set (mBufferCache s'). uint (mSequenceNumber x) \<noteq> mNextSequenceNumber s') \<and>
          (length (mBufferCache s) < MAX_RTP_BUFFER_CACHE \<longrightarrow>
             run_from (mNextSequenceNumber s) zs \<and>
             mNextSequenceNumber s' = seq_after (mNextSequenceNumber s) (length zs))"
proof (induction s arbitrary: s' rule: processCachedBuffers.induct)
  case (1 s)
  from "1.prems" obtain ys p t where pass: "cached_pass (mBufferCache s) s = Some (ys, p, t)"
    by (subst (asm) processCachedBuffers.simps) (auto split: option.splits)
  note eq = processCachedBuffers.simps [of s] and len = cached_pass_length [OF pass]
  from cached_pass_run [OF pass] obtain zs where zs: "run_from (mNextSequenceNumber s) zs"
    "mset (mBufferCache s) = mset zs + mset ys" "p \<longleftrightarrow> zs \<noteq> []"
    "mNextSequenceNumber t = seq_after (mNextSequenceNumber s) (length zs)" "delivers zs s t"
    by blast
  let ?s1 = "t\<lparr>mBufferCache := ys\<rparr>"
  consider (again) "0 < length ys \<and> p"
    | (skip) "\<not> (0 < length ys \<and> p)" "length ys = MAX_RTP_BUFFER_CACHE"
    | (stop) "\<not> (0 < length ys \<and> p)" "length ys \<noteq> MAX_RTP_BUFFER_CACHE"
    by blast
  then show ?case
  proof cases
    case again
    then have "processCachedBuffers ?s1 = Some s'" using "1.prems" eq pass by simp
    from "1.IH"(1) [OF pass refl refl refl again this] obtain us where
      us: "mset ys = mset us + mset (mBufferCache s')" "delivers us t s'"
          "\<forall>x \<in> set (mBufferCache s'). uint (mSequenceNumber x) \<noteq> mNextSequenceNumber s'"
          "length ys < MAX_RTP_BUFFER_CACHE \<longrightarrow> run_from (mNextSequenceNumber t) us \<and>
             mNextSequenceNumber s' = seq_after (mNextSequenceNumber t) (length us)"
      by auto
    then show ?thesis using zs len delivers_trans [OF zs(5) us(2)]
      by (intro exI [of _ "zs @ us"]) (auto simp: run_from_append seq_after_add)
  next
    case skip
    let ?s2 = "?s1\<lparr>mNextSequenceNumber := (mNextSequenceNumber ?s1 + 1) mod 0x10000\<rparr>"
    have np: "\<not> p" using skip by (auto simp: MAX_RTP_BUFFER_CACHE_def)
    then have rest: "processCachedBuffers ?s2 = Some s'"
      using "1.prems" unfolding eq by (simp add: pass skip(2))
    have full: "\<not> length (mBufferCache s) < MAX_RTP_BUFFER_CACHE" using len skip by linarith
    from "1.IH"(2) [OF pass refl refl refl skip rest] obtain us where
      us: "mset ys = mset us + mset (mBufferCache s')" "delivers us t s'"
          "\<forall>x \<in> set (mBufferCache s'). uint (mSequenceNumber x) \<noteq> mNextSequenceNumber s'"
      by auto
    with zs np full delivers_trans [OF zs(5) us(2)] show ?thesis by (intro exI [of _ us]) auto
  next
    case stop
    then have s': "s' = ?s1" using "1.prems" eq pass by auto
    have "\<forall>x \<in> set ys. uint (mSequenceNumber x) \<noteq> mNextSequenceNumber t"
      using stop(1) pass cached_pass_not_pushed [of "mBufferCache s" s ys t] by (cases p) auto
    with zs s' show ?thesis by (intro exI [of _ zs]) auto
  qed
qed

end
