(* ===== verification/Rtp_Packets.thy ===== *)
theory Rtp_Packets
  imports Rtp_Listener
begin

text \<open>
  The RTP listener seen from the network: the packet layout of RFC 3550 as an encoder, the proof
  that \<open>processRtpPacket\<close> recovers the sequence number and the payload of every well-formed
  packet, and what the listener delivers when packets arrive out of order.
\<close>

section \<open>Packet layout\<close>

definition rtp_first :: "bool \<Rightarrow> bool \<Rightarrow> nat \<Rightarrow> u8" where
  "rtp_first p x cc = 0x80 OR (if p then 0x20 else 0) OR (if x then 0x10 else 0) OR word_of_nat cc"

lemma rtp_first_fields:
  assumes "cc < 16"
  shows "((char_int False (rtp_first p x cc) AND 0x20 \<noteq> 0) \<longleftrightarrow> p) \<and>
    ((char_int False (rtp_first p x cc) AND 0x10 \<noteq> 0) \<longleftrightarrow> x) \<and>
    (char_int False (rtp_first p x cc) AND 0x0F = word_of_nat cc)"
proof -
  have "cc = 0 \<or> cc = 1 \<or> cc = 2 \<or> cc = 3 \<or> cc = 4 \<or> cc = 5 \<or> cc = 6 \<or> cc = 7 \<or>
        cc = 8 \<or> cc = 9 \<or> cc = 10 \<or> cc = 11 \<or> cc = 12 \<or> cc = 13 \<or> cc = 14 \<or> cc = 15"
    using assms by arith
  then show ?thesis
    by (elim disjE) (simp_all add: rtp_first_def char_int_def)
qed


text \<open>
  A packet as RFC 3550 lays it out: \<open>cc\<close> CSRC entries, an optional header extension of
  \<open>w\<close> 32-bit words, the payload and \<open>pad\<close> octets of padding, the last of which counts them.
\<close>

definition rtp_ext :: "(u16 \<times> bytes) option \<Rightarrow> bytes" where
  "rtp_ext x = (case x of
     None \<Rightarrow> []
   | Some (w, d) \<Rightarrow> [0xBE, 0xDE, ucast (drop_bit 8 w), ucast w] @ d)"

definition rtp_head :: "nat \<Rightarrow> bytes \<Rightarrow> (u16 \<times> bytes) option \<Rightarrow> nat \<Rightarrow> u16 \<Rightarrow> bytes" where
  "rtp_head cc csrc x pad q =
     [rtp_first (0 < pad) (x \<noteq> None) cc, 33, ucast (drop_bit 8 q), ucast q, 0, 0, 0, 0, 0, 0, 0, 0]
     @ csrc @ rtp_ext x"

definition rtp_pad :: "nat \<Rightarrow> bytes" where
  "rtp_pad pad = (if pad = 0 then [] else replicate (pad - 1) 0 @ [word_of_nat pad])"

definition rtp_packet :: "nat \<Rightarrow> bytes \<Rightarrow> (u16 \<times> bytes) option \<Rightarrow> nat \<Rightarrow> u16 \<Rightarrow> bytes \<Rightarrow> bytes" where
  "rtp_packet cc csrc x pad q payload = rtp_head cc csrc x pad q @ payload @ rtp_pad pad"

definition rtp_packet_ok :: "nat \<Rightarrow> bytes \<Rightarrow> (u16 \<times> bytes) option \<Rightarrow> nat \<Rightarrow> bool" where
  "rtp_packet_ok cc csrc x pad \<longleftrightarrow>
     cc < 16 \<and> length csrc = 4 * cc \<and> pad < 256 \<and>
     (case x of None \<Rightarrow> True | Some (w, d) \<Rightarrow> length d = 4 * unat w)"

lemma length_rtp_pad [simp]: "length (rtp_pad pad) = pad"
  by (simp add: rtp_pad_def)

lemma length_rtp_head:
  assumes "rtp_packet_ok cc csrc x pad"
  shows "length (rtp_head cc csrc x pad q) =
           12 + 4 * cc + (case x of None \<Rightarrow> 0 | Some (w, d) \<Rightarrow> 4 + 4 * unat w)"
  using assms by (auto simp: rtp_packet_ok_def rtp_head_def rtp_ext_def split: option.splits)

lemma rtp_header_packet:
  fixes payload junk :: bytes
  assumes ok: "rtp_packet_ok cc csrc x pad"
    and small: "length (rtp_packet cc csrc x pad q payload) < 2 ^ 63"
  defines "buf \<equiv> rtp_packet cc csrc x pad q payload @ junk"
    and "len \<equiv> of_nat (length (rtp_packet cc csrc x pad q payload)) :: u64"
  shows "rtp_header False buf len =
           Some (Some (q, of_nat (length (rtp_head cc csrc x pad q)), of_nat pad))"
proof -
  let ?h = "rtp_head cc csrc x pad q"
  have cc: "cc < 16" using ok by (simp add: rtp_packet_ok_def)
  note fields = rtp_first_fields [OF cc, of "0 < pad" "x \<noteq> None"]
  have bytes: "rd buf 0 = Some (rtp_first (0 < pad) (x \<noteq> None) cc)"
      "rd buf 2 = Some (ucast (drop_bit 8 q))" "rd buf 3 = Some (ucast q)"
    by (simp_all add: buf_def rtp_packet_def rtp_head_def rd_def)
  have unat_len: "unat len = length ?h + length payload + pad"
  proof -
    have "unat len = length (rtp_packet cc csrc x pad q payload)"
      unfolding len_def using small by (intro unat_of_nat_small) simp
    then show ?thesis by (simp add: rtp_packet_def)
  qed
  have padbyte: "0 < pad \<Longrightarrow> rd buf (unat (len - 1)) = Some (word_of_nat pad)"
  proof -
    assume "0 < pad"
    then obtain m where m: "pad = Suc m" by (cases pad) simp_all
    then have "1 \<le> len" using unat_len by (simp add: word_le_nat_alt)
    then have "unat (len - 1) = length ?h + length payload + m"
      using unat_len m by (simp add: unat_sub)
    then show ?thesis
      by (simp add: buf_def rtp_packet_def rtp_pad_def rd_append m)
  qed
  have off: "12 + ucast (char_int False (rtp_first (0 < pad) (x \<noteq> None) cc) AND 0x0F) * 4
             = (word_of_nat (12 + 4 * cc) :: u64)"
  proof -
    have "cc < 2 ^ LENGTH(32)" using cc by simp
    then show ?thesis using fields ucast_of_nat_small [of cc, where 'a = 32 and 'b = 64] by simp
  qed
  have padlen: "(if 0 < pad then map_option (char_size False) (rd buf (unat (len - 1))) else Some 0)
             = Some (of_nat pad)"
    using padbyte ok by (auto simp: char_size_def rtp_packet_ok_def unsigned_of_nat take_bit_nat_eq_self)
  show ?thesis
  proof (cases x)
    case None
    then show ?thesis using fields bytes padlen off length_rtp_head [OF ok, of q]
      unfolding rtp_header_def by (simp add: char_be16_join)
  next
    case (Some wd)
    obtain w d where wd: "x = Some (w, d)" using Some by (cases wd) simp
    have csrc: "length csrc = 4 * cc" using ok by (simp add: rtp_packet_ok_def)
    let ?o = "word_of_nat (12 + 4 * cc) :: u64"
    have o: "unat (word_of_nat (12 + 4 * cc + k) :: u64) = 12 + 4 * cc + k" if "k < 16" for k
      using cc that by (intro unat_of_nat_small) simp
    have "length (rtp_packet cc csrc x pad q payload) + 4 < 2 ^ 64" using small by simp
    then have "unat (len + 4) = length (rtp_packet cc csrc x pad q payload) + 4"
      using unat_of_nat_small [of "length (rtp_packet cc csrc x pad q payload) + 4", where 'a = 64]
      by (simp add: len_def)
    then have guard: "\<not> ?o > len + 4"
      using o [of 0] length_rtp_head [OF ok, of q]
      by (simp add: word_less_nat_alt rtp_packet_def)
    define pre where "pre = [rtp_first (0 < pad) (x \<noteq> None) cc, 33, ucast (drop_bit 8 q), ucast q,
                             0, 0, 0, 0, 0, 0, 0, 0] @ csrc"
    have pre: "length pre = 12 + 4 * cc" using csrc by (simp add: pre_def)
    have "buf = pre @ [0xBE, 0xDE, ucast (drop_bit 8 w), ucast w] @ d @ payload @ rtp_pad pad @ junk"
      by (simp add: buf_def rtp_packet_def rtp_head_def rtp_ext_def wd pre_def)
    then have ebytes: "rd buf (12 + 4 * cc + 2) = Some (ucast (drop_bit 8 w))"
         "rd buf (12 + 4 * cc + 3) = Some (ucast w)"
      by (simp_all only: rd_at [OF pre]) simp_all
    have e: "rd buf (unat (?o + 2)) = Some (ucast (drop_bit 8 w))"
            "rd buf (unat (?o + 3)) = Some (ucast w)"
      using ebytes o [of 2] o [of 3] by (simp_all add: ac_simps)
    have new: "?o + (4 * ucast w + 4) = word_of_nat (length (rtp_head cc csrc x pad q))"
      using length_rtp_head [OF ok, of q] by (simp add: wd algebra_simps)
    show ?thesis using fields bytes padlen off guard e new wd
      unfolding rtp_header_def by (simp add: char_be16_join char_be16_sum)
  qed
qed

section \<open>Receiving a packet\<close>

lemma mem_read_packet:
  "mem_read (rtp_packet cc csrc x pad q d @ junk) (length (rtp_head cc csrc x pad q)) (length d)
   = Some d"
  by (simp add: rtp_packet_def mem_read_def)

lemma processRtpPacket_packet:
  assumes ok: "rtp_packet_ok cc csrc x pad"
    and small: "length (rtp_packet cc csrc x pad q d) < 2 ^ 63"
  shows "processRtpPacket False (rtp_packet cc csrc x pad q d @ junk)
           (of_nat (length (rtp_packet cc csrc x pad q d))) s =
         rtp_sequence q (rtp_packet cc csrc x pad q d @ junk)
           (length (rtp_head cc csrc x pad q)) (length d) s"
proof -
  let ?h = "length (rtp_head cc csrc x pad q)" and ?n = "length (rtp_packet cc csrc x pad q d)"
  have n: "?n = ?h + length d + pad" by (simp add: rtp_packet_def)
  have u: "unat (of_nat ?n :: u64) = ?n" "unat (of_nat ?h :: u64) = ?h"
          "unat (of_nat (?h + pad) :: u64) = ?h + pad"
    using small n by (intro unat_of_nat_small; simp)+
  have "(of_nat ?n - of_nat ?h - of_nat pad :: u64) = of_nat (length d)"
    by (simp add: n)
  moreover have "unat (of_nat (length d) :: u64) = length d"
    using small n by (intro unat_of_nat_small) simp
  moreover have "\<not> (of_nat ?h + of_nat pad > (of_nat ?n :: u64))"
    using u n by (simp add: word_less_nat_alt flip: of_nat_add)
  ultimately show ?thesis
    unfolding processRtpPacket_def rtp_header_packet [OF ok small] by (simp add: u)
qed

lemma rtp_sequence_read:
  assumes "mem_read buf off n = Some d"
  shows "rtp_sequence q buf off n s = rtp_sequence q d 0 (length d) s"
proof -
  have n: "n = length d" using mem_read_length [OF assms] by simp
  have "mem_read d 0 (length d) = Some d" by (simp add: mem_read_def)
  then have "RtpStreamListener_pushBuffertoBQ buf off n = RtpStreamListener_pushBuffertoBQ d 0 (length d)"
    using assms by (intro ext) (simp add: RtpStreamListener_pushBuffertoBQ_def n)
  then show ?thesis
    using assms \<open>mem_read d 0 (length d) = Some d\<close> by (simp only: rtp_sequence_def)
qed

text \<open>
  \<open>rtp_arrival q d e\<close>: the event \<open>e\<close> is the receipt of a well-formed packet with number
  \<open>q\<close> and payload \<open>d\<close> that fits the receive buffer, whatever follows it there.
\<close>

definition rtp_arrival :: "u16 \<Rightarrow> bytes \<Rightarrow> rtp_event \<Rightarrow> bool" where
  "rtp_arrival q d e \<longleftrightarrow>
     (\<exists>cc csrc x pad junk. rtp_packet_ok cc csrc x pad \<and>
        length (rtp_packet cc csrc x pad q d) \<le> FEIP_BUFFER_SIZE \<and>
        e = Ev_recv (rtp_packet cc csrc x pad q d @ junk)
              (int (length (rtp_packet cc csrc x pad q d))))"

lemma rtp_step_arrival:
  assumes "rtp_arrival q d e"
  shows "rtp_step False (Inr s) e = rtp_sequence q d 0 (length d) s"
    and "length d \<le> FEIP_BUFFER_SIZE"
proof -
  from assms obtain cc csrc x pad junk where ok: "rtp_packet_ok cc csrc x pad"
    and len: "length (rtp_packet cc csrc x pad q d) \<le> FEIP_BUFFER_SIZE"
    and e: "e = Ev_recv (rtp_packet cc csrc x pad q d @ junk) (int (length (rtp_packet cc csrc x pad q d)))"
    unfolding rtp_arrival_def by blast
  have small: "length (rtp_packet cc csrc x pad q d) < 2 ^ 63"
    using len by (simp add: FEIP_BUFFER_SIZE_def)
  show "rtp_step False (Inr s) e = rtp_sequence q d 0 (length d) s"
    using processRtpPacket_packet [OF ok small, of junk s] rtp_sequence_read [OF mem_read_packet]
    by (simp add: e readLoop_turn_def)
  show "length d \<le> FEIP_BUFFER_SIZE" using len by (simp add: rtp_packet_def)
qed

section \<open>Reordering\<close>

lemma cached_pass_idle:
  "\<forall>x \<in> set xs. uint (mSequenceNumber x) \<noteq> mNextSequenceNumber s \<Longrightarrow>
     cached_pass xs s = Some (xs, False, s)"
  by (induction xs) auto

lemma processCachedBuffers_idle:
  assumes "\<forall>x \<in> set (mBufferCache s). uint (mSequenceNumber x) \<noteq> mNextSequenceNumber s"
    and "length (mBufferCache s) \<noteq> MAX_RTP_BUFFER_CACHE"
  shows "processCachedBuffers s = Some s"
  using assms by (subst processCachedBuffers.simps) (simp add: cached_pass_idle)

lemma push_cached_total:
  "length (mBuffer x) \<le> FEIP_BUFFER_SIZE \<Longrightarrow> \<exists>s'. push_cached x s = Some s'"
  by (cases "mPHandler s") (simp_all add: push_cached_def RtpStreamListener_pushBuffertoBQ_def mem_read_def)

lemma cached_pass_total:
  "\<forall>x \<in> set xs. length (mBuffer x) \<le> FEIP_BUFFER_SIZE \<Longrightarrow>
     \<exists>ys p s'. cached_pass xs s = Some (ys, p, s') \<and> set ys \<subseteq> set xs"
proof (induction xs arbitrary: s)
  case (Cons x xs)
  obtain s1 where s1: "push_cached x s = Some s1"
    using Cons.prems push_cached_total [of x s] by auto
  have small: "\<forall>x \<in> set xs. length (mBuffer x) \<le> FEIP_BUFFER_SIZE" using Cons.prems by simp
  show ?case
    using Cons.IH [OF small, of s] Cons.IH [OF small, of s1] s1
    by (cases "uint (mSequenceNumber x) = mNextSequenceNumber s") auto
qed (auto intro: exI [of _ False])

lemma processCachedBuffers_total:
  "\<forall>x \<in> set (mBufferCache s). length (mBuffer x) \<le> FEIP_BUFFER_SIZE \<Longrightarrow>
     \<exists>s'. processCachedBuffers s = Some s'"
proof (induction s rule: processCachedBuffers.induct)
  case (1 s)
  from cached_pass_total [OF "1.prems"] obtain ys p t
    where pass: "cached_pass (mBufferCache s) s = Some (ys, p, t)" and sub: "set ys \<subseteq> set (mBufferCache s)"
    by blast
  have small: "\<forall>x \<in> set ys. length (mBuffer x) \<le> FEIP_BUFFER_SIZE" using sub "1.prems" by blast
  show ?case
    using "1.IH"(1) [OF pass refl refl refl] "1.IH"(2) [OF pass refl refl refl] small
    by (subst processCachedBuffers.simps) (auto simp: pass Let_def)
qed

lemma diff_ahead:
  assumes "0 < i" "i < 0x8000"
  shows "diffSequenceNumber n (n + word_of_nat i) = - int i"
proof -
  have u: "uint (n + word_of_nat i :: u16) = (uint n + int i) mod 0x10000"
    using assms by (intro uint16_plus) simp
  have b: "0 \<le> uint n" "uint n < 0x10000" by (simp_all add: uint16_less)
  show ?thesis
  proof (cases "uint n + int i < 0x10000")
    case True
    then have "uint (n + word_of_nat i) = uint n + int i" using u b by simp
    then show ?thesis using assms by (simp add: diffSequenceNumber_def MID_SEQUENCE_NUMBER_def)
  next
    case False
    then have "uint (n + word_of_nat i) = uint n + int i - 0x10000"
      using b assms unfolding u by (intro mod_once) linarith+
    then show ?thesis using assms by (simp add: diffSequenceNumber_def MID_SEQUENCE_NUMBER_def)
  qed
qed

text \<open>
  A packet at most \<open>MAX_SEQNUM_DIFF_FOR_DISCONTINUITY\<close> ahead of the expected one is cached as long
  as the expected one is missing and there is room.
\<close>

lemma rtp_sequence_caches:
  assumes nxt: "mNextSequenceNumber s = uint n" and ahead: "0 < i" "i \<le> 10"
    and room: "length (mBufferCache s) < 4"
    and missing: "\<forall>x \<in> set (mBufferCache s). mSequenceNumber x \<noteq> n"
  shows "rtp_sequence (n + word_of_nat i) d 0 (length d) s =
         Some (Inr (s\<lparr>mBufferCache :=
           cache_insert \<lparr>mSequenceNumber = n + word_of_nat i, mBuffer = d\<rparr> (mBufferCache s)\<rparr>))"
proof -
  let ?q = "n + word_of_nat i"
  let ?s' = "s\<lparr>mBufferCache := cache_insert \<lparr>mSequenceNumber = ?q, mBuffer = d\<rparr> (mBufferCache s)\<rparr>"
  have diff: "diffSequenceNumber n ?q = - int i" using ahead by (intro diff_ahead) simp_all
  have ne: "?q \<noteq> n" 
  proof
    assume "?q = n"
    with diff ahead show False by (simp add: diffSequenceNumber_def MID_SEQUENCE_NUMBER_def)
  qed
  have "processCachedBuffers ?s' = Some ?s'"
    using missing ne room nxt
    by (intro processCachedBuffers_idle) (auto simp: set_cache_insert uint_eq_uint MAX_RTP_BUFFER_CACHE_def)
  then show ?thesis
    using nxt ne room ahead diff
    by (simp add: rtp_sequence_def disableSequencing_def MAX_SEQNUM_DIFF_FOR_DISCONTINUITY_def
                  MAX_RTP_BUFFER_CACHE_def mem_read_def Let_def uint_eq_uint uint_not_minus_one)
qed

text \<open>\<open>rtp_info n ds i\<close>: the cache entry of payload \<open>i\<close> of a stream that starts at \<open>n\<close>.\<close>

definition rtp_info :: "u16 \<Rightarrow> bytes list \<Rightarrow> nat \<Rightarrow> BufferInfo" where
  "rtp_info n ds i = \<lparr>mSequenceNumber = n + word_of_nat i, mBuffer = ds ! i\<rparr>"

lemma rtp_info_inj:
  assumes "i < 0x10000" "j < 0x10000" "(n :: u16) + word_of_nat i = n + word_of_nat j"
  shows "i = j"
proof -
  have "(word_of_nat i :: u16) = word_of_nat j" using assms(3) by simp
  then have "unat (word_of_nat i :: u16) = unat (word_of_nat j :: u16)" by simp
  then show ?thesis using assms(1,2) by (simp add: unat_of_nat_small)
qed

lemma seq_after_mod: "0 \<le> n \<Longrightarrow> n < 0x10000 \<Longrightarrow> seq_after n k = (n + int k) mod 0x10000"
proof (induction k arbitrary: n)
  case (Suc k)
  have "seq_after n (Suc k) = ((n + 1) mod 0x10000 + int k) mod 0x10000"
    using Suc.IH [of "(n + 1) mod 0x10000"] by simp
  then show ?case by (simp only: mod_add_left_eq of_nat_Suc add.assoc add.commute [of 1])
qed simp

lemma run_from_nth:
  "run_from n zs \<Longrightarrow> i < length zs \<Longrightarrow> uint (mSequenceNumber (zs ! i)) = seq_after n i"
  by (induction zs arbitrary: n i) (auto simp: nth_Cons split: nat.splits)

text \<open>When the missing packet arrives, the cached successors are handed on in order.\<close>

lemma cached_successors:
  assumes cache: "mset (mBufferCache s) = mset (map (rtp_info n ds) [1..<Suc k])"
    and k: "k \<le> 4" and len: "\<forall>d \<in> set ds. length d \<le> FEIP_BUFFER_SIZE" "length ds = Suc k"
    and nxt: "mNextSequenceNumber s = uint (n + 1)" and h: "mPHandler s"
  shows "\<exists>s'. processCachedBuffers s = Some s' \<and> mBufferCache s' = [] \<and>
              mNextSequenceNumber s' = uint (n + word_of_nat (Suc k)) \<and>
              rtp_sink s' = rtp_sink s @ tl ds"
proof -
  let ?C = "map (rtp_info n ds) [1..<Suc k]"
  have C: "set (mBufferCache s) = rtp_info n ds ` {1..<Suc k}"
    using arg_cong [OF cache, of set_mset] by (simp only: set_mset_mset set_map set_upt)
  have "\<forall>x \<in> set (mBufferCache s). length (mBuffer x) \<le> FEIP_BUFFER_SIZE"
    using len by (auto simp: C rtp_info_def)
  then obtain s' where s': "processCachedBuffers s = Some s'" using processCachedBuffers_total by blast
  have size: "length (mBufferCache s) = k" using arg_cong [OF cache, of size] by simp
  from processCachedBuffers_delivers [OF s'] size k obtain zs where
    zs: "mset (mBufferCache s) = mset zs + mset (mBufferCache s')" "delivers zs s s'"
        "\<forall>x \<in> set (mBufferCache s'). uint (mSequenceNumber x) \<noteq> mNextSequenceNumber s'"
        "run_from (uint (n + 1)) zs" "mNextSequenceNumber s' = seq_after (uint (n + 1)) (length zs)"
    by (auto simp: MAX_RTP_BUFFER_CACHE_def nxt)
  have seq: "seq_after (uint (n + 1)) i = uint (n + word_of_nat (Suc i))" if "i < 0x10000" for i
    using that uint16_plus [of i "n + 1"]
    by (simp add: seq_after_mod uint16_less algebra_simps)
  have lz: "length zs \<le> k" using arg_cong [OF zs(1), of size] size by simp
  have zsC: "set zs \<subseteq> rtp_info n ds ` {1..<Suc k}"
    using arg_cong [OF zs(1), of set_mset] C by auto
  have nth: "zs ! i = rtp_info n ds (Suc i)" if "i < length zs" for i
  proof -
    have "zs ! i \<in> rtp_info n ds ` {1..<Suc k}" using zsC nth_mem [OF that] by (rule subsetD)
    then obtain m where m: "zs ! i = rtp_info n ds m" "m \<in> {1..<Suc k}" by (rule imageE)
    have "uint (n + word_of_nat m) = uint (n + word_of_nat (Suc i))"
      using run_from_nth [OF zs(4) that] seq [of i] that lz k by (simp add: m rtp_info_def)
    then have "n + word_of_nat m = n + word_of_nat (Suc i)" by (simp only: uint_eq_uint)
    then have "m = Suc i" using m(2) k that lz by (intro rtp_info_inj [of m "Suc i" n]) auto
    with m show ?thesis by simp
  qed
  have all: "length zs = k"
  proof (rule ccontr)
    assume "length zs \<noteq> k"
    with lz have lt: "length zs < k" by simp
    let ?y = "rtp_info n ds (Suc (length zs))"
    have "?y \<in> set (mBufferCache s)" using lt by (auto simp: C)
    moreover have "?y \<notin> set zs"
    proof
      assume "?y \<in> set zs"
      then obtain i where "i < length zs" "?y = rtp_info n ds (Suc i)"
        using nth by (metis in_set_conv_nth)
      then show False
        using rtp_info_inj [of "Suc (length zs)" "Suc i" n] k lt by (simp add: rtp_info_def)
    qed
    ultimately have "?y \<in> set (mBufferCache s')"
      using arg_cong [OF zs(1), of set_mset] by auto
    then have "uint (mSequenceNumber ?y) \<noteq> uint (n + word_of_nat (Suc (length zs)))"
      using zs(3,5) seq [of "length zs"] lt k by auto
    then show False by (simp add: rtp_info_def)
  qed
  have "mBufferCache s' = []" using arg_cong [OF zs(1), of size] size all by simp
  moreover have "map mBuffer zs = tl ds"
    using all nth len by (intro nth_equalityI) (auto simp: rtp_info_def nth_tl)
  ultimately show ?thesis
    using s' zs(2,5) h seq [of k] k all by (auto simp: delivers_def)
qed

lemma reordered_cached:
  assumes "mNextSequenceNumber s = uint n" "length (mBufferCache s) + length js \<le> 4"
    and "\<forall>x \<in> set (mBufferCache s). mSequenceNumber x \<noteq> n" "\<forall>j \<in> set js. 0 < j \<and> j \<le> 10"
    and "list_all2 (\<lambda>j e. rtp_arrival (n + word_of_nat j) (ds ! j) e) js evs"
  shows "\<exists>c. run_opt (rtp_step False) (Inr s) evs = Some (Inr (s\<lparr>mBufferCache := c\<rparr>)) \<and>
             mset c = mset (mBufferCache s) + mset (map (rtp_info n ds) js)"
  using assms
proof (induction js arbitrary: s evs)
  case Nil
  then show ?case by (intro exI [of _ "mBufferCache s"]) simp
next
  case (Cons j js)
  from Cons.prems(5) obtain e es where evs: "evs = e # es"
    and e: "rtp_arrival (n + word_of_nat j) (ds ! j) e"
    and es: "list_all2 (\<lambda>j e. rtp_arrival (n + word_of_nat j) (ds ! j) e) js es"
    by (auto simp: list_all2_Cons1)
  let ?c = "cache_insert (rtp_info n ds j) (mBufferCache s)"
  have j: "0 < j" "j \<le> 10" using Cons.prems(4) by simp_all
  have step: "rtp_step False (Inr s) e = Some (Inr (s\<lparr>mBufferCache := ?c\<rparr>))"
    using Cons.prems(1-3) j rtp_sequence_caches [of s n j "ds ! j"]
    by (simp add: rtp_step_arrival(1) [OF e] rtp_info_def)
  have "\<forall>x \<in> set ?c. mSequenceNumber x \<noteq> n"
    using Cons.prems(3) j rtp_info_inj [of j 0 n] by (auto simp: set_cache_insert rtp_info_def)
  then obtain c where "run_opt (rtp_step False) (Inr (s\<lparr>mBufferCache := ?c\<rparr>)) es =
        Some (Inr (s\<lparr>mBufferCache := ?c\<rparr>\<lparr>mBufferCache := c\<rparr>))"
      "mset c = mset ?c + mset (map (rtp_info n ds) js)"
    using Cons.IH [of "s\<lparr>mBufferCache := ?c\<rparr>" es] Cons.prems(1,2,4) es by auto
  then show ?case
    by (intro exI [of _ c]) (simp add: evs step mset_cache_insert)
qed

lemma rtp_sequence_expected:
  assumes "mNextSequenceNumber s = uint n" "mPHandler s" "length d \<le> FEIP_BUFFER_SIZE"
  shows "rtp_sequence n d 0 (length d) s =
    (let s1 = s\<lparr>rtp_sink := rtp_sink s @ [d], mNextSequenceNumber := uint (n + 1)\<rparr>
     in if mBufferCache s = [] then Some (Inr s1) else map_option Inr (processCachedBuffers s1))"
  using assms uint16_plus [of 1 n]
  by (simp add: rtp_sequence_def RtpStreamListener_pushBuffertoBQ_def mem_read_def Let_def)


lemma rtp_arrival_plain:
  "length d \<le> 1000 \<Longrightarrow>
     rtp_arrival q d (Ev_recv (rtp_packet 0 [] None 0 q d) (int (12 + length d)))"
  unfolding rtp_arrival_def
  by (rule exI [of _ 0], rule exI [of _ "[]"], rule exI [of _ None], rule exI [of _ 0], rule exI [of _ "[]"])
     (simp add: rtp_packet_ok_def rtp_packet_def rtp_head_def rtp_ext_def FEIP_BUFFER_SIZE_def)


section \<open>Memory safety\<close>

definition listener_safe :: "RtpStreamListener \<Rightarrow> bool" where
  "listener_safe s \<longleftrightarrow>
     cache_bounded s \<and> (\<forall>x \<in> set (mBufferCache s). length (mBuffer x) \<le> FEIP_BUFFER_SIZE)"

lemma push_total:
  assumes "mem_read buf off n \<noteq> None" "n \<le> FEIP_BUFFER_SIZE"
  shows "\<exists>s'. RtpStreamListener_pushBuffertoBQ buf off n q s = Some s'"
  using assms by (auto simp: RtpStreamListener_pushBuffertoBQ_def)

lemma push_all_total:
  "\<forall>x \<in> set xs. length (mBuffer x) \<le> FEIP_BUFFER_SIZE \<Longrightarrow> \<exists>s'. push_all xs s = Some s'"
proof (induction xs arbitrary: s)
  case (Cons x xs)
  obtain s1 where "push_cached x s = Some s1" using Cons.prems push_cached_total [of x s] by auto
  with Cons show ?case by simp
qed simp

lemma processCachedBuffers_safe:
  assumes "\<forall>x \<in> set (mBufferCache s). length (mBuffer x) \<le> FEIP_BUFFER_SIZE"
  shows "\<exists>s'. processCachedBuffers s = Some s' \<and> set (mBufferCache s') \<subseteq> set (mBufferCache s)"
proof -
  obtain s' where s': "processCachedBuffers s = Some s'" using processCachedBuffers_total [OF assms] by blast
  from processCachedBuffers_delivers [OF s'] obtain zs where
    "mset (mBufferCache s) = mset zs + mset (mBufferCache s')" by blast
  from arg_cong [OF this, of set_mset] show ?thesis using s' by auto
qed

lemma rtp_sequence_safe:
  assumes safe: "listener_safe s" and rd: "mem_read buf off n = Some d" and n: "n \<le> FEIP_BUFFER_SIZE"
  shows "\<exists>s'. rtp_sequence q buf off n s = Some (Inr s') \<and> listener_safe s'"
proof -
  have small: "\<forall>x \<in> set (mBufferCache s). length (mBuffer x) \<le> FEIP_BUFFER_SIZE"
    and room: "length (mBufferCache s) < MAX_RTP_BUFFER_CACHE"
    using safe by (auto simp: listener_safe_def cache_bounded_def)
  have d: "length d \<le> FEIP_BUFFER_SIZE" using mem_read_length [OF rd] n by simp
  have push: "\<exists>t'. RtpStreamListener_pushBuffertoBQ buf off n (uint q) t = Some t'" for t
    using push_total rd n by blast
  let ?c = "cache_insert \<lparr>mSequenceNumber = q, mBuffer = d\<rparr> (mBufferCache s)"
  obtain t1 where t1: "RtpStreamListener_pushBuffertoBQ buf off n (uint q) s = Some t1"
    using push by blast
  obtain t2 where t2: "push_all (mBufferCache s) s = Some t2" using push_all_total [OF small] by blast
  obtain t3 where t3: "RtpStreamListener_pushBuffertoBQ buf off n (uint q) t2 = Some t3"
    using push by blast
  obtain t4 where t4: "processCachedBuffers t1 = Some t4" "set (mBufferCache t4) \<subseteq> set (mBufferCache t1)"
    using processCachedBuffers_safe [of t1] push_keeps_cache [OF t1] small by auto
  obtain t5 where t5: "processCachedBuffers (s\<lparr>mBufferCache := ?c\<rparr>) = Some t5"
      "set (mBufferCache t5) \<subseteq> set ?c"
    using processCachedBuffers_safe [of "s\<lparr>mBufferCache := ?c\<rparr>"] small d by (auto simp: set_cache_insert)
  have ex: "\<exists>s'. rtp_sequence q buf off n s = Some (Inr s') \<and> set (mBufferCache s') \<subseteq> set ?c"
    using t1 t2 t3 t4 t5 rd room push_keeps_cache [OF t1] push_all_cache [OF t2] push_keeps_cache [OF t3]
    by (auto simp: rtp_sequence_def Let_def set_cache_insert)
  then obtain s' where s': "rtp_sequence q buf off n s = Some (Inr s')" "set (mBufferCache s') \<subseteq> set ?c"
    by blast
  have "\<forall>x \<in> set (mBufferCache s'). length (mBuffer x) \<le> FEIP_BUFFER_SIZE"
    using s'(2) small d by (auto simp: set_cache_insert)
  moreover have "cache_bounded s'"
    using rtp_sequence_bounded [OF _ s'(1)] safe by (auto simp: listener_safe_def)
  ultimately show ?thesis using s'(1) by (auto simp: listener_safe_def)
qed

lemma rtp_header_safe:
  assumes buf: "FEIP_BUFFER_SIZE \<le> length buf" and len: "1 \<le> unat len" "unat len \<le> FEIP_BUFFER_SIZE"
  shows "\<exists>h. rtp_header False buf len = Some h \<and>
             (\<forall>q off p. h = Some (q, off, p) \<longrightarrow> unat off < 2 ^ 20 \<and> unat p < 256)"
proof -
  have in_buf: "i < length buf" if "i < 1000" for i
    using buf that by (simp add: FEIP_BUFFER_SIZE_def)
  obtain b0 b2 b3 where b: "rd buf 0 = Some b0" "rd buf 2 = Some b2" "rd buf 3 = Some b3"
    using in_buf [of 0] in_buf [of 2] in_buf [of 3] by (simp add: rd_def)
  define cs where "cs = unat (char_int False b0 AND 0x0F)"
  have cs: "cs < 16" unfolding cs_def by (rule unat_and_15)
  define off where "off = (12 + ucast (char_int False b0 AND 0x0F) * 4 :: u64)"
  have off: "off = word_of_nat (12 + 4 * cs)"
    unfolding off_def cs_def word_of_nat_unat [of "char_int False b0 AND 0x0F"] by simp
  have uoff: "unat (off + word_of_nat k) = 12 + 4 * cs + k" if "k < 2 ^ 19" for k
    using cs that unat_of_nat_small [of "12 + 4 * cs + k", where 'a = 64] by (simp add: off)
  have "unat (len - 1) < length buf"
    using len buf unat_sub [of 1 len] by (simp add: word_le_nat_alt)
  then obtain pb where pb: "rd buf (unat (len - 1)) = Some pb" by simp
  define pl where "pl = (if char_int False b0 AND 0x20 \<noteq> 0
                         then map_option (char_size False) (rd buf (unat (len - 1))) else Some 0)"
  have "unat (ucast pb :: u64) < 256"
    using unat_less_exp [of pb] le_less_trans [OF take_bit_nat_less_eq_self]
    by (simp add: unsigned_ucast_eq)
  then have "\<exists>p. pl = Some p \<and> unat p < 256" by (simp add: pl_def pb char_size_def)
  then obtain p where p: "pl = Some p" "unat p < 256" by blast
  obtain e2 e3 where e: "rd buf (unat (off + 2)) = Some e2" "rd buf (unat (off + 3)) = Some e3"
    using in_buf [of "12 + 4 * cs + 2"] in_buf [of "12 + 4 * cs + 3"] cs uoff [of 2] uoff [of 3] by simp
  obtain w :: u16 where w: "e2 = ucast (drop_bit 8 w)" "e3 = ucast w" using be16_split by blast
  have "off + (4 * ucast w + 4) = off + word_of_nat (4 * unat w + 4)" by simp
  moreover have "unat w < 2 ^ 16" using unat_less_exp [of w] by simp
  ultimately have o2: "unat (off + (4 * ucast w + 4)) < 2 ^ 20"
    using uoff [of "4 * unat w + 4"] cs by simp
  have o1: "unat off < 2 ^ 20" using uoff [of 0] cs by simp
  show ?thesis
    unfolding rtp_header_def Let_def
    using o1 o2 by (simp add: b e w char_be16_sum p flip: off_def pl_def)
qed

definition rtp_event_ok :: "rtp_event \<Rightarrow> bool" where
  "rtp_event_ok e = (case e of
     Ev_recv buf n \<Rightarrow> length buf = FEIP_BUFFER_SIZE \<and> 1 \<le> n \<and> n \<le> int FEIP_BUFFER_SIZE
   | Ev_setup _ _ \<Rightarrow> True)"

lemma rtp_step_safe:
  assumes safe: "listener_safe s" and ok: "rtp_event_ok e"
  shows "\<exists>s'. rtp_step False (Inr s) e = Some (Inr s') \<and> listener_safe s'"
proof (cases e)
  case (Ev_recv buf n)
  define len :: u64 where "len = word_of_int n"
  have n: "1 \<le> n" "n \<le> int FEIP_BUFFER_SIZE" and buf: "length buf = FEIP_BUFFER_SIZE"
    using ok Ev_recv by (simp_all add: rtp_event_ok_def)
  obtain m where m: "n = int m" using n zero_le_imp_eq_int [of n] by auto
  have ulen: "unat len = m"
    using n m unat_of_nat_small [of m, where 'a = 64] by (simp add: len_def FEIP_BUFFER_SIZE_def)
  have l: "1 \<le> unat len" "unat len \<le> FEIP_BUFFER_SIZE" using ulen n m by simp_all
  from rtp_header_safe [of buf len] l buf obtain h where h: "rtp_header False buf len = Some h"
    and b: "\<forall>q off p. h = Some (q, off, p) \<longrightarrow> unat off < 2 ^ 20 \<and> unat p < 256" by auto
  show ?thesis
  proof (cases h)
    case None
    then show ?thesis using h safe by (simp add: Ev_recv readLoop_turn_def processRtpPacket_def flip: len_def)
  next
    case (Some t)
    obtain q off p where t: "h = Some (q, off, p)" using Some by (cases t) auto
    have ub: "unat off < 2 ^ 20" "unat p < 256" using b t by blast+
    have sum: "unat (off + p) = unat off + unat p"
      using ub by (simp add: unat_word_ariths)
    show ?thesis
    proof (cases "off + p > len")
      case True
      then show ?thesis using h safe
        by (simp add: Ev_recv readLoop_turn_def processRtpPacket_def t flip: len_def)
    next
      case False
      then have le: "unat off + unat p \<le> unat len" using sum by (simp add: word_less_nat_alt)
      have "unat (len - (off + p)) = unat len - unat (off + p)" using False by (intro unat_sub) simp
      then have pay: "unat (len - off - p) = unat len - (unat off + unat p)"
        by (simp only: diff_diff_eq sum)
      have "mem_read buf (unat off) (unat (len - off - p)) \<noteq> None"
        using le l buf pay by (simp add: mem_read_def)
      then obtain d where "mem_read buf (unat off) (unat (len - off - p)) = Some d" by blast
      from rtp_sequence_safe [OF safe this] False h l pay show ?thesis
        by (simp add: Ev_recv readLoop_turn_def processRtpPacket_def t flip: len_def)
    qed
  qed
next
  case (Ev_setup os port)
  then show ?thesis using safe by (simp add: listener_safe_def cache_bounded_def)
qed

lemma rtp_run_safe:
  "listener_safe s \<Longrightarrow> \<forall>e \<in> set es. rtp_event_ok e \<Longrightarrow>
     \<exists>s'. run_opt (rtp_step False) (Inr s) es = Some (Inr s') \<and> listener_safe s'"
proof (induction es arbitrary: s)
  case (Cons e es)
  then obtain s1 where "rtp_step False (Inr s) e = Some (Inr s1)" "listener_safe s1"
    using rtp_step_safe [of s e] by auto
  with Cons show ?case by simp
qed simp



lemma push_all_handler: "push_all xs s = Some s' \<Longrightarrow> mPHandler s' = mPHandler s"
proof (induction xs arbitrary: s)
  case (Cons x xs)
  then show ?case
    by (auto simp: bind_eq_Some_conv dest!: push_cached_delivers simp: delivers_def)
qed auto

lemma push_unreadable:
  "mPHandler s \<Longrightarrow> mem_read buf off n = None \<Longrightarrow>
     RtpStreamListener_pushBuffertoBQ buf off n q s = None"
  by (simp add: RtpStreamListener_pushBuffertoBQ_def)

lemma rtp_sequence_unreadable:
  assumes "mPHandler s" "cache_bounded s" "mem_read buf off n = None"
  shows "rtp_sequence q buf off n s = None"
  using assms push_all_handler [of "mBufferCache s" s]
  by (cases "push_all (mBufferCache s) s")
     (auto simp: rtp_sequence_def Let_def push_unreadable cache_bounded_def)

text \<open>
  C38: a failed \<open>recvfrom\<close> is not safe: \<open>readLoop\<close> hands its result \<open>-1\<close> on as the
  packet length, and once \<open>setup\<close> has been called the copy of the computed payload leaves the
  receive buffer, unless the bytes left there by an earlier datagram have the extension bit set.
\<close>

theorem rtp_recv_error_out_of_bounds:
  assumes "mPHandler s" "cache_bounded s" "length buf = FEIP_BUFFER_SIZE"
    and "char_int sc (buf ! 0) AND 0x10 = 0"
  shows "rtp_step sc (Inr s) (Ev_recv buf (-1)) = None"
proof -
  have big: "mem_read buf i (unat (- 1 - off :: u64)) = None" if "unat off < 2 ^ 20" for i off
  proof -
    have "unat (- 1 - off) = 2 ^ 64 - 1 - unat off"
      using unat_sub [of off "- 1"] by (simp add: unsigned_minus_1_eq_mask mask_eq_exp_minus_1)
    then show ?thesis using assms(3) that by (simp add: mem_read_def FEIP_BUFFER_SIZE_def)
  qed
  have far: "rd buf (unat (- 1 - 1 :: u64)) = None"
    using assms(3) by (simp add: rd_def FEIP_BUFFER_SIZE_def)
  obtain b0 b2 b3 where b: "rd buf 0 = Some b0" "rd buf 2 = Some b2" "rd buf 3 = Some b3"
    using assms(3) by (simp add: rd_def FEIP_BUFFER_SIZE_def)
  have b0: "char_int sc b0 AND 0x10 = 0" using assms(4) b(1) by (simp add: rd_eq_Some)
  define off where "off = (12 + ucast (char_int sc b0 AND 0x0F) * 4 :: u64)"
  have "off = word_of_nat (12 + unat (char_int sc b0 AND 0x0F) * 4)"
    unfolding off_def word_of_nat_unat [of "char_int sc b0 AND 0x0F"] by simp
  then have off: "unat off < 2 ^ 20"
    using unat_and_15 [of "char_int sc b0"]
      unat_of_nat_small [of "12 + unat (char_int sc b0 AND 0x0F) * 4", where 'a = 64] by simp
  show ?thesis
  proof (cases "char_int sc b0 AND 0x20 = 0")
    case True
    have "rtp_header sc buf (- 1) =
            Some (Some (ucast (push_bit 8 (char_int sc b2) OR char_int sc b3), off, 0))"
      unfolding rtp_header_def Let_def by (simp add: b b0 True flip: off_def)
    then show ?thesis
      using rtp_sequence_unreadable [OF assms(1,2) big [OF off]]
      by (simp add: readLoop_turn_def processRtpPacket_def)
  next
    case False
    have "rtp_header sc buf (- 1) = None"
      unfolding rtp_header_def Let_def using far by (simp add: b False)
    then show ?thesis by (simp add: readLoop_turn_def processRtpPacket_def)
  qed
qed

theorem rtp_recv_error_out_of_bounds_witness:
  "rtp_step True (Inr (RtpStreamListener_init\<lparr>mPHandler := True\<rparr>))
     (Ev_recv (replicate FEIP_BUFFER_SIZE 0) (-1)) = None"
  by (rule rtp_recv_error_out_of_bounds)
     (simp_all add: RtpStreamListener_init_def cache_bounded_def MAX_RTP_BUFFER_CACHE_def
                    FEIP_BUFFER_SIZE_def char_int_def)

section \<open>Sequence numbers and sockets\<close>


definition one_socket :: "RtpStreamListener \<Rightarrow> bool" where
  "one_socket s \<longleftrightarrow> rtp_open_fds s = (if mFd s = 0 then [] else [mFd s])"

text \<open>
  \<open>setup\<close> never leaks a socket and never loses the working one: if the class holds exactly
  its current socket and \<open>socket\<close> returns a fresh nonzero descriptor or fails, the class again
  holds exactly its current socket; the result is 0 exactly when all four calls succeed, the new socket
  is then current, and otherwise the old one stays.
\<close>

theorem setup_no_leak:
  assumes "one_socket s" "sc_socket os \<noteq> 0" "sc_socket os \<notin> set (rtp_open_fds s)"
  shows "one_socket (snd (RtpStreamListener_setup os port s)) \<and>
         (fst (RtpStreamListener_setup os port s) = 0 \<longleftrightarrow>
            0 \<le> sc_socket os \<and> 0 \<le> sc_reuse os \<and> 0 \<le> sc_bind os \<and> 0 \<le> sc_join os) \<and>
         mFd (snd (RtpStreamListener_setup os port s)) =
           (if fst (RtpStreamListener_setup os port s) = 0 then sc_socket os else mFd s)"
  using assms by (auto simp: RtpStreamListener_setup_def Let_def one_socket_def)

theorem setup_no_leak_witness:
  "one_socket (snd (RtpStreamListener_setup
     \<lparr>sc_socket = 5, sc_reuse = 0, sc_bind = 0, sc_join = 0\<rparr> 1234
     (RtpStreamListener_init\<lparr>mFd := 4, rtp_open_fds := [4]\<rparr>)))"
  using setup_no_leak [of "RtpStreamListener_init\<lparr>mFd := 4, rtp_open_fds := [4]\<rparr>"
          "\<lparr>sc_socket = 5, sc_reuse = 0, sc_bind = 0, sc_join = 0\<rparr>" 1234]
  by (simp add: one_socket_def)

end
