(* ===== verification/Externals.thy ===== *)
theory Externals
  imports Prelude
begin

text \<open>
  Interfaces of libraries that the sources only call. Each is a record of operations that the
  definitions take as an argument, with the documented behaviour the code relies on as a predicate:
  \<open>boost::circular_buffer\<close> (contents as a list, front first) and \<open>boost::lockfree::queue\<close>.
  The instances at the end show that the documented behaviour can hold.
\<close>

record 'a circ_ops =
  circ_push_back :: "nat \<Rightarrow> 'a list \<Rightarrow> 'a \<Rightarrow> 'a list"
  circ_pop_front :: "'a list \<Rightarrow> 'a list"

text \<open>
  The documentation of \<open>boost::circular_buffer\<close>: \<open>push_back\<close> appends while the buffer is not
  full, and removes the first element when it is full; \<open>pop_front\<close> needs a nonempty buffer.
\<close>

definition circ_ok :: "'a circ_ops \<Rightarrow> bool" where
  "circ_ok C \<longleftrightarrow>
     (\<forall>cap xs x. length xs < cap \<longrightarrow> circ_push_back C cap xs x = xs @ [x]) \<and>
     (\<forall>y xs x. circ_push_back C (Suc (length xs)) (y # xs) x = xs @ [x]) \<and>
     (\<forall>x xs. circ_pop_front C (x # xs) = xs)"

lemma circ_push_room [simp]:
  "circ_ok C \<Longrightarrow> length xs < cap \<Longrightarrow> circ_push_back C cap xs x = xs @ [x]"
  unfolding circ_ok_def by blast

lemma circ_push_full:
  "circ_ok C \<Longrightarrow> circ_push_back C (Suc (length xs)) (y # xs) x = xs @ [x]"
  unfolding circ_ok_def by blast

lemma circ_pop_Cons [simp]: "circ_ok C \<Longrightarrow> circ_pop_front C (x # xs) = xs"
  unfolding circ_ok_def by blast

record 'a lfq_ops =
  lfq_push :: "'a list \<Rightarrow> 'a \<Rightarrow> 'a list"
  lfq_pop :: "'a list \<Rightarrow> ('a \<times> 'a list) option"

text \<open>The documentation of \<open>boost::lockfree::queue\<close>: a first-in first-out queue.\<close>

definition lfq_ok :: "'a lfq_ops \<Rightarrow> bool" where
  "lfq_ok Q \<longleftrightarrow>
     (\<forall>xs x. lfq_push Q xs x = xs @ [x]) \<and> lfq_pop Q [] = None \<and>
     (\<forall>x xs. lfq_pop Q (x # xs) = Some (x, xs))"

lemma lfq_push_eq [simp]: "lfq_ok Q \<Longrightarrow> lfq_push Q xs x = xs @ [x]"
  and lfq_pop_Nil [simp]: "lfq_ok Q \<Longrightarrow> lfq_pop Q [] = None"
  and lfq_pop_Cons [simp]: "lfq_ok Q \<Longrightarrow> lfq_pop Q (x # xs) = Some (x, xs)"
  by (simp_all add: lfq_ok_def)

section \<open>Instances\<close>

definition circ_list :: "'a circ_ops" where
  "circ_list = \<lparr>circ_push_back = (\<lambda>cap xs x. if length xs < cap then xs @ [x] else tl xs @ [x]),
                circ_pop_front = tl\<rparr>"

definition lfq_list :: "'a lfq_ops" where
  "lfq_list = \<lparr>lfq_push = (\<lambda>xs x. xs @ [x]),
               lfq_pop = (\<lambda>xs. case xs of [] \<Rightarrow> None | x # ys \<Rightarrow> Some (x, ys))\<rparr>"

lemma circ_list_ok [simp]: "circ_ok circ_list"
  by (simp add: circ_ok_def circ_list_def)

lemma lfq_list_ok [simp]: "lfq_ok lfq_list"
  by (simp add: lfq_ok_def lfq_list_def)

end
