(* ===== verification/Ts_Stream.thy ===== *)
theory Ts_Stream
  imports Externals
begin

text \<open>
  The class \<open>PSIParser::TSStream\<close> (PSIParser.h, PSIParser.cpp): a window of two chunks from which
  transport-stream packets are cut. The sizes \<open>TS_PACKAGE_SIZE\<close> and \<open>BUFFER_CHUNK_SIZE\<close>
  come from the streamfs headers and are fields of the environment \<open>ts_env\<close>. The abstraction
  \<open>ts_pending\<close> is the byte sequence not yet handed out; the operations are shown to be
  \<open>append a chunk\<close> and \<open>cut the first packet\<close> on it.
\<close>

record ts_env =
  TS_PACKAGE_SIZE :: nat
  BUFFER_CHUNK_SIZE :: nat
  chunk_ring :: "bytes circ_ops"

datatype TSDataError = TS_OK | NOT_ENOUGH_DATA | DATA_CC_ERROR

record TSStream =
  mCircBuf :: "bytes list"
  mPointer :: int

definition TSStream_init :: TSStream where
  "TSStream_init = \<lparr>mCircBuf = [], mPointer = 0\<rparr>"

definition needsNewChunk :: "TSStream \<Rightarrow> bool" where
  "needsNewChunk s \<longleftrightarrow> length (mCircBuf s) < 2"

definition insertChunk :: "'e ts_env_scheme \<Rightarrow> bytes \<Rightarrow> TSStream \<Rightarrow> bool \<times> TSStream" where
  "insertChunk E chunk s =
     (if length (mCircBuf s) = 2 then (False, s)
      else (True, s\<lparr>mCircBuf := circ_push_back (chunk_ring E) 2 (mCircBuf s) chunk\<rparr>))"

text \<open>
  \<open>getNextPacket\<close> writes into the packet it is given; \<open>None\<close> is a copy outside one of the
  arrays or an access to a missing chunk.
\<close>

definition getNextPacket ::
    "'e ts_env_scheme \<Rightarrow> bytes \<Rightarrow> TSStream \<Rightarrow> (TSDataError \<times> bytes \<times> TSStream) option" where
  "getNextPacket E packet s =
     (let cs = int (BUFFER_CHUNK_SIZE E); ts = int (TS_PACKAGE_SIZE E); p = mPointer s;
          check = (\<lambda>packet s. map_option
            (\<lambda>b. if b \<noteq> 0x47 then (DATA_CC_ERROR, packet, s) else (TS_OK, packet, s)) (rd packet 0))
      in if length (mCircBuf s) = 0 \<or> length (mCircBuf s) = 1 \<and> cs - p < ts
         then Some (NOT_ENOUGH_DATA, packet, s)
         else if cs - p \<ge> ts then do {
           c0 \<leftarrow> rd (mCircBuf s) 0;
           d \<leftarrow> mem_read c0 (nat p) (nat ts);
           packet \<leftarrow> mem_write packet 0 d;
           let s1 = s\<lparr>mPointer := p + ts\<rparr>;
           let s2 = (if mPointer s1 = cs
                     then s1\<lparr>mCircBuf := circ_pop_front (chunk_ring E) (mCircBuf s1), mPointer := 0\<rparr>
                     else s1);
           check packet s2
         } else do {
           let firstSeq = cs - p;
           let secondSeq = ts - firstSeq;
           c0 \<leftarrow> rd (mCircBuf s) 0;
           d0 \<leftarrow> mem_read c0 (nat p) (nat firstSeq);
           packet \<leftarrow> mem_write packet 0 d0;
           c1 \<leftarrow> rd (mCircBuf s) 1;
           d1 \<leftarrow> mem_read c1 0 (nat secondSeq);
           packet \<leftarrow> mem_write packet (nat firstSeq) d1;
           check packet
             (s\<lparr>mPointer := secondSeq, mCircBuf := circ_pop_front (chunk_ring E) (mCircBuf s)\<rparr>)
         })"

section \<open>The stream as a byte sequence\<close>

definition ts_env_ok :: "'e ts_env_scheme \<Rightarrow> bool" where
  "ts_env_ok E \<longleftrightarrow> 0 < TS_PACKAGE_SIZE E \<and> TS_PACKAGE_SIZE E \<le> BUFFER_CHUNK_SIZE E \<and> circ_ok (chunk_ring E)"

definition ts_ok :: "'e ts_env_scheme \<Rightarrow> TSStream \<Rightarrow> bool" where
  "ts_ok E s \<longleftrightarrow>
     length (mCircBuf s) \<le> 2 \<and> (\<forall>c \<in> set (mCircBuf s). length c = BUFFER_CHUNK_SIZE E) \<and>
     0 \<le> mPointer s \<and> mPointer s < int (BUFFER_CHUNK_SIZE E) \<and> (mCircBuf s = [] \<longrightarrow> mPointer s = 0)"

definition ts_pending :: "TSStream \<Rightarrow> bytes" where
  "ts_pending s = drop (nat (mPointer s)) (concat (mCircBuf s))"

text \<open>The status of a packet: its sync byte is 0x47.\<close>

definition packet_status :: "bytes \<Rightarrow> TSDataError" where
  "packet_status d = (if d ! 0 = 0x47 then TS_OK else DATA_CC_ERROR)"

lemma ts_init_ok: "ts_env_ok E \<Longrightarrow> ts_ok E TSStream_init \<and> ts_pending TSStream_init = []"
  by (simp add: ts_env_ok_def ts_ok_def TSStream_init_def ts_pending_def)

lemma insertChunk_pending:
  assumes "ts_env_ok E" "ts_ok E s" "needsNewChunk s" "length c = BUFFER_CHUNK_SIZE E"
  shows "\<exists>s'. insertChunk E c s = (True, s') \<and> ts_ok E s' \<and> ts_pending s' = ts_pending s @ c"
proof -
  have C: "circ_ok (chunk_ring E)" using assms(1) by (simp add: ts_env_ok_def)
  have lt: "length (mCircBuf s) < 2" using assms(3) by (simp add: needsNewChunk_def)
  let ?s' = "s\<lparr>mCircBuf := mCircBuf s @ [c]\<rparr>"
  have ins: "insertChunk E c s = (True, ?s')" using C lt by (simp add: insertChunk_def)
  consider "mCircBuf s = []" | c0 where "mCircBuf s = [c0]"
    using lt by (cases "mCircBuf s"; cases "tl (mCircBuf s)") auto
  then show ?thesis
    by cases (use assms ins in \<open>auto simp: ts_ok_def ts_pending_def\<close>)
qed

lemma ts_ok_cases:
  assumes "ts_ok E s"
  obtains n where "s = \<lparr>mCircBuf = [], mPointer = int n\<rparr>" "n = 0"
  | n c0 where "s = \<lparr>mCircBuf = [c0], mPointer = int n\<rparr>" "length c0 = BUFFER_CHUNK_SIZE E"
      "n < BUFFER_CHUNK_SIZE E"
  | n c0 c1 where "s = \<lparr>mCircBuf = [c0, c1], mPointer = int n\<rparr>" "length c0 = BUFFER_CHUNK_SIZE E"
      "length c1 = BUFFER_CHUNK_SIZE E" "n < BUFFER_CHUNK_SIZE E"
proof -
  obtain cs p where s: "s = \<lparr>mCircBuf = cs, mPointer = p\<rparr>" by (cases s)
  obtain n where p: "p = int n" using assms s zero_le_imp_eq_int [of p] by (auto simp: ts_ok_def)
  show thesis
  proof (cases cs)
    case Nil
    then show thesis using assms s p that(1) by (simp add: ts_ok_def)
  next
    case (Cons c0 cs')
    show thesis
    proof (cases cs')
      case Nil
      then show thesis using assms s p Cons that(2) by (simp add: ts_ok_def)
    next
      case (Cons c1 cs'')
      then show thesis using assms s p \<open>cs = c0 # cs'\<close> that(3) by (simp add: ts_ok_def)
    qed
  qed
qed

lemma getNextPacket_starved:
  assumes E: "ts_env_ok E" and s: "ts_ok E s" and few: "length (ts_pending s) < TS_PACKAGE_SIZE E"
  shows "getNextPacket E pkt s = Some (NOT_ENOUGH_DATA, pkt, s)"
  using s
proof (cases rule: ts_ok_cases)
  case (2 n c0)
  then have "int (BUFFER_CHUNK_SIZE E) - int n < int (TS_PACKAGE_SIZE E)"
    using few by (simp add: ts_pending_def)
  then show ?thesis using 2 by (simp add: getNextPacket_def Let_def)
qed (use E few in \<open>auto simp: getNextPacket_def Let_def ts_env_ok_def ts_pending_def\<close>)

lemma getNextPacket_cut:
  assumes E: "ts_env_ok E" and s: "ts_ok E s" and enough: "TS_PACKAGE_SIZE E \<le> length (ts_pending s)"
  defines "d \<equiv> take (TS_PACKAGE_SIZE E) (ts_pending s)"
  shows "\<exists>s'. (\<forall>pkt. length pkt = TS_PACKAGE_SIZE E \<longrightarrow>
                  getNextPacket E pkt s = Some (packet_status d, d, s')) \<and> ts_ok E s' \<and>
              ts_pending s' = drop (TS_PACKAGE_SIZE E) (ts_pending s)"
proof -
  define ts where "ts = TS_PACKAGE_SIZE E"
  define cs where "cs = BUFFER_CHUNK_SIZE E"
  have ts: "0 < ts" "ts \<le> cs" "circ_ok (chunk_ring E)" using E by (simp_all add: ts_env_ok_def ts_def cs_def)
  have one: "\<exists>s'. (\<forall>pkt. length pkt = ts \<longrightarrow> getNextPacket E pkt s = Some (packet_status d, d, s')) \<and>
              ts_ok E s' \<and> ts_pending s' = drop ts (ts_pending s)"
    if S: "s = \<lparr>mCircBuf = c0 # rest, mPointer = int n\<rparr>" "length c0 = cs" "n + ts \<le> cs"
       "rest = [] \<or> (\<exists>c1. rest = [c1] \<and> length c1 = cs)" for c0 rest n
  proof -
    have d: "d = take ts (drop n c0)" using S by (auto simp: d_def ts_pending_def ts_def)
    have rdd: "mem_read c0 n ts = Some d" using S ts by (auto simp: mem_read_def d)
    have wr: "mem_write pkt 0 d = Some d" if "length pkt = ts" for pkt
      using S that by (auto simp: mem_write_def d)
    have len: "length d = ts" using S d by simp
    show ?thesis
    proof (cases "n + ts = cs")
      case True
      then have eq: "getNextPacket E pkt s = Some (packet_status d, d, \<lparr>mCircBuf = rest, mPointer = 0\<rparr>)"
        if "length pkt = ts" for pkt
        using S rdd wr [OF that] ts len that
        by (simp add: getNextPacket_def Let_def packet_status_def flip: ts_def cs_def)
      have "ts_ok E \<lparr>mCircBuf = rest, mPointer = 0\<rparr> \<and>
            ts_pending \<lparr>mCircBuf = rest, mPointer = 0\<rparr> = drop ts (ts_pending s)"
        using S True ts by (auto simp: ts_ok_def ts_pending_def simp flip: cs_def)
      then show ?thesis using eq by blast
    next
      case False
      then have eq: "getNextPacket E pkt s =
          Some (packet_status d, d, \<lparr>mCircBuf = c0 # rest, mPointer = int (n + ts)\<rparr>)"
        if "length pkt = ts" for pkt
        using S rdd wr [OF that] ts len that
        by (simp add: getNextPacket_def Let_def packet_status_def flip: ts_def cs_def)
      have "ts_ok E \<lparr>mCircBuf = c0 # rest, mPointer = int (n + ts)\<rparr> \<and>
            ts_pending \<lparr>mCircBuf = c0 # rest, mPointer = int (n + ts)\<rparr> = drop ts (ts_pending s)"
        using S False ts
        by (auto simp: ts_ok_def ts_pending_def add.commute nat_int_add simp flip: cs_def)
      then show ?thesis using eq by blast
    qed
  qed
  have two: "\<exists>s'. (\<forall>pkt. length pkt = ts \<longrightarrow> getNextPacket E pkt s = Some (packet_status d, d, s')) \<and>
              ts_ok E s' \<and> ts_pending s' = drop ts (ts_pending s)"
    if S: "s = \<lparr>mCircBuf = [c0, c1], mPointer = int n\<rparr>" "length c0 = cs" "length c1 = cs" "cs < n + ts"
       "n < cs" for c0 c1 n
  proof -
    define f k where "f = cs - n" and "k = ts - f"
    then have f: "cs = n + f" "ts = f + k" "0 < f" "0 < k" using S by simp_all
    have d: "d = drop n c0 @ take k c1" using S f by (simp add: d_def ts_pending_def flip: ts_def)
    let ?s' = "\<lparr>mCircBuf = [c1], mPointer = int k\<rparr>"
    have "getNextPacket E pkt s = Some (packet_status d, d, ?s')" if "length pkt = ts" for pkt
      using S ts that f
      by (simp add: getNextPacket_def Let_def mem_read_def mem_write_def d packet_status_def flip: ts_def cs_def)
    moreover have "ts_ok E ?s' \<and> ts_pending ?s' = drop ts (ts_pending s)"
      using S ts f by (auto simp: ts_ok_def ts_pending_def simp flip: cs_def)
    ultimately show ?thesis by blast
  qed
  from s show ?thesis
  proof (cases rule: ts_ok_cases)
    case 1
    then show ?thesis using enough ts by (simp add: ts_pending_def ts_def)
  next
    case (2 n c0)
    then show ?thesis using one [of c0 "[]" n] enough by (simp add: ts_pending_def ts_def cs_def)
  next
    case (3 n c0 c1)
    then show ?thesis using one [of c0 "[c1]" n] two [of c0 c1 n]
      by (cases "n + ts \<le> cs") (simp_all add: ts_def cs_def)
  qed
qed

text \<open>When less than a packet is pending, the window takes another chunk.\<close>

lemma starved_needs_chunk:
  assumes "ts_env_ok E" "ts_ok E s" "length (ts_pending s) < TS_PACKAGE_SIZE E"
  shows "needsNewChunk s"
  using assms(2)
proof (cases rule: ts_ok_cases)
  case (3 n c0 c1)
  then show ?thesis using assms by (auto simp: ts_pending_def ts_env_ok_def)
qed (simp_all add: needsNewChunk_def)

text \<open>The whole packets of a byte sequence.\<close>

definition ts_slices :: "nat \<Rightarrow> bytes \<Rightarrow> bytes list" where
  "ts_slices n data = map (\<lambda>i. take n (drop (i * n) data)) [0..<length data div n]"

lemma ts_slices_short: "length data < n \<Longrightarrow> ts_slices n data = []"
  by (simp add: ts_slices_def)

lemma ts_slices_Cons:
  assumes "0 < n" "n \<le> length data"
  shows "ts_slices n data = take n data # ts_slices n (drop n data)"
proof -
  have "length data div n = Suc ((length data - n) div n)"
    using assms by (simp add: le_div_geq)
  then show ?thesis
    by (simp add: ts_slices_def upt_conv_Cons map_Suc_upt [symmetric] comp_def add.commute
             del: upt_Suc)
qed

end
