(* ===== verification/Psi_Parser.thy ===== *)
theory Psi_Parser
  imports Ts_Stream Config_Options
begin

text \<open>
  The class \<open>PSIParser\<close> (PSIParser.h, PSIParser.cpp): it follows the program association table,
  the program map table and the entitlement control messages of the received stream and publishes
  them once per channel as the value of \<open>drm0\<close>. Members keep their names; \<open>unsigned\<close> is 32
  bits wide and wraps; an access outside a packet or table is \<open>None\<close>. The values given to the
  monitored variables \<open>drm0\<close> and \<open>cdm0\<close> are kept in \<open>drm0_values\<close> and
  \<open>mIsCdmSetupDone\<close>. The message counters that only feed the log are left out.
\<close>

section \<open>Data\<close>

text \<open>What is published for a channel (StreamProtectionConfig.h).\<close>

datatype ConfidenceTypes = RESET | LOW | MID | HIGH

record StreamProtectionConfig =
  spc_confidence :: ConfidenceTypes
  spc_channelInfo :: string
  spc_ecm :: bytes
  spc_pat :: bytes
  spc_pmt :: bytes
  spc_isClear :: bool

text \<open>
  \<open>chunk_queue\<close> is the lock-free queue, \<open>stack_junk\<close> what an uninitialised local array of
  \<open>TS_PACKAGE_SIZE\<close> bytes holds.
\<close>

record psi_env = ts_env +
  chunk_queue :: "bytes lfq_ops"
  stack_junk :: bytes

text \<open>An environment with list-backed containers, for concrete runs.\<close>

definition psi_env_list :: "nat \<Rightarrow> nat \<Rightarrow> psi_env" where
  "psi_env_list ts cs = \<lparr>TS_PACKAGE_SIZE = ts, BUFFER_CHUNK_SIZE = cs, chunk_ring = circ_list,
                         chunk_queue = lfq_list, stack_junk = replicate ts 0\<rparr>"

lemma psi_env_list_sel [simp]:
  "TS_PACKAGE_SIZE (psi_env_list ts cs) = ts" "BUFFER_CHUNK_SIZE (psi_env_list ts cs) = cs"
  "chunk_ring (psi_env_list ts cs) = circ_list" "chunk_queue (psi_env_list ts cs) = lfq_list"
  by (simp_all add: psi_env_list_def)

definition PSI_INVALID_PID :: u32 where "PSI_INVALID_PID = 0xFFFF"
definition PSI_MAX_PID :: u32 where "PSI_MAX_PID = 0x1FFF"
definition CA_DESC_LEN :: u32 where "CA_DESC_LEN = 6"

text \<open>The macros on bytes of a packet: \<open>be16 hi lo\<close> is \<open>(hi << 8) + lo\<close>.\<close>

definition be16 :: "u8 \<Rightarrow> u8 \<Rightarrow> u32" where
  "be16 hi lo = push_bit 8 (ucast hi) + ucast lo"

definition GET_PID :: "bytes \<Rightarrow> u32 option" where
  "GET_PID b = do { b1 \<leftarrow> rd b 1; b2 \<leftarrow> rd b 2; Some (be16 b1 b2 AND 0x1FFF) }"

definition TSC_ISSET :: "bytes \<Rightarrow> bool option" where
  "TSC_ISSET p = map_option (\<lambda>b. b AND 0xC0 \<noteq> 0) (rd p 3)"

definition IS_TSC_EVEN :: "bytes \<Rightarrow> bool option" where
  "IS_TSC_EVEN p = map_option (\<lambda>b. b AND 0xC0 = 0x80) (rd p 3)"

section \<open>PidInfo\<close>

record PidInfo =
  mPid :: u32
  mVersion :: u32
  mPidValid :: bool
  mVersionValid :: bool
  mTsPacket :: bytes

definition PidInfo_new :: "nat \<Rightarrow> u32 \<Rightarrow> PidInfo" where
  "PidInfo_new ts pid = \<lparr>mPid = pid, mVersion = 0, mPidValid = (pid \<le> PSI_MAX_PID),
                         mVersionValid = False, mTsPacket = replicate ts 0\<rparr>"

definition setPid :: "u32 \<Rightarrow> PidInfo \<Rightarrow> bool \<times> PidInfo" where
  "setPid pid i =
     (if mPidValid i then (False, i)
      else let i' = i\<lparr>mPid := pid, mPidValid := pid \<le> PSI_MAX_PID\<rparr> in (mPidValid i', i'))"

definition setVer :: "u32 \<Rightarrow> PidInfo \<Rightarrow> bool \<times> PidInfo" where
  "setVer ver i =
     (if \<not> mPidValid i then (False, i) else (True, i\<lparr>mVersion := ver, mVersionValid := True\<rparr>))"

definition PidInfo_reset :: "PidInfo \<Rightarrow> PidInfo" where
  "PidInfo_reset i = i\<lparr>mPid := PSI_INVALID_PID, mVersion := 0, mVersionValid := False,
                       mPidValid := False, mTsPacket := replicate (length (mTsPacket i)) 0\<rparr>"

definition isNew :: "u32 \<Rightarrow> PidInfo \<Rightarrow> bool" where
  "isNew v i = (if \<not> mPidValid i then False else if \<not> mVersionValid i then True else mVersion i \<noteq> v)"

definition isPid :: "u32 \<Rightarrow> PidInfo \<Rightarrow> bool" where
  "isPid pid i = (if \<not> mPidValid i then False else pid = mPid i)"

definition getPid :: "PidInfo \<Rightarrow> u32" where
  "getPid i = (if \<not> mPidValid i then PSI_INVALID_PID else mPid i)"

definition setPacket :: "bytes \<Rightarrow> PidInfo \<Rightarrow> PidInfo" where
  "setPacket p i = i\<lparr>mTsPacket := p\<rparr>"

text \<open>\<open>getPmtData\<close> and \<open>getPatData\<close>: the stored packet if its first byte is the table id.\<close>

definition getPmtData :: "PidInfo \<Rightarrow> bytes option option" where
  "getPmtData i = (if mPid i = PSI_INVALID_PID then Some None
     else map_option (\<lambda>b. if b \<noteq> 0x2 then None else Some (mTsPacket i)) (rd (mTsPacket i) 0))"

definition getPatData :: "PidInfo \<Rightarrow> bytes option option" where
  "getPatData i = (if mPid i = PSI_INVALID_PID then Some None
     else map_option (\<lambda>b. if b \<noteq> 0x0 then None else Some (mTsPacket i)) (rd (mTsPacket i) 0))"

section \<open>State\<close>

datatype ParserActionT =
  ERROR | IGNORE | DROP | DECRYPT_ODD | DECRYPT_EVEN | NEW_ECM | NEW_ECMT | NEW_PAT_PMT

datatype PsiParserState_t =
  INVALID | NEEDS_PAT | NEEDS_PMT | NEEDS_VMX_PMT | NEEDS_ECM | GOT_ECM | NO_ECM

record PSIParser =
  mPsiParserRunning :: bool
  mQueue :: "bytes list"
  mChannel :: string
  mTsStream :: TSStream
  static_packet :: bytes
  mPat :: PidInfo
  mPmt :: PidInfo
  mEcm :: PidInfo
  mIsClearStream :: bool
  mParserState :: PsiParserState_t
  mOpid :: u8
  mEcmTable :: bytes
  mTempCollectedEcmData :: bytes
  mEcmCollectionInProgress :: bool
  mCollectedEcmDataExpected :: u32
  mCollectedDataLength :: u32
  mPacketCounter :: u64
  mIsCdmSetupDone :: bool
  drm0_values :: "StreamProtectionConfig list"

definition PSIParser_init :: "'e psi_env_scheme \<Rightarrow> PSIParser" where
  "PSIParser_init E =
     (let ts = TS_PACKAGE_SIZE E
      in \<lparr>mPsiParserRunning = False, mQueue = [], mChannel = '''', mTsStream = TSStream_init,
          static_packet = replicate ts 0, mPat = PidInfo_new ts 0, mPmt = PidInfo_new ts 0,
          mEcm = PidInfo_new ts 0, mIsClearStream = False, mParserState = NEEDS_PAT, mOpid = 0,
          mEcmTable = [], mTempCollectedEcmData = [], mEcmCollectionInProgress = False,
          mCollectedEcmDataExpected = 0, mCollectedDataLength = 0, mPacketCounter = 0,
          mIsCdmSetupDone = True, drm0_values = []\<rparr>)"

section \<open>Tables\<close>

text \<open>
  \<open>std::copy(packet + 5, packet end, pOut)\<close> into the array \<open>out\<close>: the last five bytes of
  \<open>out\<close> stay what they were.
\<close>

definition copy_section :: "bytes \<Rightarrow> bytes \<Rightarrow> bytes option" where
  "copy_section packet out = do {
     d \<leftarrow> mem_read packet 5 (length packet - 5);
     mem_write out 0 d
   }"

definition resetCollectionState :: "PSIParser \<Rightarrow> PSIParser" where
  "resetCollectionState s = s\<lparr>mCollectedDataLength := 0, mCollectedEcmDataExpected := 0,
                              mTempCollectedEcmData := [], mEcmCollectionInProgress := False\<rparr>"

text \<open>A new version of the program association table: the PMT and ECM entries start over.\<close>

definition pat_update ::
    "'e psi_env_scheme \<Rightarrow> bytes \<Rightarrow> nat \<Rightarrow> u32 \<Rightarrow> PSIParser \<Rightarrow> PSIParser option" where
  "pat_update E packet offs version s = do {
     let s1 = s\<lparr>mPmt := PidInfo_reset (mPmt s), mEcm := PidInfo_reset (mEcm s),
                mPat := snd (setVer version (mPat s))\<rparr>;
     b13 \<leftarrow> rd packet (offs + 13);
     b14 \<leftarrow> rd packet (offs + 14);
     let pgm = be16 b13 b14 AND 0x1FFF;
     pmtPid \<leftarrow> (if pgm = 0 then do {
         h \<leftarrow> rd packet (offs + 17); l \<leftarrow> rd packet (offs + 18); Some (be16 h l AND 0x1FFF) }
       else do {
         h \<leftarrow> rd packet (offs + 15); l \<leftarrow> rd packet (offs + 16); Some (be16 h l AND 0x1FFF) });
     let s2 = s1\<lparr>mPmt := snd (setPid pmtPid (mPmt s1))\<rparr>;
     pOut \<leftarrow> copy_section packet (stack_junk E);
     Some (s2\<lparr>mPat := setPacket pOut (mPat s2)\<rparr>)
   }"

definition parsePat :: "'e psi_env_scheme \<Rightarrow> bytes \<Rightarrow> PSIParser \<Rightarrow> (ParserActionT \<times> PSIParser) option" where
  "parsePat E packet s = do {
     pid \<leftarrow> GET_PID packet;
     if \<not> isPid pid (mPat s) then Some (ERROR, s)
     else do {
       b3 \<leftarrow> rd packet 3;
       b4 \<leftarrow> rd packet 4;
       let offs = (if b3 AND 0x30 = 0x30 then unat b4 + 1 else unat b4);
       if offs > 184 then Some (ERROR, s)
       else do {
         tid \<leftarrow> rd packet (offs + 5);
         if tid \<noteq> 0 then Some (ERROR, s)
         else do {
           bv \<leftarrow> rd packet (offs + 10);
           let version = (ucast (drop_bit 1 (bv AND 0x3E)) :: u32);
           if isNew version (mPat s)
           then map_option (\<lambda>s'. (IGNORE, s')) (pat_update E packet offs version s)
           else Some (IGNORE, s)
         }
       }
     }
   }"

text \<open>
  The walk over the program descriptors: \<open>pLen\<close> bytes are left, the next descriptor starts at
  index \<open>d\<close>. \<open>Some (None, s)\<close> is the early \<open>return IGNORE\<close>; otherwise the flag
  \<open>descriptorFound\<close> is returned. \<open>pLen\<close> is unsigned and wraps.
\<close>

definition is_vmx :: "bytes \<Rightarrow> nat \<Rightarrow> bool option" where
  "is_vmx packet d = do {
     b0 \<leftarrow> rd packet d;
     if b0 = 0x09 then do {
       b2 \<leftarrow> rd packet (d + 2);
       if b2 = 0x56 then map_option (\<lambda>b3. b3 = 0x01) (rd packet (d + 3)) else Some False
     } else Some False
   }"

definition ca_accepted :: "bytes \<Rightarrow> nat \<Rightarrow> u32 \<Rightarrow> PSIParser \<Rightarrow> bool option" where
  "ca_accepted packet d dtLen s =
     (if dtLen > CA_DESC_LEN then
        let ext_len = dtLen - CA_DESC_LEN
        in if ext_len \<ge> 2 then
             if mOpid s = 0 then Some True else map_option (\<lambda>e. mOpid s = e) (rd packet (d + 6 + 1))
           else Some False
      else Some True)"

definition ca_pid :: "bytes \<Rightarrow> nat \<Rightarrow> u32 option" where
  "ca_pid packet d = do {
     h \<leftarrow> rd packet (d + 4);
     l \<leftarrow> rd packet (d + 5);
     Some (be16 h l AND 0x1FFF)
   }"

definition set_ecm_pid :: "bytes \<Rightarrow> bytes \<Rightarrow> u32 \<Rightarrow> PSIParser \<Rightarrow> PSIParser option" where
  "set_ecm_pid packet out ecmPid s = do {
     let i = snd (setPid ecmPid (PidInfo_reset (mEcm s)));
     pOut \<leftarrow> copy_section packet out;
     Some (s\<lparr>mEcm := setPacket pOut i\<rparr>)
   }"

lemma unat_byte_plus_2: "unat (ucast (b :: u8) + 2 :: u32) = unat b + 2"
proof -
  have "ucast b + 2 = (word_of_nat (unat b + 2) :: u32)" by simp
  moreover have "unat b + 2 < 4294967296" using unat_less_exp [of b] by simp
  ultimately show ?thesis by (simp only: unat_of_nat_small [where 'a = 32, simplified])
qed

lemma descriptor_advances:
  "rd (packet :: bytes) (d + 1) = Some b1 \<Longrightarrow> length packet - (d + unat (ucast b1 + 2 :: u32)) < length packet - d"
  unfolding unat_byte_plus_2 rd_eq_Some by linarith

function pmt_program_loop ::
    "nat \<Rightarrow> bytes \<Rightarrow> u32 \<Rightarrow> nat \<Rightarrow> bool \<Rightarrow> PSIParser \<Rightarrow> (bool option \<times> PSIParser) option" where
  "pmt_program_loop ts packet pLen d found s =
     (if pLen = 0 then Some (Some found, s)
      else case rd packet (d + 1) of None \<Rightarrow> None | Some b1 \<Rightarrow>
        if unat b1 + 2 > ts then Some (None, s)
        else
          let dtLen = ucast b1 + 2 in
          case is_vmx packet d of None \<Rightarrow> None
          | Some False \<Rightarrow> pmt_program_loop ts packet (pLen - dtLen) (d + unat dtLen) found s
          | Some True \<Rightarrow>
              (case ca_accepted packet d dtLen s of None \<Rightarrow> None
               | Some False \<Rightarrow> pmt_program_loop ts packet (pLen - dtLen) (d + unat dtLen) True s
               | Some True \<Rightarrow> do {
                   ecmPid \<leftarrow> ca_pid packet d;
                   s' \<leftarrow> (if \<not> isPid ecmPid (mEcm s) then set_ecm_pid packet packet ecmPid s else Some s);
                   Some (Some True, s')
                 }))"
  by pat_completeness auto
termination
  by (relation "measure (\<lambda>(ts, packet, pLen, d, found, s). length packet - d)")
     (simp_all add: descriptor_advances)

declare pmt_program_loop.simps [simp del]

text \<open>
  The descriptors of one elementary stream; the result says whether the ECM PID was set, and
  whether a descriptor was found.
\<close>

function pmt_es_descriptors ::
    "bytes \<Rightarrow> bytes \<Rightarrow> nat \<Rightarrow> nat \<Rightarrow> nat \<Rightarrow> bool \<Rightarrow> PSIParser \<Rightarrow> (bool \<times> bool \<times> PSIParser) option" where
  "pmt_es_descriptors junk packet idx es_info_length desc_offset found s =
     (if desc_offset + 6 \<le> es_info_length then
        let i = idx + desc_offset in
        case is_vmx packet i of None \<Rightarrow> None
        | Some vmx \<Rightarrow>
          (case (if vmx then ca_pid packet i else Some 0) of None \<Rightarrow> None
           | Some ecmPid \<Rightarrow>
             if vmx \<and> \<not> isPid ecmPid (mEcm s) then
               map_option (\<lambda>s'. (True, True, s')) (set_ecm_pid packet junk ecmPid s)
             else
               (case rd packet (i + 1) of None \<Rightarrow> None
                | Some b1 \<Rightarrow> pmt_es_descriptors junk packet idx es_info_length
                               (desc_offset + unat b1 + 2) (found \<or> vmx) s))
      else Some (False, found, s))"
  by pat_completeness auto
termination
  by (relation "measure (\<lambda>(junk, packet, idx, el, off, found, s). el - off)") auto

declare pmt_es_descriptors.simps [simp del]

function pmt_stream_loop ::
    "bytes \<Rightarrow> bytes \<Rightarrow> nat \<Rightarrow> nat \<Rightarrow> u32 \<Rightarrow> bool \<Rightarrow> PSIParser \<Rightarrow> (bool \<times> PSIParser) option" where
  "pmt_stream_loop junk packet base p remSectBytes found s =
     (if \<not> remSectBytes > 4 then Some (found, s)
      else case (rd packet (base + p), rd packet (base + p + 3), rd packet (base + p + 4)) of
        (Some _, Some h, Some l) \<Rightarrow>
          let es_info_length = be16 h l AND 0xFFF; p5 = p + 5 in
          (case pmt_es_descriptors junk packet (base + p5) (unat es_info_length) 0 found s of
             None \<Rightarrow> None
           | Some (ecmPidSet, found', s') \<Rightarrow>
               if ecmPidSet then Some (found', s')
               else pmt_stream_loop junk packet base (p5 + unat es_info_length)
                      (remSectBytes - (es_info_length + 5)) found' s')
      | _ \<Rightarrow> None)"
  by pat_completeness auto
termination
  by (relation "measure (\<lambda>(junk, packet, base, p, rem, found, s). length packet - (base + p))")
     (auto simp: Some_eq_rd)

declare pmt_stream_loop.simps [simp del]

text \<open>
  A new version of the program map table: both walks, then the verdict whether the stream is clear.
\<close>

definition pmt_finish :: "bytes \<Rightarrow> bool \<Rightarrow> PSIParser \<Rightarrow> (ParserActionT \<times> PSIParser) option" where
  "pmt_finish packet descriptorFound s =
     (let s1 = s\<lparr>mIsClearStream := \<not> descriptorFound\<rparr>
      in if mIsClearStream s1 then do {
           pOut \<leftarrow> copy_section packet packet;
           Some (NEW_PAT_PMT, s1\<lparr>mPmt := setPacket pOut (mPmt s1), mIsCdmSetupDone := True\<rparr>)
         } else Some (IGNORE, s1))"

definition pmt_update ::
    "'e psi_env_scheme \<Rightarrow> bytes \<Rightarrow> nat \<Rightarrow> u32 \<Rightarrow> u32 \<Rightarrow> u32 \<Rightarrow> PSIParser \<Rightarrow> (ParserActionT \<times> PSIParser) option" where
  "pmt_update E packet offs section_len descriptorLen version s = do {
     let s1 = s\<lparr>mPmt := snd (setVer version (mPmt s))\<rparr>;
     let remSectBytes = section_len - 9 - descriptorLen;
     (r, s2) \<leftarrow> pmt_program_loop (TS_PACKAGE_SIZE E) packet descriptorLen (offs + 17) False s1;
     case r of
       None \<Rightarrow> Some (IGNORE, s2)
     | Some found \<Rightarrow> do {
         (found', s3) \<leftarrow> pmt_stream_loop (stack_junk E) packet
                          (offs + 17 + unat descriptorLen) 0 remSectBytes found s2;
         pmt_finish packet found' s3
       }
   }"

definition parsePmt :: "'e psi_env_scheme \<Rightarrow> bytes \<Rightarrow> PSIParser \<Rightarrow> (ParserActionT \<times> PSIParser) option" where
  "parsePmt E packet s = do {
     pid \<leftarrow> GET_PID packet;
     if \<not> isPid pid (mPmt s) then Some (ERROR, s)
     else do {
       b3 \<leftarrow> rd packet 3;
       offs \<leftarrow> (if b3 AND 0x30 = 0x30 then map_option (\<lambda>b4. unat b4 + 1) (rd packet 4) else Some 0);
       if offs > 184 then Some (ERROR, s)
       else do {
         tid \<leftarrow> rd packet (offs + 5);
         if tid \<noteq> 0x2 then Some (ERROR, s)
         else do {
           l6 \<leftarrow> rd packet (offs + 6);
           l7 \<leftarrow> rd packet (offs + 7);
           let section_len = be16 l6 l7 AND 0xFFF;
           l15 \<leftarrow> rd packet (offs + 15);
           l16 \<leftarrow> rd packet (offs + 16);
           let descriptorLen = be16 l15 l16 AND 0x0FFF;
           if descriptorLen > section_len then Some (ERROR, s)
           else do {
             bv \<leftarrow> rd packet (offs + 10);
             let version = (ucast (drop_bit 1 (bv AND 0x3E)) :: u32);
             if isNew version (mPmt s) then pmt_update E packet offs section_len descriptorLen version s
             else Some (ERROR, s)
           }
         }
       }
     }
   }"

text \<open>
  \<open>strncmp(table + 8, "VMECM", 5) == 0\<close>, reading byte by byte up to the first difference.
\<close>

fun strncmp_eq :: "bytes \<Rightarrow> nat \<Rightarrow> bytes \<Rightarrow> bool option" where
  "strncmp_eq packet i [] = Some True"
| "strncmp_eq packet i (c # cs) = do {
     b \<leftarrow> rd packet i;
     if b = c then strncmp_eq packet (i + 1) cs else Some False
   }"

definition VMECM :: bytes where "VMECM = str_bytes ''VMECM''"

definition collectEcm :: "'e psi_env_scheme \<Rightarrow> bytes \<Rightarrow> PSIParser \<Rightarrow> (ParserActionT \<times> PSIParser) option" where
  "collectEcm E packet s = do {
     pid \<leftarrow> GET_PID packet;
     if \<not> isPid pid (mEcm s) then Some (ERROR, s)
     else do {
       b3 \<leftarrow> rd packet 3;
       a \<leftarrow> (if b3 AND 0x30 = 0x30 then map_option (\<lambda>b4. unat b4 + 1) (rd packet 4) else Some 0);
       if a > 184 then Some (ERROR, s)
       else do {
         let remainingBytes = (word_of_nat (TS_PACKAGE_SIZE E) - (4 + word_of_nat a) :: u32);
         let need = mCollectedEcmDataExpected s - mCollectedDataLength s;
         bv \<leftarrow> rd (mTempCollectedEcmData s) 5;
         let version = (ucast (drop_bit 1 (bv AND 0x3E)) :: u32);
         let remainingBytes = (if remainingBytes > need then need else remainingBytes);
         d \<leftarrow> mem_read packet (4 + a) (unat remainingBytes);
         temp \<leftarrow> mem_write (mTempCollectedEcmData s) (unat (mCollectedDataLength s)) d;
         let s1 = s\<lparr>mTempCollectedEcmData := temp,
                    mCollectedDataLength := mCollectedDataLength s + remainingBytes\<rparr>;
         if mCollectedDataLength s1 = mCollectedEcmDataExpected s1 then
           if isNew version (mEcm s1) then
             Some (NEW_ECMT, resetCollectionState
               (s1\<lparr>mEcm := snd (setVer version (mEcm s1)), mEcmTable := mTempCollectedEcmData s1\<rparr>))
           else Some (IGNORE, resetCollectionState s1)
         else Some (IGNORE, s1)
       }
     }
   }"

text \<open>The first packet of a table: \<open>table\<close> is its index, \<open>remainingBytes\<close> what follows.\<close>

definition ecm_start :: "bytes \<Rightarrow> nat \<Rightarrow> u32 \<Rightarrow> u32 \<Rightarrow> PSIParser \<Rightarrow> (ParserActionT \<times> PSIParser) option" where
  "ecm_start packet table remainingBytes0 version s = do {
     t1 \<leftarrow> rd packet (table + 1);
     t2 \<leftarrow> rd packet (table + 2);
     let table_len = (push_bit 8 (ucast (t1 AND 0x0F)) + ucast t2 + 3 :: u32);
     let temp0 = replicate (unat table_len) 0;
     let remainingBytes = min table_len remainingBytes0;
     d \<leftarrow> mem_read packet table (unat remainingBytes);
     temp \<leftarrow> mem_write temp0 0 d;
     let s1 = s\<lparr>mTempCollectedEcmData := temp, mEcmCollectionInProgress := True,
                mCollectedEcmDataExpected := table_len, mCollectedDataLength := remainingBytes\<rparr>;
     if mCollectedEcmDataExpected s1 > mCollectedDataLength s1 then Some (IGNORE, s1)
     else if isNew version (mEcm s1) then
       Some (NEW_ECM, resetCollectionState
         (s1\<lparr>mEcm := snd (setVer version (mEcm s1)), mEcmTable := mTempCollectedEcmData s1\<rparr>))
     else Some (IGNORE, resetCollectionState s1)
   }"

definition parseEcm :: "'e psi_env_scheme \<Rightarrow> bytes \<Rightarrow> PSIParser \<Rightarrow> (ParserActionT \<times> PSIParser) option" where
  "parseEcm E packet s = do {
     pid \<leftarrow> GET_PID packet;
     if \<not> isPid pid (mEcm s) then Some (ERROR, s)
     else if mEcmCollectionInProgress s then collectEcm E packet s
     else do {
       b3 \<leftarrow> rd packet 3;
       a \<leftarrow> (if b3 AND 0x30 = 0x30 then map_option (\<lambda>b4. unat b4 + 1) (rd packet 4) else Some 0);
       if a > 184 then Some (ERROR, s)
       else do {
         let table = 5 + a;
         let remainingBytes = (word_of_nat (TS_PACKAGE_SIZE E) - (5 + word_of_nat a) :: u32);
         if remainingBytes < 13 then Some (ERROR, s)
         else do {
           bv \<leftarrow> rd packet (table + 5);
           let version = (ucast (drop_bit 1 (bv AND 0x3E)) :: u32);
           t0 \<leftarrow> rd packet table;
           if \<not> (t0 = 0x80 \<or> t0 = 0x81) then Some (ERROR, s)
           else do {
             vm \<leftarrow> strncmp_eq packet (table + 8) VMECM;
             if \<not> vm then Some (ERROR, s) else ecm_start packet table remainingBytes version s
           }
         }
       }
     }
   }"

definition ParseOther :: "bytes \<Rightarrow> ParserActionT option" where
  "ParseOther pkt = do {
     t \<leftarrow> TSC_ISSET pkt;
     if t then do {
       e \<leftarrow> IS_TSC_EVEN pkt;
       Some (if e then DECRYPT_EVEN else DECRYPT_ODD)
     } else Some IGNORE
   }"

section \<open>Packets\<close>

text \<open>The transition of the parser state after a program map table was processed.\<close>

definition pmt_transition :: "PSIParser \<Rightarrow> PSIParser" where
  "pmt_transition s = (case mParserState s of
       NEEDS_PMT \<Rightarrow> if \<not> mIsClearStream s then
         s\<lparr>mParserState := if getPid (mEcm s) \<noteq> PSI_INVALID_PID then NEEDS_ECM else NEEDS_VMX_PMT\<rparr> else s
     | NEEDS_VMX_PMT \<Rightarrow> if \<not> mIsClearStream s then
         s\<lparr>mParserState := if getPid (mEcm s) \<noteq> PSI_INVALID_PID then NEEDS_ECM else NEEDS_VMX_PMT\<rparr> else s
     | NO_ECM \<Rightarrow> if \<not> mIsClearStream s then
         s\<lparr>mParserState := if getPid (mEcm s) \<noteq> PSI_INVALID_PID then NEEDS_ECM else NEEDS_VMX_PMT\<rparr> else s
     | NEEDS_ECM \<Rightarrow> if mIsClearStream s
         then s\<lparr>mParserState := NO_ECM, mEcm := PidInfo_reset (mEcm s)\<rparr> else s
     | GOT_ECM \<Rightarrow> if mIsClearStream s
         then s\<lparr>mParserState := NO_ECM, mEcm := PidInfo_reset (mEcm s)\<rparr> else s
     | INVALID \<Rightarrow> s
     | NEEDS_PAT \<Rightarrow> s)"

definition parseTsPacket ::
    "'e psi_env_scheme \<Rightarrow> bytes \<Rightarrow> PSIParser \<Rightarrow> (ParserActionT \<times> PSIParser) option" where
  "parseTsPacket E packet s = do {
     pid \<leftarrow> GET_PID packet;
     if isPid pid (mPat s) then do {
       (action, s1) \<leftarrow> parsePat E packet s;
       Some (action,
         if mParserState s1 = NEEDS_PAT \<and> mVersionValid (mPat s1) \<and> getPid (mPmt s1) \<noteq> PSI_INVALID_PID
         then s1\<lparr>mParserState := NEEDS_PMT\<rparr> else s1)
     } else if isPid pid (mPmt s) then do {
       (action, s1) \<leftarrow> parsePmt E packet s;
       Some (action, if \<not> mVersionValid (mPmt s1) then s1 else pmt_transition s1)
     } else if isPid pid (mEcm s) then do {
       (action, s1) \<leftarrow> parseEcm E packet s;
       Some (action,
         if mParserState s1 = NEEDS_PMT \<and> mVersionValid (mEcm s1)
         then s1\<lparr>mParserState := GOT_ECM\<rparr> else s1)
     } else map_option (\<lambda>action. (action, s)) (ParseOther packet)
   }"

definition getCurrentPmt :: "PSIParser \<Rightarrow> bytes option" where
  "getCurrentPmt s = map_option (case_option [] id) (getPmtData (if mIsClearStream s then mPmt s else mEcm s))"

definition getCurrentPat :: "PSIParser \<Rightarrow> bytes option" where
  "getCurrentPat s = map_option (case_option [] id) (getPatData (mPat s))"

definition publish_drm :: "PSIParser \<Rightarrow> PSIParser option" where
  "publish_drm s =
     (if mPsiParserRunning s then do {
        pat \<leftarrow> getCurrentPat s;
        pmt \<leftarrow> getCurrentPmt s;
        Some (s\<lparr>drm0_values := drm0_values s @
                  [\<lparr>spc_confidence = HIGH, spc_channelInfo = mChannel s, spc_ecm = mEcmTable s,
                    spc_pat = pat, spc_pmt = pmt, spc_isClear = mIsClearStream s\<rparr>],
                mPsiParserRunning := False\<rparr>)
      } else Some s)"

text \<open>The loop of \<open>processChunk\<close>, which runs until the stream is out of whole packets.\<close>

partial_function (option) packet_loop :: "'e psi_env_scheme \<Rightarrow> PSIParser \<Rightarrow> PSIParser option" where
  "packet_loop E s =
     Option.bind (getNextPacket E (static_packet s) (mTsStream s)) (\<lambda>(st, pkt, ts).
       let s1 = s\<lparr>static_packet := pkt, mTsStream := ts\<rparr> in
       if st = NOT_ENOUGH_DATA then Some s1
       else if st = DATA_CC_ERROR then Some s1
       else Option.bind (parseTsPacket E pkt s1) (\<lambda>(action, s2).
         Option.bind (if action \<in> {NEW_ECM, NEW_ECMT, NEW_PAT_PMT} then publish_drm s2 else Some s2)
           (\<lambda>s3. packet_loop E s3)))"

definition processChunk :: "'e psi_env_scheme \<Rightarrow> bytes \<Rightarrow> PSIParser \<Rightarrow> PSIParser option" where
  "processChunk E array s =
     packet_loop E
       (if needsNewChunk (mTsStream s)
        then s\<lparr>mTsStream := snd (insertChunk E array (mTsStream s))\<rparr> else s)"

section \<open>Operations\<close>

text \<open>\<open>clearQueue\<close> pops until the queue is empty.\<close>

definition clearQueue :: "PSIParser \<Rightarrow> PSIParser" where
  "clearQueue s = s\<lparr>mQueue := [], mPacketCounter := 0\<rparr>"

text \<open>A buffer as the stream processor posts it: the channel may be a null pointer.\<close>

definition PSIParser_post ::
    "'e psi_env_scheme \<Rightarrow> string option \<Rightarrow> bytes \<Rightarrow> PSIParser \<Rightarrow> PSIParser" where
  "PSIParser_post E channelInfo chunk s = (case channelInfo of
     None \<Rightarrow> s
   | Some ch \<Rightarrow>
       let s1 = (if ch \<noteq> mChannel s then (clearQueue s)\<lparr>mChannel := ch\<rparr> else s)
       in if mPsiParserRunning s1
          then s1\<lparr>mQueue := lfq_push (chunk_queue E) (mQueue s1) chunk\<rparr> else s1)"

definition PSIParser_notifyConfigurationChanged :: "string \<Rightarrow> bytes \<Rightarrow> PSIParser \<Rightarrow> PSIParser" where
  "PSIParser_notifyConfigurationChanged var value s =
     (if var = CONFIG_F_FCC_STREAM_INFO_ECM then s\<lparr>mPsiParserRunning := (value = [])\<rparr> else s)"

text \<open>One turn of \<open>threadLoop\<close>: nothing happens while the queue is empty.\<close>

definition threadLoop_turn :: "'e psi_env_scheme \<Rightarrow> PSIParser \<Rightarrow> PSIParser option" where
  "threadLoop_turn E s = (case lfq_pop (chunk_queue E) (mQueue s) of
     None \<Rightarrow> Some s
   | Some (chunk, q) \<Rightarrow> processChunk E chunk (s\<lparr>mQueue := q, mPacketCounter := mPacketCounter s + 1\<rparr>))"

definition PSIParser_onEndOfStream :: "PSIParser \<Rightarrow> PSIParser" where
  "PSIParser_onEndOfStream s = s\<lparr>mIsCdmSetupDone := False\<rparr>"

definition PSIParser_onOpen :: "PSIParser \<Rightarrow> PSIParser" where
  "PSIParser_onOpen s0 =
     (let s1 = resetCollectionState (clearQueue s0);
          s2 = s1\<lparr>mEcmTable := [], mEcm := PidInfo_reset (mEcm s1), mPmt := PidInfo_reset (mPmt s1),
                  mPat := snd (setPid 0 (PidInfo_reset (mPat s1)))\<rparr>
      in s2\<lparr>mParserState := NEEDS_PAT\<rparr>)"

datatype psi_event =
    Ev_post "string option" bytes
  | Ev_notify string bytes
  | Ev_thread
  | Ev_eos
  | Ev_open

fun psi_step :: "'e psi_env_scheme \<Rightarrow> PSIParser \<Rightarrow> psi_event \<Rightarrow> PSIParser option" where
  "psi_step E s (Ev_post ch c) = Some (PSIParser_post E ch c s)"
| "psi_step E s (Ev_notify v x) = Some (PSIParser_notifyConfigurationChanged v x s)"
| "psi_step E s Ev_thread = threadLoop_turn E s"
| "psi_step E s Ev_eos = Some (PSIParser_onEndOfStream s)"
| "psi_step E s Ev_open = Some (PSIParser_onOpen s)"

end
