(* ===== verification/Psi_Reach.thy ===== *)
theory Psi_Reach
  imports Psi_Parser
begin

text \<open>
  What each operation of the parser leaves unchanged, invariants of its runs, and two consequences:
  the state \<open>GOT_ECM\<close> is unreachable and protection data is published at most once per request.
\<close>

section \<open>What the table walks change\<close>

text \<open>No parser touches the stream, the queue, the channel or what was published.\<close>

definition psi_frame :: "PSIParser \<Rightarrow> PSIParser \<Rightarrow> bool" where
  "psi_frame s s' \<longleftrightarrow>
     mPsiParserRunning s' = mPsiParserRunning s \<and> mQueue s' = mQueue s \<and> mChannel s' = mChannel s \<and>
     mTsStream s' = mTsStream s \<and> static_packet s' = static_packet s \<and> mOpid s' = mOpid s \<and>
     mPacketCounter s' = mPacketCounter s \<and> drm0_values s' = drm0_values s"

lemma psi_frame_refl [simp]: "psi_frame s s"
  by (simp add: psi_frame_def)

lemma psi_frame_trans: "psi_frame s s' \<Longrightarrow> psi_frame s' s'' \<Longrightarrow> psi_frame s s''"
  by (simp add: psi_frame_def)

text \<open>\<open>ecm_touched f s s'\<close>: only \<open>mEcm\<close> may differ, and if it does a descriptor was found.\<close>

definition ecm_touched :: "bool \<Rightarrow> PSIParser \<Rightarrow> PSIParser \<Rightarrow> bool" where
  "ecm_touched f s s' \<longleftrightarrow>
     psi_frame s s' \<and> mParserState s' = mParserState s \<and> mPat s' = mPat s \<and> mPmt s' = mPmt s \<and>
     mIsClearStream s' = mIsClearStream s \<and>
     (mEcm s' = mEcm s \<or> f \<and> mPidValid (mEcm s') \<and> mPid (mEcm s') \<le> PSI_MAX_PID)"

lemma ecm_touched_refl [simp]: "ecm_touched f s s"
  by (simp add: ecm_touched_def)

lemma ecm_touched_trans:
  "ecm_touched f s s' \<Longrightarrow> ecm_touched f' s' s'' \<Longrightarrow> (f \<longrightarrow> f') \<Longrightarrow> ecm_touched f' s s''"
  by (auto simp: ecm_touched_def psi_frame_def)

lemma and_1FFF_le: "x AND 0x1FFF \<le> (PSI_MAX_PID :: u32)"
  unfolding PSI_MAX_PID_def by (rule word_and_le1)

lemma ca_pid_le: "ca_pid packet d = Some pid \<Longrightarrow> pid \<le> PSI_MAX_PID"
  by (auto simp: ca_pid_def bind_eq_Some_conv and_1FFF_le)

lemma set_ecm_pid_touched:
  "set_ecm_pid packet out pid s = Some s' \<Longrightarrow> pid \<le> PSI_MAX_PID \<Longrightarrow> ecm_touched True s s'"
  by (auto simp: set_ecm_pid_def bind_eq_Some_conv ecm_touched_def psi_frame_def setPid_def setPacket_def
                 PidInfo_reset_def Let_def)

lemma pmt_program_loop_touched:
  "pmt_program_loop ts packet pLen d found s = Some (r, s') \<Longrightarrow>
     (case r of None \<Rightarrow> s' = s | Some f \<Rightarrow> ecm_touched f s s' \<and> (found \<longrightarrow> f))"
proof (induction ts packet pLen d found s arbitrary: r s' rule: pmt_program_loop.induct)
  case (1 ts packet pLen d found s)
  note eq = pmt_program_loop.simps [of ts packet pLen d found s]
  show ?case
  proof (cases "pLen = 0")
    case True
    then show ?thesis using "1.prems" eq by auto
  next
    case False
    obtain b1 where b1: "rd packet (d + 1) = Some b1"
      using "1.prems" False eq by (cases "rd packet (d + 1)") auto
    show ?thesis
    proof (cases "unat b1 + 2 > ts")
      case True
      then show ?thesis using "1.prems" False eq b1 by auto
    next
      case small: False
      note IH = "1.IH" [OF False b1 small refl]
      obtain vmx where vmx: "is_vmx packet d = Some vmx"
        using "1.prems" False eq b1 small by (cases "is_vmx packet d") (auto simp: Let_def)
      show ?thesis
      proof (cases vmx)
        case False
        then show ?thesis
          using "1.prems" \<open>pLen \<noteq> 0\<close> eq b1 small vmx IH by (simp add: Let_def)
      next
        case True
        obtain acc where acc: "ca_accepted packet d (ucast b1 + 2) s = Some acc"
          using "1.prems" \<open>pLen \<noteq> 0\<close> eq b1 small vmx True
          by (cases "ca_accepted packet d (ucast b1 + 2) s") (auto simp: Let_def)
        show ?thesis
        proof (cases acc)
          case False
          then have "case r of None \<Rightarrow> s' = s | Some f \<Rightarrow> ecm_touched f s s' \<and> (True \<longrightarrow> f)"
            using "1.prems" \<open>pLen \<noteq> 0\<close> eq b1 small vmx True acc IH by (simp add: Let_def)
          then show ?thesis by (auto split: option.splits)
        next
          case acc': True
          then show ?thesis
            using "1.prems" \<open>pLen \<noteq> 0\<close> eq b1 small vmx True acc
            by (auto simp: Let_def bind_eq_Some_conv split: if_splits dest: ca_pid_le set_ecm_pid_touched)
        qed
      qed
    qed
  qed
qed

lemma pmt_es_descriptors_touched:
  "pmt_es_descriptors junk packet idx el off found s = Some (st, f, s') \<Longrightarrow>
     ecm_touched f s s' \<and> (found \<longrightarrow> f)"
proof (induction junk packet idx el off found s arbitrary: st f s' rule: pmt_es_descriptors.induct)
  case (1 junk packet idx el off found s)
  note eq = pmt_es_descriptors.simps [of junk packet idx el off found s]
  show ?case
  proof (cases "off + 6 \<le> el")
    case False
    then show ?thesis using "1.prems" eq by auto
  next
    case True
    let ?i = "idx + off"
    obtain vmx where vmx: "is_vmx packet ?i = Some vmx"
      using "1.prems" True eq by (cases "is_vmx packet ?i") (auto simp: Let_def)
    obtain pid where pid: "(if vmx then ca_pid packet ?i else Some 0) = Some pid"
      using "1.prems" True eq vmx
      by (cases "if vmx then ca_pid packet ?i else Some 0") (auto simp: Let_def)
    show ?thesis
    proof (cases "vmx \<and> \<not> isPid pid (mEcm s)")
      case hit: True
      then show ?thesis using "1.prems" True eq vmx pid
        by (auto simp: Let_def dest: ca_pid_le set_ecm_pid_touched)
    next
      case miss: False
      obtain b1 where b1: "rd packet (?i + 1) = Some b1"
        using "1.prems" True eq vmx pid miss
        by (cases "rd packet (?i + 1)") (auto simp: Let_def split: if_splits)
      have "pmt_es_descriptors junk packet idx el (off + unat b1 + 2) (found \<or> vmx) s = Some (st, f, s')"
        using "1.prems" True eq vmx pid miss b1 by (simp add: Let_def split: if_splits)
      from "1.IH" [OF True refl vmx pid miss b1 this] show ?thesis by auto
    qed
  qed
qed

lemma pmt_stream_loop_touched:
  "pmt_stream_loop junk packet base p rem found s = Some (f, s') \<Longrightarrow>
     ecm_touched f s s' \<and> (found \<longrightarrow> f)"
proof (induction junk packet base p rem found s arbitrary: f s' rule: pmt_stream_loop.induct)
  case (1 junk packet base p rem found s)
  note eq = pmt_stream_loop.simps [of junk packet base p rem found s]
  show ?case
  proof (cases "rem > 4")
    case False
    then show ?thesis using "1.prems" eq by auto
  next
    case True
    then have nr: "\<not> \<not> rem > 4" by simp
    obtain t h l where rds: "rd packet (base + p) = Some t" "rd packet (base + p + 3) = Some h"
        "rd packet (base + p + 4) = Some l"
      using "1.prems" True eq
      by (cases "rd packet (base + p)"; cases "rd packet (base + p + 3)"; cases "rd packet (base + p + 4)") auto
    let ?el = "be16 h l AND 0xFFF"
    obtain st f1 s1 where es: "pmt_es_descriptors junk packet (base + (p + 5)) (unat ?el) 0 found s = Some (st, f1, s1)"
      using "1.prems" True eq rds
      by (cases "pmt_es_descriptors junk packet (base + (p + 5)) (unat ?el) 0 found s") (auto simp: Let_def)
    note t1 = pmt_es_descriptors_touched [OF es]
    show ?thesis
    proof (cases st)
      case True
      then show ?thesis using "1.prems" \<open>rem > 4\<close> eq rds es t1 by (simp add: Let_def)
    next
      case False
      have "pmt_stream_loop junk packet base (p + 5 + unat ?el) (rem - (?el + 5)) f1 s1 = Some (f, s')"
        using "1.prems" \<open>rem > 4\<close> eq rds es False by (simp add: Let_def)
      from "1.IH" [OF nr _ refl refl refl refl _ refl es refl refl False this] rds
      have "ecm_touched f s1 s' \<and> (f1 \<longrightarrow> f)" by simp
      then show ?thesis using t1 ecm_touched_trans by blast
    qed
  qed
qed

section \<open>What the parsers change\<close>

lemma pat_update_effect:
  "mPidValid (mPat s) \<Longrightarrow>
     opt_all (\<lambda>s'. psi_frame s s' \<and> mParserState s' = mParserState s \<and> mIsClearStream s' = mIsClearStream s \<and>
       mPid (mPat s') = mPid (mPat s) \<and> mPidValid (mPat s') \<and> mVersionValid (mPat s') \<and>
       \<not> mPidValid (mEcm s') \<and> mPidValid (mPmt s') \<and> mPid (mPmt s') \<le> PSI_MAX_PID)
     (pat_update E packet offs v s)"
proof -
  assume v: "mPidValid (mPat s)"
  have pid: "opt_all (\<lambda>pid. pid \<le> PSI_MAX_PID)
    (if be16 b13 b14 AND 0x1FFF = 0 then do {
         h \<leftarrow> rd packet (offs + 17); l \<leftarrow> rd packet (offs + 18); Some (be16 h l AND 0x1FFF) }
       else do {
         h \<leftarrow> rd packet (offs + 15); l \<leftarrow> rd packet (offs + 16); Some (be16 h l AND 0x1FFF) })" for b13 b14
    by (intro opt_intros and_1FFF_le)
  show ?thesis
    unfolding pat_update_def Let_def
    by (intro opt_all_bind opt_all_Some)
       (use v in \<open>simp add: psi_frame_def setPid_def setVer_def PidInfo_reset_def setPacket_def
          opt_allD [OF pid]\<close>)
qed

lemma parsePat_cases:
  assumes "parsePat E packet s = Some (a, s')"
  obtains "s' = s" "a \<in> {ERROR, IGNORE}"
  | offs v where "pat_update E packet offs v s = Some s'" "mPidValid (mPat s)" "a = IGNORE"
proof -
  have "opt_all (\<lambda>(a, s'). s' = s \<and> a \<in> {ERROR, IGNORE} \<or>
          (\<exists>offs v. pat_update E packet offs v s = Some s') \<and> mPidValid (mPat s) \<and> a = IGNORE)
        (parsePat E packet s)"
    unfolding parsePat_def
    by (intro opt_intros; auto intro: opt_allI simp: isPid_def split: if_splits)
  from opt_allD [OF this assms] that show thesis by auto
qed

lemma parsePmt_cases:
  assumes "parsePmt E packet s = Some (a, s')"
  obtains "s' = s" "a = ERROR"
  | offs sl dl v where "pmt_update E packet offs sl dl v s = Some (a, s')" "mPidValid (mPmt s)"
proof -
  have "opt_all (\<lambda>(a, s'). s' = s \<and> a = ERROR \<or>
          (\<exists>offs sl dl v. pmt_update E packet offs sl dl v s = Some (a, s')) \<and> mPidValid (mPmt s))
        (parsePmt E packet s)"
    unfolding parsePmt_def
    by (intro opt_intros; auto intro!: opt_allI simp: isPid_def split: if_splits)
  from opt_allD [OF this assms] that show thesis by auto
qed

lemma pmt_finish_effect:
  "pmt_finish packet f s = Some (a, s') \<Longrightarrow>
     psi_frame s s' \<and> mParserState s' = mParserState s \<and> mPat s' = mPat s \<and> mEcm s' = mEcm s \<and>
     mIsClearStream s' = (\<not> f) \<and> mVersionValid (mPmt s') = mVersionValid (mPmt s) \<and>
     mPidValid (mPmt s') = mPidValid (mPmt s) \<and> mPid (mPmt s') = mPid (mPmt s)"
  by (auto simp: pmt_finish_def bind_eq_Some_conv Let_def setPacket_def psi_frame_def split: if_splits)

lemma pmt_update_effect:
  assumes "pmt_update E packet offs sl dl v s = Some (a, s')" "mPidValid (mPmt s)"
  shows "psi_frame s s' \<and> mParserState s' = mParserState s \<and> mPat s' = mPat s \<and> mVersionValid (mPmt s') \<and>
     mPidValid (mPmt s') \<and> mPid (mPmt s') = mPid (mPmt s) \<and>
     (mEcm s' = mEcm s \<or>
      \<not> mIsClearStream s' \<and> mPidValid (mEcm s') \<and> mPid (mEcm s') \<le> PSI_MAX_PID)"
proof -
  let ?s1 = "s\<lparr>mPmt := snd (setVer v (mPmt s))\<rparr>"
  from assms(1) obtain r s2 where prog: "pmt_program_loop (TS_PACKAGE_SIZE E) packet dl (offs + 17) False ?s1 = Some (r, s2)"
    by (auto simp: pmt_update_def Let_def bind_eq_Some_conv)
  show ?thesis
  proof (cases r)
    case None
    then have "s' = ?s1" using assms(1) prog pmt_program_loop_touched [OF prog]
      by (auto simp: pmt_update_def Let_def)
    then show ?thesis using assms(2) by (simp add: psi_frame_def setVer_def)
  next
    case (Some f)
    with assms(1) prog obtain f' s3 where
      str: "pmt_stream_loop (stack_junk E) packet (offs + 17 + unat dl) 0 (sl - 9 - dl) f s2 = Some (f', s3)"
      and fin: "pmt_finish packet f' s3 = Some (a, s')"
      by (auto simp: pmt_update_def Let_def bind_eq_Some_conv)
    have "ecm_touched f ?s1 s2" using pmt_program_loop_touched [OF prog] Some by simp
    then have t: "ecm_touched f' ?s1 s3"
      using pmt_stream_loop_touched [OF str] ecm_touched_trans by blast
    show ?thesis using pmt_finish_effect [OF fin] t assms(2)
      by (auto simp: ecm_touched_def psi_frame_def setVer_def)
  qed
qed

text \<open>The ECM parsers keep everything but the ECM data.\<close>

definition ecm_frame :: "PSIParser \<Rightarrow> PSIParser \<Rightarrow> bool" where
  "ecm_frame s s' \<longleftrightarrow>
     psi_frame s s' \<and> mParserState s' = mParserState s \<and> mPat s' = mPat s \<and> mPmt s' = mPmt s \<and>
     mIsClearStream s' = mIsClearStream s \<and>
     mPid (mEcm s') = mPid (mEcm s) \<and> mPidValid (mEcm s') = mPidValid (mEcm s)"

lemma ecm_start_effect: "opt_all (\<lambda>(a, s'). ecm_frame s s') (ecm_start packet tb rem v s)"
  unfolding ecm_start_def
  by (intro opt_intros) (simp_all add: ecm_frame_def psi_frame_def setVer_def resetCollectionState_def)

lemma collectEcm_effect: "opt_all (\<lambda>(a, s'). ecm_frame s s') (collectEcm E packet s)"
  unfolding collectEcm_def
  by (intro opt_intros) (simp_all add: ecm_frame_def psi_frame_def setVer_def resetCollectionState_def)

lemma parseEcm_effect: "opt_all (\<lambda>(a, s'). ecm_frame s s') (parseEcm E packet s)"
  unfolding parseEcm_def
  by (intro opt_intros ecm_start_effect collectEcm_effect) (simp_all add: ecm_frame_def)

lemma pmt_transition_frame:
  "psi_frame s (pmt_transition s) \<and> mPat (pmt_transition s) = mPat s \<and>
   mIsClearStream (pmt_transition s) = mIsClearStream s"
  by (simp add: pmt_transition_def psi_frame_def split: PsiParserState_t.split)

lemma psi_frame_state [simp]: "psi_frame s (s'\<lparr>mParserState := x\<rparr>) = psi_frame s s'"
  by (simp add: psi_frame_def)

lemma parseTsPacket_frame: "opt_all (\<lambda>(a, s'). psi_frame s s') (parseTsPacket E packet s)"
proof -
  have pat: "psi_frame s s1" if "parsePat E packet s = Some (a, s1)" for a s1
    using that by (cases rule: parsePat_cases) (auto dest: opt_allD [OF pat_update_effect])
  have pmt: "psi_frame s s1" if "parsePmt E packet s = Some (a, s1)" for a s1
    using that by (cases rule: parsePmt_cases) (auto dest: pmt_update_effect)
  have ecm: "psi_frame s s1" if "parseEcm E packet s = Some (a, s1)" for a s1
    using opt_allD [OF parseEcm_effect that] by (simp add: ecm_frame_def)
  show ?thesis
    unfolding parseTsPacket_def
    by (intro opt_intros)
       (auto intro: opt_allI dest: pat pmt ecm
             intro: psi_frame_trans [OF _ pmt_transition_frame [THEN conjunct1]])
qed

section \<open>Invariants of the parser\<close>

text \<open>
  A predicate that the packet parser and the publication keep holds after the packet loop; one that
  the administrative operations keep too holds after every step.
\<close>

locale psi_loop_invariant =
  fixes E :: "'e psi_env_scheme" and I :: "PSIParser \<Rightarrow> bool"
  assumes I_packet: "I s \<Longrightarrow> parseTsPacket E p s = Some (a, s') \<Longrightarrow> I s'"
    and I_publish: "I s \<Longrightarrow> publish_drm s = Some s' \<Longrightarrow> I s'"
    and I_stream: "I s \<Longrightarrow> I (s\<lparr>static_packet := p, mTsStream := t\<rparr>)"
begin

lemma I_loop_aux: "packet_loop E' s = Some s' \<Longrightarrow> E' = E \<longrightarrow> I s \<longrightarrow> I s'"
proof (erule packet_loop.raw_induct [rotated, where P = "\<lambda>E' s s'. E' = E \<longrightarrow> I s \<longrightarrow> I s'"])
  fix f :: "'e psi_env_scheme \<Rightarrow> PSIParser \<Rightarrow> PSIParser option" and E' s s'
  assume IH: "\<And>E' s s'. f E' s = Some s' \<Longrightarrow> E' = E \<longrightarrow> I s \<longrightarrow> I s'"
    and eq: "Option.bind (getNextPacket E' (static_packet s) (mTsStream s)) (\<lambda>(st, pkt, ts).
       let s1 = s\<lparr>static_packet := pkt, mTsStream := ts\<rparr> in
       if st = NOT_ENOUGH_DATA then Some s1
       else if st = DATA_CC_ERROR then Some s1
       else Option.bind (parseTsPacket E' pkt s1) (\<lambda>(action, s2).
         Option.bind (if action \<in> {NEW_ECM, NEW_ECMT, NEW_PAT_PMT} then publish_drm s2 else Some s2)
           (f E'))) = Some s'"
  show "E' = E \<longrightarrow> I s \<longrightarrow> I s'"
  proof (intro impI)
    assume E: "E' = E" and I: "I s"
    note I1 = I_stream [OF I]
    have "opt_all I (Option.bind (getNextPacket E (static_packet s) (mTsStream s)) (\<lambda>(st, pkt, ts).
       let s1 = s\<lparr>static_packet := pkt, mTsStream := ts\<rparr> in
       if st = NOT_ENOUGH_DATA then Some s1
       else if st = DATA_CC_ERROR then Some s1
       else Option.bind (parseTsPacket E pkt s1) (\<lambda>(action, s2).
         Option.bind (if action \<in> {NEW_ECM, NEW_ECMT, NEW_PAT_PMT} then publish_drm s2 else Some s2)
           (f E))))"
      by (intro opt_intros)
         (auto intro!: opt_allI I1 dest!: IH split: if_splits dest: I_packet [OF I1] I_publish)
    then show "I s'" using eq E by (auto dest: opt_allD)
  qed
qed

lemma I_loop: "packet_loop E s = Some s' \<Longrightarrow> I s \<Longrightarrow> I s'"
  using I_loop_aux by blast

lemma I_stream2: "I s \<Longrightarrow> I (s\<lparr>mTsStream := t\<rparr>)"
  using I_stream [of s _ "static_packet s"] by simp

lemma I_chunk: "I s \<Longrightarrow> processChunk E c s = Some s' \<Longrightarrow> I s'"
  unfolding processChunk_def by (auto split: if_splits elim!: I_loop intro!: I_stream2)

end

locale psi_invariant = psi_loop_invariant E I
  for E :: "'e psi_env_scheme" and I :: "PSIParser \<Rightarrow> bool" +
  assumes I_queue: "I s \<Longrightarrow> I (s\<lparr>mQueue := q\<rparr>)"
    and I_counter: "I s \<Longrightarrow> I (s\<lparr>mPacketCounter := n\<rparr>)"
    and I_channel: "I s \<Longrightarrow> I (s\<lparr>mChannel := c\<rparr>)"
    and I_running: "I s \<Longrightarrow> I (s\<lparr>mPsiParserRunning := b\<rparr>)"
    and I_eos: "I s \<Longrightarrow> I (PSIParser_onEndOfStream s)"
    and I_open: "I s \<Longrightarrow> I (PSIParser_onOpen s)"
begin

lemma I_clear: "I s \<Longrightarrow> I (clearQueue s)"
  unfolding clearQueue_def by (intro I_counter I_queue)

lemma I_post: "I s \<Longrightarrow> I (PSIParser_post E ch c s)"
  unfolding PSIParser_post_def Let_def
  by (auto intro!: I_queue I_channel I_clear split: option.split)

lemma I_thread: "I s \<Longrightarrow> threadLoop_turn E s = Some s' \<Longrightarrow> I s'"
  unfolding threadLoop_turn_def
  by (auto split: option.splits prod.splits elim!: I_chunk [rotated] intro!: I_counter I_queue)

lemma I_step: "I s \<Longrightarrow> psi_step E s e = Some s' \<Longrightarrow> I s'"
  by (cases e)
     (auto simp: PSIParser_notifyConfigurationChanged_def
           intro: I_post I_running I_eos I_open dest: I_thread)

sublocale psi: step_invariant "psi_step E" I
  by unfold_locales (rule I_step)

end

section \<open>The state GOT\_ECM is never reached\<close>

definition psi_state_ok :: "PSIParser \<Rightarrow> bool" where
  "psi_state_ok s \<longleftrightarrow>
     mPidValid (mPat s) \<and> mPid (mPat s) = 0 \<and> mParserState s \<noteq> GOT_ECM \<and>
     (mParserState s = NEEDS_PAT \<longrightarrow> \<not> mVersionValid (mPat s)) \<and>
     (mParserState s = NEEDS_PMT \<longrightarrow> \<not> mPidValid (mEcm s)) \<and>
     (mPidValid (mEcm s) \<longrightarrow> mPid (mEcm s) \<le> PSI_MAX_PID)"

lemma valid_pid_not_invalid: "pid \<le> PSI_MAX_PID \<Longrightarrow> pid \<noteq> PSI_INVALID_PID"
  by (auto simp: PSI_MAX_PID_def PSI_INVALID_PID_def)

lemma psi_state_pat:
  assumes ok: "psi_state_ok s" and pat: "parsePat E packet s = Some (a, s1)"
  shows "psi_state_ok
    (if mParserState s1 = NEEDS_PAT \<and> mVersionValid (mPat s1) \<and> getPid (mPmt s1) \<noteq> PSI_INVALID_PID
     then s1\<lparr>mParserState := NEEDS_PMT\<rparr> else s1)"
  using pat
proof (cases rule: parsePat_cases)
  case 1
  then show ?thesis using ok by (auto simp: psi_state_ok_def)
next
  case (2 offs v)
  from opt_allD [OF pat_update_effect [OF 2(2)] 2(1)] show ?thesis
    using ok valid_pid_not_invalid by (auto simp: psi_state_ok_def getPid_def)
qed

lemma psi_state_pmt:
  assumes ok: "psi_state_ok s" and pmt: "parsePmt E packet s = Some (a, s1)"
  shows "psi_state_ok (if \<not> mVersionValid (mPmt s1) then s1 else pmt_transition s1)"
  using pmt
proof (cases rule: parsePmt_cases)
  case 1
  then show ?thesis using ok
    by (auto simp: psi_state_ok_def pmt_transition_def getPid_def PidInfo_reset_def split: PsiParserState_t.split)
next
  case (2 offs sl dl v)
  from pmt_update_effect [OF 2] show ?thesis
    using ok valid_pid_not_invalid
    by (auto simp: psi_state_ok_def pmt_transition_def getPid_def PidInfo_reset_def split: PsiParserState_t.split)
qed

lemma psi_state_ecm:
  assumes ok: "psi_state_ok s" and pid: "isPid pid (mEcm s)"
    and ecm: "parseEcm E packet s = Some (a, s1)"
  shows "psi_state_ok
    (if mParserState s1 = NEEDS_PMT \<and> mVersionValid (mEcm s1) then s1\<lparr>mParserState := GOT_ECM\<rparr> else s1)"
  using opt_allD [OF parseEcm_effect ecm] ok pid
  by (auto simp: psi_state_ok_def ecm_frame_def isPid_def split: if_splits)

lemma psi_state_packet:
  assumes "psi_state_ok s"
  shows "opt_all (\<lambda>(a, s'). psi_state_ok s') (parseTsPacket E packet s)"
  unfolding parseTsPacket_def
  by (intro opt_intros; clarify?;
      (erule psi_state_pat [OF assms] | erule psi_state_pmt [OF assms] | erule (1) psi_state_ecm [OF assms]
       | rule opt_allI, simp add: assms))

interpretation psi_states: psi_invariant E psi_state_ok for E :: "'e psi_env_scheme"
proof unfold_locales
  fix s s' :: PSIParser and p a
  show "psi_state_ok s \<Longrightarrow> parseTsPacket E p s = Some (a, s') \<Longrightarrow> psi_state_ok s'"
    using opt_allD [OF psi_state_packet, of s E p "(a, s')"] by simp
  show "psi_state_ok s \<Longrightarrow> publish_drm s = Some s' \<Longrightarrow> psi_state_ok s'"
    by (auto simp: publish_drm_def bind_eq_Some_conv psi_state_ok_def split: if_splits)
qed (auto simp: psi_state_ok_def PSIParser_onEndOfStream_def PSIParser_onOpen_def Let_def
        resetCollectionState_def clearQueue_def PidInfo_reset_def setPid_def PSI_MAX_PID_def)

text \<open>
  C25: the parser state \<open>GOT_ECM\<close> is unreachable: whatever packets arrive and however channel
  switches, notifications and ends of stream interleave, no run of the parser enters it. (The
  transition after an ECM tests for \<open>NEEDS_PMT\<close>, in which no ECM PID is known yet.)
\<close>

theorem got_ecm_unreachable:
  assumes "run_opt (psi_step E) (PSIParser_init E) es = Some s"
  shows "mParserState s \<noteq> GOT_ECM"
proof -
  have "psi_state_ok (PSIParser_init E)"
    by (simp add: psi_state_ok_def PSIParser_init_def Let_def PidInfo_new_def PSI_MAX_PID_def)
  from psi_states.psi.run_inv [OF this assms] show ?thesis by (simp add: psi_state_ok_def)
qed

theorem got_ecm_unreachable_witness:
  "\<exists>s. run_opt (psi_step (psi_env_list 188 188)) (PSIParser_init (psi_env_list 188 188))
         [Ev_open, Ev_notify CONFIG_F_FCC_STREAM_INFO_ECM [], Ev_post (Some ''a'') [], Ev_eos] = Some s \<and>
       mParserState s \<noteq> GOT_ECM"
proof -
  obtain s where s: "run_opt (psi_step (psi_env_list 188 188)) (PSIParser_init (psi_env_list 188 188))
      [Ev_open, Ev_notify CONFIG_F_FCC_STREAM_INFO_ECM [], Ev_post (Some ''a'') [], Ev_eos] = Some s"
    by simp
  show ?thesis using s got_ecm_unreachable [OF s] by blast
qed

section \<open>Publication\<close>

text \<open>\<open>published s\<close>: what was published plus what the parser may still publish.\<close>

definition published :: "PSIParser \<Rightarrow> nat" where
  "published s = length (drm0_values s) + (if mPsiParserRunning s then 1 else 0)"

interpretation psi_published: psi_loop_invariant E "\<lambda>s. published s = n"
  for E :: "'e psi_env_scheme" and n
proof unfold_locales
  fix s s' :: PSIParser and p a
  show "published s = n \<Longrightarrow> parseTsPacket E p s = Some (a, s') \<Longrightarrow> published s' = n"
    using opt_allD [OF parseTsPacket_frame, of E p s "(a, s')"] by (simp add: psi_frame_def published_def)
  show "published s = n \<Longrightarrow> publish_drm s = Some s' \<Longrightarrow> published s' = n"
    by (auto simp: publish_drm_def bind_eq_Some_conv published_def split: if_splits)
qed (simp add: published_def)

definition enables :: "psi_event \<Rightarrow> bool" where
  "enables e \<longleftrightarrow> e = Ev_notify CONFIG_F_FCC_STREAM_INFO_ECM []"

lemma published_post [simp]: "published (PSIParser_post E ch c s) = published s"
  by (cases ch) (simp_all add: PSIParser_post_def published_def clearQueue_def Let_def)

lemma published_notify:
  "published (PSIParser_notifyConfigurationChanged v x s) \<le>
     published s + (if enables (Ev_notify v x) then 1 else 0)"
  by (simp add: PSIParser_notifyConfigurationChanged_def published_def enables_def)

lemma published_open [simp]: "published (PSIParser_onOpen s) = published s"
  by (simp add: PSIParser_onOpen_def published_def resetCollectionState_def clearQueue_def Let_def)

lemma published_thread: "threadLoop_turn E s = Some s' \<Longrightarrow> published s' = published s"
  by (auto simp: threadLoop_turn_def split: option.splits prod.splits
           dest!: psi_published.I_chunk [OF refl]) (simp_all add: published_def)

lemma published_step:
  "psi_step E s e = Some s' \<Longrightarrow> published s' \<le> published s + (if enables e then 1 else 0)"
proof (cases e)
  case (Ev_notify v x)
  then show "psi_step E s e = Some s' \<Longrightarrow> ?thesis" using published_notify [of v x s] by auto
next
  case Ev_eos
  then show "psi_step E s e = Some s' \<Longrightarrow> ?thesis"
    by (auto simp: PSIParser_onEndOfStream_def published_def)
qed (auto dest: published_thread)

lemma published_run:
  "run_opt (psi_step E) s es = Some s' \<Longrightarrow> published s' \<le> published s + length (filter enables es)"
proof (induction es arbitrary: s)
  case (Cons e es)
  then obtain s1 where s1: "psi_step E s e = Some s1" "run_opt (psi_step E) s1 es = Some s'"
    by (auto split: option.splits)
  show ?case using Cons.IH [OF s1(2)] published_step [OF s1(1)] by (auto split: if_splits)
qed simp

text \<open>
  C19: the protection data of a channel is published at most once per request: in every run the
  number of values given to \<open>drm0\<close> is at most the number of notifications that clear
  \<open>ecm0\<close>, which is what a channel switch does.
\<close>

theorem drm_published_once:
  assumes "run_opt (psi_step E) (PSIParser_init E) es = Some s"
  shows "length (drm0_values s) \<le> length (filter enables es)"
  using published_run [OF assms] by (simp add: published_def PSIParser_init_def Let_def)

theorem drm_published_once_witness:
  "\<exists>s. run_opt (psi_step (psi_env_list 188 188)) (PSIParser_init (psi_env_list 188 188))
         [Ev_notify CONFIG_F_FCC_STREAM_INFO_ECM [], Ev_open, Ev_post None [], Ev_thread] = Some s \<and>
       length (drm0_values s) \<le> 1"
proof -
  let ?E = "psi_env_list 188 188"
  have "\<exists>s. run_opt (psi_step ?E) (PSIParser_init ?E)
      [Ev_notify CONFIG_F_FCC_STREAM_INFO_ECM [], Ev_open, Ev_post None [], Ev_thread] = Some s"
    by (simp add: threadLoop_turn_def PSIParser_post_def PSIParser_onOpen_def Let_def
          resetCollectionState_def clearQueue_def)
  then obtain s where s: "run_opt (psi_step ?E) (PSIParser_init ?E)
      [Ev_notify CONFIG_F_FCC_STREAM_INFO_ECM [], Ev_open, Ev_post None [], Ev_thread] = Some s" by blast
  show ?thesis using s drm_published_once [OF s] by (auto simp: enables_def)
qed

end
