(* ===== verification/Psi_Stream.thy ===== *)
theory Psi_Stream
  imports Psi_Reach
begin

text \<open>
  The packet loop of \<open>processChunk\<close> refines the transport stream seen as a sequence of packets.
\<close>

section \<open>Chunks as a sequence of packets\<close>

text \<open>What the packet loop does with one packet of the stream.\<close>

definition handle_packet :: "'e psi_env_scheme \<Rightarrow> bytes \<Rightarrow> PSIParser \<Rightarrow> PSIParser option" where
  "handle_packet E pkt s =
     Option.bind (parseTsPacket E pkt s) (\<lambda>(action, s2).
       if action \<in> {NEW_ECM, NEW_ECMT, NEW_PAT_PMT} then publish_drm s2 else Some s2)"

fun feed :: "'e psi_env_scheme \<Rightarrow> (bytes \<times> TSStream) list \<Rightarrow> PSIParser \<Rightarrow> PSIParser option" where
  "feed E [] s = Some s"
| "feed E ((p, t) # ps) s =
     Option.bind (handle_packet E p (s\<lparr>static_packet := p, mTsStream := t\<rparr>)) (feed E ps)"

lemma publish_drm_stream:
  "publish_drm s = Some s' \<Longrightarrow> mTsStream s' = mTsStream s \<and> static_packet s' = static_packet s"
  by (auto simp: publish_drm_def bind_eq_Some_conv split: if_splits)

lemma handle_packet_stream:
  assumes "handle_packet E p s = Some s'"
  shows "mTsStream s' = mTsStream s \<and> static_packet s' = static_packet s"
proof -
  obtain a s1 where s1: "parseTsPacket E p s = Some (a, s1)"
      "(if a \<in> {NEW_ECM, NEW_ECMT, NEW_PAT_PMT} then publish_drm s1 else Some s1) = Some s'"
    using assms by (auto simp: handle_packet_def bind_eq_Some_conv)
  have "psi_frame s s1" using opt_allD [OF parseTsPacket_frame s1(1)] by simp
  then show ?thesis using s1(2) publish_drm_stream [of s1 s'] by (auto simp: psi_frame_def split: if_splits)
qed

lemma packet_loop_unfold:
  assumes "getNextPacket E (static_packet s) (mTsStream s) = Some (TS_OK, p, t)"
  shows "packet_loop E s =
           Option.bind (handle_packet E p (s\<lparr>static_packet := p, mTsStream := t\<rparr>)) (packet_loop E)"
  by (subst packet_loop.simps) (simp add: assms handle_packet_def Option.bind_assoc split_def)

lemma packet_loop_starved:
  assumes "getNextPacket E (static_packet s) (mTsStream s) = Some (NOT_ENOUGH_DATA, static_packet s, mTsStream s)"
  shows "packet_loop E s = Some s"
  by (subst packet_loop.simps) (simp add: assms)

lemma packet_loop_feed:
  assumes E: "ts_env_ok E" and t: "ts_ok E t"
    and sync: "\<forall>p \<in> set (ts_slices (TS_PACKAGE_SIZE E) (ts_pending t)). packet_status p = TS_OK"
  shows "\<exists>tss t'. length tss = length (ts_slices (TS_PACKAGE_SIZE E) (ts_pending t)) \<and> ts_ok E t' \<and>
      ts_pending t' = drop (length tss * TS_PACKAGE_SIZE E) (ts_pending t) \<and>
      (\<forall>s. mTsStream s = t \<longrightarrow> length (static_packet s) = TS_PACKAGE_SIZE E \<longrightarrow>
         packet_loop E s = map_option (mTsStream_update (\<lambda>_. t'))
           (feed E (zip (ts_slices (TS_PACKAGE_SIZE E) (ts_pending t)) tss) s))"
  using t sync
proof (induction "length (ts_pending t)" arbitrary: t rule: less_induct)
  case less
  let ?n = "TS_PACKAGE_SIZE E" and ?data = "ts_pending t"
  have n: "0 < ?n" using E by (simp add: ts_env_ok_def)
  show ?case
  proof (cases "length ?data < ?n")
    case True
    then show ?thesis
      using getNextPacket_starved [OF E less.prems(1)] less.prems(1)
      by (intro exI [of _ "[]"] exI [of _ t])
         (auto simp: ts_slices_short packet_loop_starved)
  next
    case False
    let ?d = "take ?n ?data"
    have sl: "ts_slices ?n ?data = ?d # ts_slices ?n (drop ?n ?data)"
      using False n by (intro ts_slices_Cons) simp_all
    obtain t1 where t1: "\<forall>pkt. length pkt = ?n \<longrightarrow> getNextPacket E pkt t = Some (packet_status ?d, ?d, t1)"
        "ts_ok E t1" "ts_pending t1 = drop ?n ?data"
      using getNextPacket_cut [OF E less.prems(1)] False by auto
    have ok: "packet_status ?d = TS_OK" and
      rest: "\<forall>p \<in> set (ts_slices ?n (ts_pending t1)). packet_status p = TS_OK"
      using less.prems(2) sl t1(3) by auto
    have "length (ts_pending t1) < length ?data" using t1(3) n False by simp
    from less.hyps [OF this t1(2) rest] obtain tss t' where
      tss: "length tss = length (ts_slices ?n (ts_pending t1))" "ts_ok E t'"
           "ts_pending t' = drop (length tss * ?n) (ts_pending t1)"
      and run: "\<And>s. mTsStream s = t1 \<Longrightarrow> length (static_packet s) = ?n \<Longrightarrow>
         packet_loop E s = map_option (mTsStream_update (\<lambda>_. t'))
           (feed E (zip (ts_slices ?n (ts_pending t1)) tss) s)"
      by blast
    have "packet_loop E s = map_option (mTsStream_update (\<lambda>_. t'))
            (feed E (zip (ts_slices ?n ?data) (t1 # tss)) s)"
      if S: "mTsStream s = t" "length (static_packet s) = ?n" for s
    proof -
      let ?s1 = "s\<lparr>static_packet := ?d, mTsStream := t1\<rparr>"
      have "packet_loop E s = Option.bind (handle_packet E ?d ?s1) (packet_loop E)"
        using t1(1) S ok by (intro packet_loop_unfold) simp
      also have "\<dots> = Option.bind (handle_packet E ?d ?s1) (\<lambda>s2. map_option (mTsStream_update (\<lambda>_. t'))
            (feed E (zip (ts_slices ?n (ts_pending t1)) tss) s2))"
      proof (rule Option.bind_cong [OF refl])
        fix s2 assume "handle_packet E ?d ?s1 = Some s2"
        from handle_packet_stream [OF this] show "packet_loop E s2 = map_option (mTsStream_update (\<lambda>_. t'))
            (feed E (zip (ts_slices ?n (ts_pending t1)) tss) s2)"
          using False by (intro run) simp_all
      qed
      also have "\<dots> = map_option (mTsStream_update (\<lambda>_. t')) (feed E (zip (ts_slices ?n ?data) (t1 # tss)) s)"
        by (simp add: sl t1(3) map_option_bind comp_def)
      finally show ?thesis .
    qed
    then show ?thesis using tss t1(3)
      by (intro exI [of _ "t1 # tss"] exI [of _ t']) (auto simp: sl add.commute)
  qed
qed

lemma ts_slices_rest: "0 < n \<Longrightarrow> length (drop (length (ts_slices n data) * n) data) < n"
  by (simp add: ts_slices_def minus_div_mult_eq_mod)

lemma feed_stream:
  "map_option (mTsStream_update (\<lambda>_. t')) (feed E ps (s\<lparr>mTsStream := t0\<rparr>)) =
   map_option (mTsStream_update (\<lambda>_. t')) (feed E ps s)"
  by (cases "(E, ps, s)" rule: feed.cases) simp_all

text \<open>
  C4: the packet loop cuts the stream at the packet boundaries and loses nothing: if every whole
  packet of the pending bytes followed by the new chunk starts with the sync byte, processing the
  chunk returns and is handling exactly these packets, in order; the bytes behind the last whole
  packet stay pending and the window is ready for the next chunk.
\<close>

theorem processChunk_packets:
  assumes E: "ts_env_ok E" and t: "ts_ok E (mTsStream s)" "needsNewChunk (mTsStream s)"
    and c: "length c = BUFFER_CHUNK_SIZE E" and p: "length (static_packet s) = TS_PACKAGE_SIZE E"
    and sync: "\<forall>p \<in> set (ts_slices (TS_PACKAGE_SIZE E) (ts_pending (mTsStream s) @ c)). packet_status p = TS_OK"
  shows "\<exists>tss t'. length tss = length (ts_slices (TS_PACKAGE_SIZE E) (ts_pending (mTsStream s) @ c)) \<and>
      ts_ok E t' \<and> needsNewChunk t' \<and>
      ts_pending t' = drop (length tss * TS_PACKAGE_SIZE E) (ts_pending (mTsStream s) @ c) \<and>
      processChunk E c s = map_option (mTsStream_update (\<lambda>_. t'))
        (feed E (zip (ts_slices (TS_PACKAGE_SIZE E) (ts_pending (mTsStream s) @ c)) tss) s)"
proof -
  let ?n = "TS_PACKAGE_SIZE E" and ?data = "ts_pending (mTsStream s) @ c"
  obtain t0 where t0: "insertChunk E c (mTsStream s) = (True, t0)" "ts_ok E t0" "ts_pending t0 = ?data"
    using insertChunk_pending [OF E t c] by blast
  from packet_loop_feed [OF E t0(2)] sync t0(3) obtain tss t' where
    r: "length tss = length (ts_slices ?n ?data)" "ts_ok E t'" "ts_pending t' = drop (length tss * ?n) ?data"
    and run: "\<And>s. mTsStream s = t0 \<Longrightarrow> length (static_packet s) = ?n \<Longrightarrow>
       packet_loop E s = map_option (mTsStream_update (\<lambda>_. t')) (feed E (zip (ts_slices ?n ?data) tss) s)"
    by auto
  have "length (ts_pending t') < ?n"
    using ts_slices_rest [of ?n ?data] E unfolding r(1,3) by (simp only: ts_env_ok_def)
  then have "needsNewChunk t'" using starved_needs_chunk [OF E r(2)] by simp
  moreover have "processChunk E c s = map_option (mTsStream_update (\<lambda>_. t'))
        (feed E (zip (ts_slices ?n ?data) tss) s)"
    using run [of "s\<lparr>mTsStream := t0\<rparr>"] t(2) t0(1) p by (simp add: processChunk_def feed_stream)
  ultimately show ?thesis using r by blast
qed

theorem processChunk_packets_witness:
  "\<exists>tss t'. length tss = 1 \<and> ts_pending t' = [0x47, 0x1F] \<and>
     processChunk (psi_env_list 4 6) [0x47, 0x1F, 0xFF, 0x10, 0x47, 0x1F] (PSIParser_init (psi_env_list 4 6)) =
     map_option (mTsStream_update (\<lambda>_. t'))
       (feed (psi_env_list 4 6) (zip [[0x47, 0x1F, 0xFF, 0x10]] tss) (PSIParser_init (psi_env_list 4 6)))"
proof -
  let ?E = "psi_env_list 4 6"
  let ?s = "PSIParser_init ?E" and ?c = "[0x47, 0x1F, 0xFF, 0x10, 0x47, 0x1F] :: bytes"
  have s: "mTsStream ?s = TSStream_init" "length (static_packet ?s) = 4"
    by (simp_all add: PSIParser_init_def Let_def)
  have e: "ts_env_ok ?E" by (simp add: ts_env_ok_def)
  have i: "ts_ok ?E TSStream_init" "ts_pending TSStream_init = []" "needsNewChunk TSStream_init"
    using ts_init_ok [OF e] by (simp_all add: needsNewChunk_def TSStream_init_def)
  have sl: "ts_slices 4 ?c = [[0x47, 0x1F, 0xFF, 0x10]]" by (simp add: ts_slices_def)
  have "\<forall>p \<in> set (ts_slices 4 ?c). packet_status p = TS_OK" by (simp add: sl packet_status_def)
  with processChunk_packets [OF e, of ?s ?c] s i obtain tss t' where
    "length tss = length (ts_slices 4 ?c)" "ts_pending t' = drop (length tss * 4) ?c"
    "processChunk ?E ?c ?s = map_option (mTsStream_update (\<lambda>_. t')) (feed ?E (zip (ts_slices 4 ?c) tss) ?s)"
    by auto
  then have "length tss = 1 \<and> ts_pending t' = [0x47, 0x1F] \<and>
    processChunk ?E ?c ?s = map_option (mTsStream_update (\<lambda>_. t')) (feed ?E (zip [[0x47, 0x1F, 0xFF, 0x10]] tss) ?s)"
    by (simp add: sl)
  then show ?thesis by blast
qed

end
