(* ===== verification/Psi_Tables.thy ===== *)
theory Psi_Tables
  imports Psi_Reach
begin

text \<open>
  The tables of the parser: entitlement control messages are reassembled from the packets they were
  cut into, and the reads of the program association table are inside the packet only for small
  offsets.
\<close>

section \<open>Reassembly of entitlement control messages\<close>

text \<open>
  A table as the head end sends it: table id, 12-bit length of what follows the first three bytes,
  version, and the vendor mark at byte 8. \<open>h\<close> is the four-byte packet header.
\<close>

definition ecm_table_ok :: "bytes \<Rightarrow> bool" where
  "ecm_table_ok T \<longleftrightarrow>
     13 \<le> length T \<and> length T \<le> 4098 \<and> (T ! 0 = 0x80 \<or> T ! 0 = 0x81) \<and>
     (push_bit 8 (ucast (T ! 1 AND 0x0F)) + ucast (T ! 2) + 3 :: u32) = word_of_nat (length T) \<and>
     take 5 (drop 8 T) = VMECM"

definition pad_to :: "nat \<Rightarrow> bytes \<Rightarrow> bytes" where
  "pad_to n d = d @ replicate (n - length d) 0xFF"

function ecm_rest :: "bytes \<Rightarrow> bytes \<Rightarrow> bytes list" where
  "ecm_rest h D = (if D = [] then [] else (h @ pad_to 184 (take 184 D)) # ecm_rest h (drop 184 D))"
  by pat_completeness auto
termination by (relation "measure (\<lambda>(h, D). length D)") auto

declare ecm_rest.simps [simp del]

definition ecm_packets :: "bytes \<Rightarrow> bytes \<Rightarrow> bytes list" where
  "ecm_packets h T = (h @ [0] @ pad_to 183 (take 183 T)) # ecm_rest h (drop 183 T)"

definition ecm_header :: "bytes \<Rightarrow> u32 \<Rightarrow> bool" where
  "ecm_header h pid \<longleftrightarrow> length h = 4 \<and> be16 (h ! 1) (h ! 2) AND 0x1FFF = pid \<and> h ! 3 AND 0x30 \<noteq> 0x30"

definition ecm_version :: "bytes \<Rightarrow> u32" where
  "ecm_version T = ucast (drop_bit 1 (T ! 5 AND 0x3E))"

lemma length_pad_to [simp]: "length d \<le> n \<Longrightarrow> length (pad_to n d) = n"
  by (simp add: pad_to_def)

lemma ecm_header_reads:
  assumes "ecm_header h pid"
  shows "GET_PID (h @ xs) = Some pid" "rd (h @ xs) 3 = Some (h ! 3)"
  using assms by (auto simp: ecm_header_def GET_PID_def rd_append)

text \<open>\<open>collecting T k s\<close>: the first \<open>k\<close> bytes of \<open>T\<close> have been collected.\<close>

definition collecting :: "bytes \<Rightarrow> nat \<Rightarrow> PSIParser \<Rightarrow> bool" where
  "collecting T k s \<longleftrightarrow>
     mEcmCollectionInProgress s \<and> 6 \<le> k \<and> k < length T \<and>
     mTempCollectedEcmData s = take k T @ replicate (length T - k) 0 \<and>
     mCollectedEcmDataExpected s = word_of_nat (length T) \<and> mCollectedDataLength s = word_of_nat k"

text \<open>What a completed table leaves behind.\<close>

definition collected :: "bytes \<Rightarrow> PSIParser \<Rightarrow> PSIParser \<Rightarrow> bool" where
  "collected T s s' \<longleftrightarrow>
     mEcmTable s' = T \<and> \<not> mEcmCollectionInProgress s' \<and>
     mEcm s' = (mEcm s)\<lparr>mVersion := ecm_version T, mVersionValid := True\<rparr>"

lemma collectEcm_step:
  assumes E: "TS_PACKAGE_SIZE E = 188" and h: "ecm_header h pid" and pid: "isPid pid (mEcm s)"
    and T: "length T \<le> 4098" and c: "collecting T k s" and new: "isNew (ecm_version T) (mEcm s)"
  shows "\<exists>a s'. parseEcm E (h @ pad_to 184 (take 184 (drop k T))) s = Some (a, s') \<and>
    (if length T \<le> k + 184 then a = NEW_ECMT \<and> collected T s s'
     else a = IGNORE \<and> collecting T (k + 184) s' \<and> mEcm s' = mEcm s)"
proof -
  let ?D = "take 184 (drop k T)" let ?p = "h @ pad_to 184 ?D"
  have k: "6 \<le> k" "k < length T" "mEcmCollectionInProgress s"
    and temp: "mTempCollectedEcmData s = take k T @ replicate (length T - k) 0"
    and ex: "mCollectedEcmDataExpected s = word_of_nat (length T)" "mCollectedDataLength s = word_of_nat k"
    using c by (simp_all add: collecting_def)
  have u: "unat (word_of_nat n :: u32) = n" if "n \<le> 4098" for n
    using that by (intro unat_of_nat_small) simp
  have need: "word_of_nat (length T) - word_of_nat k = (word_of_nat (length T - k) :: u32)"
    using k by (simp add: of_nat_diff)
  define m where "m = min 184 (length T - k)"
  have m: "length ?D = m" by (simp add: m_def)
  have "(if (184 :: u32) > word_of_nat (length T - k) then word_of_nat (length T - k) else 184) = word_of_nat m"
    using u [of "length T - k"] T by (auto simp: m_def word_less_nat_alt)
  then have rem: "(if (word_of_nat 188 - (4 + word_of_nat 0) :: u32) > word_of_nat (length T - k)
      then word_of_nat (length T - k) else word_of_nat 188 - (4 + word_of_nat 0)) = word_of_nat m"
    by (simp split: if_splits)
  have um: "unat (word_of_nat m :: u32) = m" "unat (word_of_nat k :: u32) = k"
    using u [of m] u [of k] k T by (simp_all add: m_def)
  have h4: "length h = 4" using h by (simp add: ecm_header_def)
  have b5: "rd (mTempCollectedEcmData s) 5 = Some (T ! 5)" using k by (simp add: temp rd_append)
  have d: "mem_read ?p (4 + 0) m = Some ?D"
  proof -
    have "mem_read (h @ xs @ ys) 4 (length xs) = Some xs" for xs ys
      using h4 by (simp add: mem_read_def)
    then have "mem_read ?p (4 + 0) (length ?D) = Some ?D" by (simp only: pad_to_def add_0_right)
    then show ?thesis by (simp only: m)
  qed
  have w: "mem_write (mTempCollectedEcmData s) k ?D = Some (take (k + m) T @ replicate (length T - (k + m)) 0)"
  proof -
    have "k + m \<le> length T" using k by (simp add: m_def)
    moreover have "take (k + m) T = take k T @ ?D"
      by (cases "length T - k \<le> 184") (simp_all add: m_def take_add)
    ultimately show ?thesis using k m by (simp add: mem_write_def temp)
  qed
  have reads: "GET_PID ?p = Some pid" "rd ?p 3 = Some (h ! 3)" "h ! 3 AND 0x30 \<noteq> 0x30"
    using ecm_header_reads [OF h] h by (auto simp: ecm_header_def)
  have len: "word_of_nat k + word_of_nat m = (word_of_nat (k + m) :: u32)" by simp
  have zero_less: "\<not> 184 < (0 :: nat)" by simp
  have eq: "(word_of_nat (k + m) = (word_of_nat (length T) :: u32)) \<longleftrightarrow> length T \<le> k + 184"
  proof -
    have "k + m \<le> length T" using k by (simp add: m_def)
    then have "unat (word_of_nat (k + m) :: u32) = k + m" "unat (word_of_nat (length T) :: u32) = length T"
      using u [of "k + m"] u [of "length T"] T by simp_all
    then have "(word_of_nat (k + m) = (word_of_nat (length T) :: u32)) \<longleftrightarrow> k + m = length T"
      by (metis (no_types))
    then show ?thesis using k by (auto simp: m_def)
  qed
  let ?s1 = "s\<lparr>mTempCollectedEcmData := take (k + m) T @ replicate (length T - (k + m)) 0,
                mCollectedDataLength := word_of_nat (k + m)\<rparr>"
  have "parseEcm E ?p s = collectEcm E ?p s"
    using reads pid k unfolding parseEcm_def by simp
  also have "\<dots> = (if length T \<le> k + 184
      then Some (NEW_ECMT, resetCollectionState (?s1\<lparr>mEcm := snd (setVer (ecm_version T) (mEcm s)),
             mEcmTable := take (k + m) T @ replicate (length T - (k + m)) 0\<rparr>))
      else Some (IGNORE, ?s1))"
    by (simp only: collectEcm_def Let_def reads Option.bind.bind_lunit pid simp_thms if_True if_False zero_less b5 need
          rem E um(2) ex um(1) d w len ecm_version_def)
       (use new in \<open>simp add: ex eq ecm_version_def del: of_nat_add\<close>)
  finally show ?thesis
    using k pid T
    by (auto simp: collected_def collecting_def resetCollectionState_def setVer_def isPid_def m_def ex
             split: if_splits)
qed

lemma strncmp_eq_take: "take (length cs) (drop i p) = cs \<Longrightarrow> strncmp_eq p i cs = Some True"
proof (induction cs arbitrary: i)
  case (Cons c cs)
  have i: "i < length p" using Cons.prems by (cases "i < length p") simp_all
  then have "drop i p = p ! i # drop (Suc i) p" by (simp add: Cons_nth_drop_Suc)
  with Cons i show ?case by simp
qed simp

lemma ecm_first:
  assumes E: "TS_PACKAGE_SIZE E = 188" and h: "ecm_header h pid" and pid: "isPid pid (mEcm s)"
    and T: "ecm_table_ok T" and idle: "\<not> mEcmCollectionInProgress s" and new: "isNew (ecm_version T) (mEcm s)"
  shows "\<exists>a s'. parseEcm E (h @ [0] @ pad_to 183 (take 183 T)) s = Some (a, s') \<and>
    (if length T \<le> 183 then a = NEW_ECM \<and> collected T s s'
     else a = IGNORE \<and> collecting T 183 s' \<and> mEcm s' = mEcm s)"
proof -
  let ?D = "take 183 T" let ?p = "h @ [0] @ pad_to 183 ?D"
  have len: "13 \<le> length T" "length T \<le> 4098" and tid: "T ! 0 = 0x80 \<or> T ! 0 = 0x81"
    and tlen: "(push_bit 8 (ucast (T ! 1 AND 0x0F)) + ucast (T ! 2) + 3 :: u32) = word_of_nat (length T)"
    and vm: "take 5 (drop 8 T) = VMECM"
    using T by (simp_all add: ecm_table_ok_def)
  have h4: "length h = 4" using h by (simp add: ecm_header_def)
  have pre: "length (h @ [0]) = 5" using h4 by simp
  have rdT: "rd ?p (5 + i) = Some (T ! i)" if "i < 13" for i
  proof -
    have "rd ((h @ [0]) @ pad_to 183 ?D) (5 + i) = rd (pad_to 183 ?D) i" by (rule rd_at [OF pre])
    then show ?thesis using that len by (simp add: pad_to_def rd_append)
  qed
  have vmp: "strncmp_eq ?p (5 + 0 + 8) VMECM = Some True"
  proof (rule strncmp_eq_take)
    have "drop 13 ?p = drop 8 (pad_to 183 ?D)" using h4 by simp
    moreover have "take 5 (drop 8 (pad_to 183 ?D)) = take 5 (drop 8 T)"
      using len by (auto simp: pad_to_def drop_take min_def)
    moreover have "length VMECM = 5" "5 + 0 + 8 = (13 :: nat)" by (simp_all add: VMECM_def str_bytes_def)
    ultimately show "take (length VMECM) (drop (5 + 0 + 8) ?p) = VMECM" using vm by (simp only:)
  qed
  define m where "m = min (length T) 183"
  have m: "length ?D = m" by (simp add: m_def)
  have u: "unat (word_of_nat n :: u32) = n" if "n \<le> 4098" for n
    using that by (intro unat_of_nat_small) simp
  have um: "unat (word_of_nat m :: u32) = m" "unat (word_of_nat (length T) :: u32) = length T"
    using u [of m] u [of "length T"] len by (simp_all add: m_def)
  have rem: "min (word_of_nat (length T)) (word_of_nat 188 - (5 + word_of_nat 0) :: u32) = word_of_nat m"
    using um(2) by (auto simp: m_def min_def word_le_nat_alt)
  have big: "\<not> (word_of_nat 188 - (5 + word_of_nat 0) :: u32) < 13" by simp
  have d: "mem_read ?p (5 + 0) m = Some ?D"
  proof -
    have "mem_read ((h @ [0]) @ xs @ ys) 5 (length xs) = Some xs" for xs ys
      using pre by (simp add: mem_read_def)
    then have "mem_read ((h @ [0]) @ pad_to 183 ?D) (5 + 0) (length ?D) = Some ?D"
      by (simp only: pad_to_def add_0_right)
    then show ?thesis by (simp only: m append_assoc)
  qed
  have w: "mem_write (replicate (length T) 0) 0 ?D = Some (take m T @ replicate (length T - m) 0)"
    by (simp add: mem_write_def m_def min_def)
  have reads: "GET_PID ?p = Some pid" "rd ?p 3 = Some (h ! 3)" "(h ! 3 AND 0x30 = 0x30) = False"
    using ecm_header_reads [OF h] h by (auto simp: ecm_header_def)
  have less: "((word_of_nat m :: u32) < word_of_nat (length T)) \<longleftrightarrow> \<not> length T \<le> 183"
    using um by (auto simp: word_less_nat_alt m_def)
  have zero: "\<not> 184 < (0 :: nat)" by simp
  let ?s1 = "s\<lparr>mTempCollectedEcmData := take m T @ replicate (length T - m) 0,
               mEcmCollectionInProgress := True, mCollectedEcmDataExpected := word_of_nat (length T),
               mCollectedDataLength := word_of_nat m\<rparr>"
  have start: "ecm_start ?p (5 + 0) (word_of_nat 188 - (5 + word_of_nat 0)) (ecm_version T) s =
     (if length T \<le> 183
      then Some (NEW_ECM, resetCollectionState (?s1\<lparr>mEcm := snd (setVer (ecm_version T) (mEcm s)),
             mEcmTable := take m T @ replicate (length T - m) 0\<rparr>))
      else Some (IGNORE, ?s1))"
    using rdT [of 1] rdT [of 2]
    by (simp only: ecm_start_def Let_def Option.bind.bind_lunit add_0_right tlen rem um d [unfolded add_0_right] w)
       (use new in \<open>simp add: less\<close>)
  have r5: "rd ?p (5 + 0 + 5) = Some (T ! 5)" and r0: "rd ?p (5 + 0) = Some (T ! 0)"
    using rdT [of 5] rdT [of 0] by (simp_all only: add_0_right)
  have "parseEcm E ?p s = ecm_start ?p (5 + 0) (word_of_nat 188 - (5 + word_of_nat 0)) (ecm_version T) s"
    by (simp only: parseEcm_def Let_def reads Option.bind.bind_lunit pid idle simp_thms if_True if_False zero
          E big r5 r0 tid vmp ecm_version_def)
  then show ?thesis using start pid len
    by (auto simp: collected_def collecting_def resetCollectionState_def setVer_def isPid_def m_def
             split: if_splits)
qed

abbreviation ecm_run :: "'e psi_env_scheme \<Rightarrow> PSIParser \<Rightarrow> bytes list \<Rightarrow> PSIParser option" where
  "ecm_run E s ps \<equiv> run_opt (\<lambda>s p. map_option snd (parseEcm E p s)) s ps"

lemma collectEcm_run:
  assumes "TS_PACKAGE_SIZE E = 188" "ecm_header h pid" "isPid pid (mEcm s)" "length T \<le> 4098"
    "collecting T k s" "isNew (ecm_version T) (mEcm s)"
  shows "\<exists>s'. ecm_run E s (ecm_rest h (drop k T)) = Some s' \<and> collected T s s'"
  using assms
proof (induction "length T - k" arbitrary: k s rule: less_induct)
  case less
  let ?p = "h @ pad_to 184 (take 184 (drop k T))"
  have k: "k < length T" using less.prems(5) by (simp add: collecting_def)
  have rest: "ecm_rest h (drop k T) = ?p # ecm_rest h (drop (k + 184) T)"
    using k by (subst ecm_rest.simps) (simp add: add.commute)
  from collectEcm_step [OF less.prems] obtain a s1 where
    s1: "parseEcm E ?p s = Some (a, s1)"
    and r: "if length T \<le> k + 184 then a = NEW_ECMT \<and> collected T s s1
            else a = IGNORE \<and> collecting T (k + 184) s1 \<and> mEcm s1 = mEcm s" by blast
  show ?case
  proof (cases "length T \<le> k + 184")
    case True
    then have "ecm_rest h (drop (k + 184) T) = []" by (subst ecm_rest.simps) simp
    then show ?thesis using rest s1 r True by simp
  next
    case False
    then have c: "collecting T (k + 184) s1" "mEcm s1 = mEcm s" using r by simp_all
    have "\<exists>s'. ecm_run E s1 (ecm_rest h (drop (k + 184) T)) = Some s' \<and> collected T s1 s'"
      using less.hyps [of "k + 184" s1] less.prems c False k by simp
    then show ?thesis using rest s1 c(2) by (auto simp: collected_def)
  qed
qed

text \<open>
  C6: an entitlement control message is reassembled from the packets it was cut into: for every
  well-formed table of up to 4098 bytes of a new version, feeding the packets of its PID in order to
  the idle parser stores exactly this table and its version, and leaves the parser idle.
\<close>

theorem ecm_reassembled:
  assumes E: "TS_PACKAGE_SIZE E = 188" and h: "ecm_header h pid" and pid: "isPid pid (mEcm s)"
    and T: "ecm_table_ok T" and idle: "\<not> mEcmCollectionInProgress s" and new: "isNew (ecm_version T) (mEcm s)"
  shows "\<exists>s'. run_opt (\<lambda>s p. map_option snd (parseEcm E p s)) s (ecm_packets h T) = Some s' \<and>
    mEcmTable s' = T \<and> \<not> mEcmCollectionInProgress s' \<and>
    mEcm s' = (mEcm s)\<lparr>mVersion := ecm_version T, mVersionValid := True\<rparr>"
proof -
  from ecm_first [OF assms] obtain a s1 where
    s1: "parseEcm E (h @ [0] @ pad_to 183 (take 183 T)) s = Some (a, s1)"
    and r: "if length T \<le> 183 then a = NEW_ECM \<and> collected T s s1
            else a = IGNORE \<and> collecting T 183 s1 \<and> mEcm s1 = mEcm s" by blast
  have run: "ecm_run E s (ecm_packets h T) = ecm_run E s1 (ecm_rest h (drop 183 T))"
    using s1 by (simp add: ecm_packets_def)
  have "\<exists>s'. ecm_run E s1 (ecm_rest h (drop 183 T)) = Some s' \<and> collected T s s'"
  proof (cases "length T \<le> 183")
    case True
    then have "ecm_rest h (drop 183 T) = []" by (subst ecm_rest.simps) simp
    then show ?thesis using r True by simp
  next
    case False
    then show ?thesis
      using r collectEcm_run [OF E h, of s1 T 183] pid new T by (auto simp: collected_def ecm_table_ok_def)
  qed
  then show ?thesis by (simp only: run collected_def)
qed

definition ecm_example :: bytes where
  "ecm_example = [0x80, 0x00, 0xC5, 0, 0, 0x06, 0, 0] @ VMECM @ replicate 187 7"

theorem ecm_reassembled_witness:
  "\<exists>s'. run_opt (\<lambda>s p. map_option snd (parseEcm (psi_env_list 188 188) p s))
          ((PSIParser_init (psi_env_list 188 188))
             \<lparr>mEcm := snd (setPid 0x100 (PidInfo_reset (PidInfo_new 188 0)))\<rparr>)
          (ecm_packets [0x47, 0x01, 0x00, 0x10] ecm_example) = Some s' \<and> mEcmTable s' = ecm_example"
proof -
  let ?s = "(PSIParser_init (psi_env_list 188 188))
             \<lparr>mEcm := snd (setPid 0x100 (PidInfo_reset (PidInfo_new 188 0)))\<rparr>"
  have v: "ecm_version ecm_example = 3"
    by (simp add: ecm_version_def ecm_example_def)
  have ecm: "mEcm ?s = \<lparr>mPid = 0x100, mVersion = 0, mPidValid = True, mVersionValid = False,
                        mTsPacket = replicate 188 0\<rparr>"
    by (simp add: setPid_def PidInfo_reset_def PidInfo_new_def PSI_MAX_PID_def)
  have "ecm_header [0x47, 0x01, 0x00, 0x10] 0x100" by (simp add: ecm_header_def be16_def)
  moreover have "isPid 0x100 (mEcm ?s)" "isNew (ecm_version ecm_example) (mEcm ?s)"
    by (simp_all only: ecm) (simp_all add: isPid_def isNew_def)
  moreover have "ecm_table_ok ecm_example"
    by (simp add: ecm_table_ok_def ecm_example_def VMECM_def str_bytes_def)
  moreover have "\<not> mEcmCollectionInProgress ?s" by (simp add: PSIParser_init_def Let_def)
  ultimately show ?thesis
    using ecm_reassembled [of "psi_env_list 188 188" "[0x47, 0x01, 0x00, 0x10]" "0x100" ?s ecm_example] by auto
qed

section \<open>Bounds of the program association table\<close>

definition pat_offset :: "bytes \<Rightarrow> nat" where
  "pat_offset packet = (if packet ! 3 AND 0x30 = 0x30 then unat (packet ! 4) + 1 else unat (packet ! 4))"

lemma pat_update_total:
  assumes "length packet = 188" "length (stack_junk E) = 188" "offs \<le> 169"
  shows "\<exists>s'. pat_update E packet offs v s = Some s'"
proof -
  have out: "copy_section packet (stack_junk E) \<noteq> None"
    using assms(1,2) by (simp add: copy_section_def mem_read_def mem_write_def)
  show ?thesis using assms out by (auto simp: pat_update_def Let_def)
qed



end
