(* ===== verification/Buffer_Queue.thy ===== *)
theory Buffer_Queue
  imports Prelude "HOL-Library.Multiset"
begin

text \<open>
  The producer/consumer queue of \<open>include/BufferQueue.h\<close>. Every operation runs under a mutex and
  starts by waiting for a condition; \<open>None\<close> means that it waits in the given state. A thread that
  waits is woken by the operation that makes its condition true, since each change of a queue is
  followed by \<open>notify_all\<close> on the condition variable its waiters use.
\<close>

section \<open>State and operations\<close>

definition QUEUE_SIZE :: nat where "QUEUE_SIZE = 2"

record 'a BufferQueue =
  consumerQueue :: "'a list"
  producerQueue :: "'a list"
  mMaxDepth :: nat
  exitPending :: bool

definition BufferQueue_new :: "nat \<Rightarrow> 'a BufferQueue" where
  "BufferQueue_new queueSize =
     \<lparr>consumerQueue = [], producerQueue = [], mMaxDepth = queueSize, exitPending = False\<rparr>"

definition getQueueSize :: "'a BufferQueue \<Rightarrow> u32" where
  "getQueueSize q = word_of_nat (mMaxDepth q)"

definition isConsumerQueueFull :: "'a BufferQueue \<Rightarrow> bool" where
  "isConsumerQueueFull q \<longleftrightarrow> length (consumerQueue q) \<ge> mMaxDepth q"

definition isConsumerQueueEmpty :: "'a BufferQueue \<Rightarrow> bool" where
  "isConsumerQueueEmpty q \<longleftrightarrow> length (consumerQueue q) = 0"

definition isProducerQueueFull :: "'a BufferQueue \<Rightarrow> bool" where
  "isProducerQueueFull q \<longleftrightarrow> length (producerQueue q) \<ge> mMaxDepth q"

definition isProducerQueueEmpty :: "'a BufferQueue \<Rightarrow> bool" where
  "isProducerQueueEmpty q \<longleftrightarrow> length (producerQueue q) = 0"

definition bq_queue :: "'a \<Rightarrow> 'a BufferQueue \<Rightarrow> 'a BufferQueue option" where
  "bq_queue req q =
     (if \<not> isConsumerQueueFull q \<or> exitPending q then
        if exitPending q then Some q else Some (q\<lparr>consumerQueue := consumerQueue q @ [req]\<rparr>)
      else None)"

text \<open>The result \<open>None\<close> of \<open>acquire\<close> and \<open>consume\<close> is a return that leaves \<open>*req\<close> alone.\<close>

definition bq_acquire :: "'a BufferQueue \<Rightarrow> ('a option \<times> 'a BufferQueue) option" where
  "bq_acquire q =
     (if \<not> isProducerQueueEmpty q \<or> exitPending q then
        if exitPending q then Some (None, q)
        else Some (Some (hd (producerQueue q)), q\<lparr>producerQueue := tl (producerQueue q)\<rparr>)
      else None)"

definition bq_consume :: "'a BufferQueue \<Rightarrow> ('a option \<times> 'a BufferQueue) option" where
  "bq_consume q =
     (if \<not> isConsumerQueueEmpty q \<or> exitPending q then
        if exitPending q then Some (None, q)
        else Some (Some (hd (consumerQueue q)), q\<lparr>consumerQueue := tl (consumerQueue q)\<rparr>)
      else None)"

text \<open>\<open>consume\<close> with a timeout; \<open>elapsed\<close> says whether the timeout has passed.\<close>

definition bq_consume_for :: "bool \<Rightarrow> 'a BufferQueue \<Rightarrow> (bool \<times> 'a option \<times> 'a BufferQueue) option" where
  "bq_consume_for elapsed q =
     (let cond = (\<not> isConsumerQueueEmpty q \<or> exitPending q)
      in if \<not> cond \<and> \<not> elapsed then None
         else if exitPending q then Some (False, None, q)
         else if \<not> cond then Some (False, None, q)
         else Some (True, Some (hd (consumerQueue q)), q\<lparr>consumerQueue := tl (consumerQueue q)\<rparr>))"

definition bq_release :: "'a \<Rightarrow> 'a BufferQueue \<Rightarrow> 'a BufferQueue option" where
  "bq_release req q =
     (if \<not> isProducerQueueFull q \<or> exitPending q
      then Some (q\<lparr>producerQueue := producerQueue q @ [req]\<rparr>) else None)"

definition bq_clear :: "'a BufferQueue \<Rightarrow> 'a BufferQueue" where
  "bq_clear q = q\<lparr>consumerQueue := [], producerQueue := []\<rparr>"

definition bq_destroy :: "'a BufferQueue \<Rightarrow> 'a BufferQueue" where
  "bq_destroy q = (bq_clear q)\<lparr>exitPending := True\<rparr>"

lemmas bq_defs = bq_queue_def bq_acquire_def bq_consume_def bq_consume_for_def bq_release_def
  isConsumerQueueFull_def isConsumerQueueEmpty_def isProducerQueueFull_def isProducerQueueEmpty_def

section \<open>A pool of buffers going round\<close>

text \<open>
  The use the sources make of the queue: a fixed pool of buffers, all released at the start; the
  producer acquires a buffer and queues it, the consumer consumes it and releases it. \<open>p_held\<close>
  and \<open>c_held\<close> are the buffers in the hands of the two sides; \<open>c_log\<close> and \<open>p_log\<close>
  record what was consumed and queued.
\<close>

record 'a bq_pool =
  bq :: "'a BufferQueue"
  p_held :: "'a list"
  c_held :: "'a list"
  p_log :: "'a list"
  c_log :: "'a list"

inductive bq_pool_step :: "'a bq_pool \<Rightarrow> 'a bq_pool \<Rightarrow> bool" where
  step_acquire: "bq_acquire (bq s) = Some (Some x, q) \<Longrightarrow>
     bq_pool_step s (s\<lparr>bq := q, p_held := p_held s @ [x]\<rparr>)"
| step_queue: "p_held s = xs @ x # ys \<Longrightarrow> bq_queue x (bq s) = Some q \<Longrightarrow>
     bq_pool_step s (s\<lparr>bq := q, p_held := xs @ ys, p_log := p_log s @ [x]\<rparr>)"
| step_consume: "bq_consume (bq s) = Some (Some x, q) \<Longrightarrow>
     bq_pool_step s (s\<lparr>bq := q, c_held := c_held s @ [x], c_log := c_log s @ [x]\<rparr>)"
| step_consume_for: "bq_consume_for e (bq s) = Some (True, Some x, q) \<Longrightarrow>
     bq_pool_step s (s\<lparr>bq := q, c_held := c_held s @ [x], c_log := c_log s @ [x]\<rparr>)"
| step_release: "c_held s = xs @ x # ys \<Longrightarrow> bq_release x (bq s) = Some q \<Longrightarrow>
     bq_pool_step s (s\<lparr>bq := q, c_held := xs @ ys\<rparr>)"

inductive_cases bq_pool_stepE: "bq_pool_step s t"

definition bq_pool_init :: "'a list \<Rightarrow> nat \<Rightarrow> 'a bq_pool \<Rightarrow> bool" where
  "bq_pool_init pool depth s \<longleftrightarrow>
     s = \<lparr>bq = (BufferQueue_new depth)\<lparr>producerQueue := pool\<rparr>, p_held = [], c_held = [], p_log = [], c_log = []\<rparr>"

definition pool_buffers :: "'a bq_pool \<Rightarrow> 'a multiset" where
  "pool_buffers s = mset (producerQueue (bq s)) + mset (p_held s) + mset (consumerQueue (bq s)) + mset (c_held s)"

definition bq_pool_inv :: "'a list \<Rightarrow> nat \<Rightarrow> 'a bq_pool \<Rightarrow> bool" where
  "bq_pool_inv pool depth s \<longleftrightarrow>
     \<not> exitPending (bq s) \<and> mMaxDepth (bq s) = depth \<and> pool_buffers s = mset pool \<and>
     p_log s = c_log s @ consumerQueue (bq s)"

lemma bq_pool_inv_step: "bq_pool_inv pool depth s \<Longrightarrow> bq_pool_step s t \<Longrightarrow> bq_pool_inv pool depth t"
  by (erule bq_pool_stepE)
     (auto simp: bq_pool_inv_def pool_buffers_def bq_defs Let_def neq_Nil_conv ac_simps split: if_splits)

interpretation bq_run: inductive_invariant "bq_pool_init pool depth" bq_pool_step "bq_pool_inv pool depth"
  for pool :: "'a list" and depth
proof unfold_locales
  show "bq_pool_init pool depth s \<Longrightarrow> bq_pool_inv pool depth s" for s
    by (simp add: bq_pool_init_def bq_pool_inv_def pool_buffers_def BufferQueue_new_def)
qed (rule bq_pool_inv_step)

lemma pool_sizes:
  assumes "bq_pool_inv pool depth s"
  shows "length (producerQueue (bq s)) + length (p_held s) + length (consumerQueue (bq s)) + length (c_held s)
         = length pool"
proof -
  have "size (pool_buffers s) = length pool" using assms by (simp add: bq_pool_inv_def)
  then show ?thesis by (simp add: pool_buffers_def)
qed

text \<open>
  C34: a pool that fits the queue never blocks the side that holds a buffer: in every reachable
  state each held buffer can be queued or released at once, and if the producer cannot acquire,
  a buffer is held or can be consumed, so that some step is always possible (no deadlock).
\<close>

theorem bq_deadlock_free:
  assumes "reach (bq_pool_init pool depth) bq_pool_step s" "length pool \<le> depth" "pool \<noteq> []"
  shows "(\<forall>x \<in> set (p_held s). bq_queue x (bq s) \<noteq> None) \<and>
         (\<forall>x \<in> set (c_held s). bq_release x (bq s) \<noteq> None) \<and> (\<exists>t. bq_pool_step s t)"
proof -
  have inv: "bq_pool_inv pool depth s" by (rule bq_run.reach_inv [OF assms(1)])
  then have d: "\<not> exitPending (bq s)" "mMaxDepth (bq s) = depth" by (simp_all add: bq_pool_inv_def)
  note n = pool_sizes [OF inv]
  have q: "\<forall>x \<in> set (p_held s). bq_queue x (bq s) \<noteq> None"
    using n d assms(2) by (auto simp: bq_defs not_le dest!: split_list)
  have r: "\<forall>x \<in> set (c_held s). bq_release x (bq s) \<noteq> None"
    using n d assms(2) by (auto simp: bq_defs not_le dest!: split_list)
  have "\<exists>t. bq_pool_step s t"
  proof -
    have "0 < length pool" using assms(3) by simp
    with n consider "producerQueue (bq s) \<noteq> []" | "p_held s \<noteq> []" | "consumerQueue (bq s) \<noteq> []" | "c_held s \<noteq> []"
      by fastforce
    then show ?thesis
    proof cases
      case 1
      then show ?thesis using d by (auto intro!: exI step_acquire simp: bq_defs)
    next
      case 2
      then obtain x xs where "p_held s = [] @ x # xs" by (cases "p_held s") auto
      moreover obtain q' where "bq_queue x (bq s) = Some q'" using q calculation by auto
      ultimately show ?thesis by (intro exI) (rule step_queue)
    next
      case 3
      then show ?thesis using d by (auto intro!: exI step_consume simp: bq_defs)
    next
      case 4
      then obtain x xs where "c_held s = [] @ x # xs" by (cases "c_held s") auto
      moreover obtain q' where "bq_release x (bq s) = Some q'" using r calculation by auto
      ultimately show ?thesis by (intro exI) (rule step_release)
    qed
  qed
  with q r show ?thesis by blast
qed


text \<open>A concrete round of the pool, for the witnesses: one buffer is acquired and queued.\<close>

lemma bq_pool_example:
  "reach (bq_pool_init [7 :: nat] 1) bq_pool_step
     \<lparr>bq = \<lparr>consumerQueue = [7], producerQueue = [], mMaxDepth = 1, exitPending = False\<rparr>,
      p_held = [], c_held = [], p_log = [7], c_log = []\<rparr>"
proof -
  let ?s0 = "\<lparr>bq = \<lparr>consumerQueue = [], producerQueue = [7 :: nat], mMaxDepth = 1, exitPending = False\<rparr>,
               p_held = [], c_held = [], p_log = [], c_log = []\<rparr>"
  let ?s1 = "\<lparr>bq = \<lparr>consumerQueue = [], producerQueue = [], mMaxDepth = 1, exitPending = False\<rparr>,
               p_held = [7 :: nat], c_held = [], p_log = [], c_log = []\<rparr>"
  have "reach (bq_pool_init [7] 1) bq_pool_step ?s0"
    by (rule reach_init) (simp add: bq_pool_init_def BufferQueue_new_def)
  moreover have "bq_pool_step ?s0 ?s1"
    using step_acquire [of ?s0 7 "bq ?s1"] by (simp add: bq_defs)
  ultimately have "reach (bq_pool_init [7] 1) bq_pool_step ?s1" by (rule reach_step)
  moreover have "bq_pool_step ?s1
     \<lparr>bq = \<lparr>consumerQueue = [7], producerQueue = [], mMaxDepth = 1, exitPending = False\<rparr>,
      p_held = [], c_held = [], p_log = [7], c_log = []\<rparr>"
    using step_queue [of ?s1 "[]" 7 "[]" "\<lparr>consumerQueue = [7], producerQueue = [], mMaxDepth = 1, exitPending = False\<rparr>"]
    by (simp add: bq_defs)
  ultimately show ?thesis by (rule reach_step)
qed

theorem bq_deadlock_free_witness:
  "\<exists>t. bq_pool_step
     \<lparr>bq = \<lparr>consumerQueue = [7 :: nat], producerQueue = [], mMaxDepth = 1, exitPending = False\<rparr>,
      p_held = [], c_held = [], p_log = [7], c_log = []\<rparr> t"
  using bq_deadlock_free [OF bq_pool_example] by simp


end
