(* ===== verification/Monitored_Variable.thy ===== *)
theory Monitored_Variable
  imports Config_Options
begin

text \<open>
  Monitored variables (\<open>include/utils/MonitoredVariable.h\<close>) and their registry
  (\<open>VariableMonitorDispatcher\<close>). A watcher is a shared function object, named by a number;
  variables hold weak pointers to watchers, so that which watchers have expired is an argument. The
  calls an assignment makes are returned in order. \<open>None\<close> is an operation that does not return
  (or, for the waits, does not return yet).
\<close>

section \<open>Variables and registry\<close>

type_synonym watcher = nat

record 'v MVar =
  mValue :: 'v
  mId :: ConfigVariableId
  mWatchers :: "watcher list"

type_synonym 'v vmd = "ConfigVariableId \<rightharpoonup> 'v MVar"

definition vmd_find :: "ConfigVariableId \<Rightarrow> 'v vmd \<Rightarrow> 'v MVar option" where
  "vmd_find vid m = m vid"

definition registerVariable :: "ConfigVariableId \<Rightarrow> 'v MVar \<Rightarrow> 'v vmd \<Rightarrow> int \<times> 'v vmd" where
  "registerVariable vid value m = (if vmd_find vid m \<noteq> None then (-1, m) else (0, m(vid \<mapsto> value)))"

text \<open>\<open>getVariable\<close>: the value-initialised \<open>v0\<close> is \<open>T{}\<close>; \<open>None\<close> is the rethrow.\<close>

definition getVariable :: "'v \<Rightarrow> ConfigVariableId \<Rightarrow> 'v vmd \<Rightarrow> ('v MVar \<times> 'v vmd) option" where
  "getVariable v0 vid m = (case vmd_find vid m of
     None \<Rightarrow>
       (let var = \<lparr>mValue = v0, mId = vid, mWatchers = []\<rparr>; (rc, m') = registerVariable vid var m
        in if rc = 0 then Some (var, m') else None)
   | Some var \<Rightarrow> Some (var, m))"

section \<open>Watchers\<close>

fun cleanExpiredCallbacks :: "(watcher \<Rightarrow> bool) \<Rightarrow> watcher list \<Rightarrow> watcher list" where
  "cleanExpiredCallbacks expired [] = []"
| "cleanExpiredCallbacks expired (w # ws) =
     (if expired w then cleanExpiredCallbacks expired ws else w # cleanExpiredCallbacks expired ws)"

definition registerWatcher :: "(watcher \<Rightarrow> bool) \<Rightarrow> watcher \<Rightarrow> 'v MVar \<Rightarrow> 'v MVar" where
  "registerWatcher expired w v = v\<lparr>mWatchers := cleanExpiredCallbacks expired (mWatchers v) @ [w]\<rparr>"

definition mvar_watch ::
    "'v \<Rightarrow> (watcher \<Rightarrow> bool) \<Rightarrow> ConfigVariableId \<Rightarrow> watcher \<Rightarrow> 'v vmd \<Rightarrow> 'v vmd option" where
  "mvar_watch v0 expired vid w m =
     map_option (\<lambda>(var, m'). m'(vid \<mapsto> registerWatcher expired w var)) (getVariable v0 vid m)"

text \<open>
  The loop of \<open>operator=\<close> over the watchers: an expired one is skipped with \<open>continue\<close>, without
  moving the iterator. An empty function object is erased with \<open>erase(it++)\<close>, which invalidates
  the iterator.
\<close>

datatype mvar_fault = Iterator_invalidated

partial_function (option) watcher_loop ::
    "(watcher \<Rightarrow> bool) \<Rightarrow> (watcher \<Rightarrow> bool) \<Rightarrow> watcher list \<Rightarrow> watcher list \<Rightarrow> (mvar_fault + watcher list) option" where
  "watcher_loop expired callable todo called = (case todo of
     [] \<Rightarrow> Some (Inr called)
   | w # ws \<Rightarrow>
       if expired w then watcher_loop expired callable todo called
       else if \<not> callable w then Some (Inl Iterator_invalidated)
       else watcher_loop expired callable ws (called @ [w]))"

definition mvar_assign ::
    "(watcher \<Rightarrow> bool) \<Rightarrow> (watcher \<Rightarrow> bool) \<Rightarrow> 'v \<Rightarrow> 'v MVar \<Rightarrow>
     (mvar_fault + (watcher \<times> 'v \<times> 'v \<times> ConfigVariableId) list \<times> 'v MVar) option" where
  "mvar_assign expired callable rhs v =
     map_option (map_sum id (\<lambda>called. (map (\<lambda>w. (w, mValue v, rhs, mId v)) called, v\<lparr>mValue := rhs\<rparr>)))
       (watcher_loop expired callable (mWatchers v) [])"

text \<open>The function object that \<open>getWatcher\<close> makes, and its registration with every variable.\<close>

definition watcher_call ::
    "(ConfigVariableId \<times> FsNode) list \<Rightarrow> 'v \<Rightarrow> ConfigVariableId \<Rightarrow> (FsNode \<times> 'v) list" where
  "watcher_call configMap newVal vid = (case map_of configMap vid of
     None \<Rightarrow> [] | Some node \<Rightarrow> [(node, newVal)])"

fun getWatcher ::
    "'v \<Rightarrow> (watcher \<Rightarrow> bool) \<Rightarrow> (ConfigVariableId \<times> FsNode) list \<Rightarrow> watcher \<Rightarrow> 'v vmd \<Rightarrow> 'v vmd option" where
  "getWatcher v0 expired [] w m = Some m"
| "getWatcher v0 expired ((vid, node) # cm) w m = do {
     m' \<leftarrow> mvar_watch v0 expired vid w m;
     getWatcher v0 expired cm w m'
   }"

section \<open>Values\<close>

definition MVar_getValue :: "'v MVar \<Rightarrow> 'v" where
  "MVar_getValue v = mValue v"

definition mvar_eq :: "'v MVar \<Rightarrow> 'v \<Rightarrow> bool" where
  "mvar_eq lhs rhs \<longleftrightarrow> mValue lhs = rhs"

text \<open>\<open>operator!=\<close> is defined by a call of itself.\<close>

partial_function (option) mvar_neq :: "'v MVar \<Rightarrow> 'v \<Rightarrow> bool option" where
  "mvar_neq lhs rhs = mvar_neq lhs rhs"

text \<open>\<open>waitForValue\<close>: waits until the value is \<open>value\<close> or, with a duration, until it has elapsed.\<close>

definition waitForValue :: "'v \<Rightarrow> 'v MVar \<Rightarrow> bool option" where
  "waitForValue value v = (if mValue v = value then Some True else None)"

definition waitForValue_for :: "bool \<Rightarrow> 'v \<Rightarrow> 'v MVar \<Rightarrow> bool option" where
  "waitForValue_for elapsed value v =
     (if mValue v = value then Some True else if elapsed then Some False else None)"

section \<open>Assignment\<close>

lemma clean_filter: "cleanExpiredCallbacks expired ws = filter (\<lambda>w. \<not> expired w) ws"
  by (induction ws) simp_all

lemma watcher_loop_live:
  "\<forall>w \<in> set ws. \<not> expired w \<and> callable w \<Longrightarrow>
     watcher_loop expired callable ws called = Some (Inr (called @ ws))"
  by (induction ws arbitrary: called) (subst watcher_loop.simps, simp)+

lemma watcher_loop_returns:
  "watcher_loop expired callable ws called = Some r \<Longrightarrow>
     \<exists>us vs. ws = us @ vs \<and> (\<forall>w \<in> set us. \<not> expired w \<and> callable w) \<and>
             (vs = [] \<or> \<not> expired (hd vs) \<and> \<not> callable (hd vs))"
proof (erule watcher_loop.raw_induct [rotated, where P = "\<lambda>e c ws called r.
     \<exists>us vs. ws = us @ vs \<and> (\<forall>w \<in> set us. \<not> e w \<and> c w) \<and> (vs = [] \<or> \<not> e (hd vs) \<and> \<not> c (hd vs))"])
  fix f :: "(watcher \<Rightarrow> bool) \<Rightarrow> (watcher \<Rightarrow> bool) \<Rightarrow> watcher list \<Rightarrow> watcher list \<Rightarrow> (mvar_fault + watcher list) option"
  fix expired callable :: "watcher \<Rightarrow> bool" and todo called :: "watcher list" and r
  let ?P = "\<lambda>ws. \<exists>us vs. ws = us @ vs \<and> (\<forall>w \<in> set us. \<not> expired w \<and> callable w) \<and>
                    (vs = [] \<or> \<not> expired (hd vs) \<and> \<not> callable (hd vs))"
  assume 1: "\<And>e c ws called r. f e c ws called = Some r \<Longrightarrow>
      \<exists>us vs. ws = us @ vs \<and> (\<forall>w \<in> set us. \<not> e w \<and> c w) \<and> (vs = [] \<or> \<not> e (hd vs) \<and> \<not> c (hd vs))"
    "(case todo of [] \<Rightarrow> Some (Inr called) | w # ws \<Rightarrow>
       if expired w then f expired callable todo called
       else if \<not> callable w then Some (Inl Iterator_invalidated)
       else f expired callable ws (called @ [w])) = Some r"
  show "?P todo"
  proof (cases todo)
    case Nil
    then show ?thesis by (intro exI [of _ "[]"]) simp
  next
    case (Cons w ws)
    show ?thesis
    proof (cases "expired w")
      case True
      then have "f expired callable todo called = Some r" using 1(2) Cons by simp
      from 1(1) [OF this] show ?thesis .
    next
      case False
      show ?thesis
      proof (cases "callable w")
        case c: True
        then have "f expired callable ws (called @ [w]) = Some r" using 1(2) Cons False by simp
        from 1(1) [OF this] obtain us vs where "ws = us @ vs" "\<forall>w \<in> set us. \<not> expired w \<and> callable w"
          "vs = [] \<or> \<not> expired (hd vs) \<and> \<not> callable (hd vs)" by blast
        then show ?thesis using Cons False c by (intro exI [of _ "w # us"] exI [of _ vs]) simp
      next
        case c: False
        then show ?thesis using Cons False by (intro exI [of _ "[]"] exI [of _ todo]) simp
      qed
    qed
  qed
qed

text \<open>
  C9: an assignment to a monitored variable returns exactly if none of its watchers has expired
  (function objects being non-empty); it then calls every watcher once, in the order of registration,
  with the old and the new value, and sets the value. With an expired watcher the loop never ends.
\<close>

theorem mvar_assign_returns:
  assumes "\<forall>w \<in> set (mWatchers v). callable w"
  shows "((\<exists>r. mvar_assign expired callable rhs v = Some r) \<longleftrightarrow> (\<forall>w \<in> set (mWatchers v). \<not> expired w)) \<and>
         ((\<forall>w \<in> set (mWatchers v). \<not> expired w) \<longrightarrow>
            mvar_assign expired callable rhs v =
              Some (Inr (map (\<lambda>w. (w, mValue v, rhs, mId v)) (mWatchers v), v\<lparr>mValue := rhs\<rparr>)))"
proof -
  have live: "mvar_assign expired callable rhs v =
      Some (Inr (map (\<lambda>w. (w, mValue v, rhs, mId v)) (mWatchers v), v\<lparr>mValue := rhs\<rparr>))"
    if "\<forall>w \<in> set (mWatchers v). \<not> expired w"
    using watcher_loop_live [of "mWatchers v" expired callable "[]"] assms that by (simp add: mvar_assign_def)
  have "\<forall>w \<in> set (mWatchers v). \<not> expired w" if r: "mvar_assign expired callable rhs v = Some r" for r
  proof -
    obtain r' where "watcher_loop expired callable (mWatchers v) [] = Some r'"
      using r by (auto simp: mvar_assign_def)
    from watcher_loop_returns [OF this] obtain us vs where "mWatchers v = us @ vs"
      "\<forall>w \<in> set us. \<not> expired w" "vs = [] \<or> \<not> callable (hd vs)" by blast
    then show ?thesis using assms by (cases vs) auto
  qed
  with live show ?thesis by blast
qed

theorem mvar_assign_returns_witness:
  "mvar_assign (\<lambda>w. w = 2) (\<lambda>w. True) True \<lparr>mValue = False, mId = kCdm0, mWatchers = [1, 2]\<rparr> = None"
  using mvar_assign_returns [of "\<lparr>mValue = False, mId = kCdm0, mWatchers = [1, 2]\<rparr>" "\<lambda>w. True" "\<lambda>w. w = 2" True]
  by simp

section \<open>Registration\<close>

definition vmd_ok :: "'v vmd \<Rightarrow> bool" where
  "vmd_ok m \<longleftrightarrow> (\<forall>i v. m i = Some v \<longrightarrow> mId v = i)"

definition vmd_callable :: "(watcher \<Rightarrow> bool) \<Rightarrow> 'v vmd \<Rightarrow> bool" where
  "vmd_callable callable m \<longleftrightarrow> (\<forall>i v. m i = Some v \<longrightarrow> (\<forall>u \<in> set (mWatchers v). callable u))"

lemma mvar_watch_eq:
  "mvar_watch v0 expired i w m = Some (m(i \<mapsto> registerWatcher expired w
     (case m i of None \<Rightarrow> \<lparr>mValue = v0, mId = i, mWatchers = []\<rparr> | Some v \<Rightarrow> v)))"
  by (simp add: mvar_watch_def getVariable_def vmd_find_def registerVariable_def Let_def split: option.split)

lemma watch_keeps:
  assumes "vmd_ok m" and "vmd_callable callable m" and "callable w"
  shows "\<exists>v'. mvar_watch v0 expired i w m = Some (m(i \<mapsto> v')) \<and> mId v' = i \<and> w \<in> set (mWatchers v') \<and>
           (\<forall>u \<in> set (mWatchers v'). callable u) \<and> (\<not> expired w \<longrightarrow> (\<forall>u \<in> set (mWatchers v'). \<not> expired u))"
  unfolding mvar_watch_eq
  by (rule exI, rule conjI, rule refl)
     (use assms in \<open>auto simp: registerWatcher_def clean_filter vmd_ok_def vmd_callable_def split: option.split\<close>)

lemma getWatcher_registers:
  assumes "vmd_ok m" and "vmd_callable callable m"
    and "callable w" and "\<not> expired w" and "distinct (map fst cm)"
  shows "\<exists>m'. getWatcher v0 expired cm w m = Some m' \<and> vmd_ok m' \<and>
           (\<forall>i. i \<notin> fst ` set cm \<longrightarrow> m' i = m i) \<and>
           (\<forall>i \<in> fst ` set cm. \<exists>v. m' i = Some v \<and> w \<in> set (mWatchers v) \<and>
              (\<forall>u \<in> set (mWatchers v). callable u \<and> \<not> expired u))"
  using assms
proof (induction cm arbitrary: m)
  case (Cons a cm)
  obtain i node where a: "a = (i, node)" by (cases a)
  obtain v' where v': "mvar_watch v0 expired i w m = Some (m(i \<mapsto> v'))" "mId v' = i"
      "w \<in> set (mWatchers v')" "\<forall>u \<in> set (mWatchers v'). callable u \<and> \<not> expired u"
    using watch_keeps [of m callable w v0 expired i] Cons.prems by blast
  have ok: "vmd_ok (m(i \<mapsto> v'))" using Cons.prems(1) v'(2) by (simp add: vmd_ok_def)
  have callable: "vmd_callable callable (m(i \<mapsto> v'))"
    using Cons.prems(2) v'(4) by (simp add: vmd_callable_def)
  have "distinct (map fst cm)" using Cons.prems(5) by simp
  from Cons.IH [OF ok callable Cons.prems(3, 4) this]
  obtain m' where m': "getWatcher v0 expired cm w (m(i \<mapsto> v')) = Some m'" "vmd_ok m'"
      "\<forall>j. j \<notin> fst ` set cm \<longrightarrow> m' j = (m(i \<mapsto> v')) j"
      "\<forall>j \<in> fst ` set cm. \<exists>v. m' j = Some v \<and> w \<in> set (mWatchers v) \<and>
         (\<forall>u \<in> set (mWatchers v). callable u \<and> \<not> expired u)" by blast
  have "i \<notin> fst ` set cm" using Cons.prems(5) a by auto
  then have "m' i = Some v'" using m'(3) by simp
  with m' v' show ?case by (auto simp: a)
qed simp

text \<open>
  C18: once an observer has its watcher registered for a map of variables to nodes, and as long as that
  watcher lives, the next assignment to any of these variables returns and notifies the observer of
  the new value under the node the map gives, also when watchers registered before had expired.
\<close>

theorem getWatcher_notified:
  assumes "vmd_ok m" and "vmd_callable callable m"
    and "callable w" and "\<not> expired w" and "distinct (map fst cm)" and "map_of cm i = Some node"
  shows "\<exists>m' v calls. getWatcher v0 expired cm w m = Some m' \<and> m' i = Some v \<and>
           mvar_assign expired callable rhs v = Some (Inr (calls, v\<lparr>mValue := rhs\<rparr>)) \<and>
           (w, mValue v, rhs, i) \<in> set calls \<and> watcher_call cm rhs i = [(node, rhs)]"
proof -
  obtain m' where m': "getWatcher v0 expired cm w m = Some m'" "vmd_ok m'"
      "\<forall>i \<in> fst ` set cm. \<exists>v. m' i = Some v \<and> w \<in> set (mWatchers v) \<and>
         (\<forall>u \<in> set (mWatchers v). callable u \<and> \<not> expired u)"
    using getWatcher_registers [of m callable w expired cm v0] assms by blast
  have "i \<in> fst ` set cm" using map_of_SomeD [OF assms(6)] by force
  then obtain v where v: "m' i = Some v" "w \<in> set (mWatchers v)"
      "\<forall>u \<in> set (mWatchers v). callable u \<and> \<not> expired u" using m'(3) by blast
  moreover have "mId v = i" using m'(2) v(1) by (simp add: vmd_ok_def)
  ultimately have "mvar_assign expired callable rhs v =
      Some (Inr (map (\<lambda>w. (w, mValue v, rhs, i)) (mWatchers v), v\<lparr>mValue := rhs\<rparr>))"
    by (simp add: mvar_assign_def watcher_loop_live)
  then show ?thesis using m'(1) v(1, 2) assms(6) by (auto simp: watcher_call_def)
qed

theorem getWatcher_notified_witness:
  "\<exists>m' v calls. getWatcher False (\<lambda>w. w = 1) [(kCdm0, CONFIG_F_CDM_STATUS), (kFlush0, CONFIG_F_STREAM_INFO_FLUSH)] 2
       (Map.empty(kFlush0 \<mapsto> \<lparr>mValue = True, mId = kFlush0, mWatchers = [1]\<rparr>)) = Some m' \<and> m' kFlush0 = Some v \<and>
     mvar_assign (\<lambda>w. w = 1) (\<lambda>w. True) False v = Some (Inr (calls, v\<lparr>mValue := False\<rparr>)) \<and>
     (2, mValue v, False, kFlush0) \<in> set calls \<and>
     watcher_call [(kCdm0, CONFIG_F_CDM_STATUS), (kFlush0, CONFIG_F_STREAM_INFO_FLUSH)] False kFlush0 =
       [(CONFIG_F_STREAM_INFO_FLUSH, False)]"
  by (rule getWatcher_notified) (simp_all add: vmd_ok_def vmd_callable_def kCdm0_def kFlush0_def)

lemma mvar_neq_diverges: "mvar_neq lhs rhs = None"
proof (cases "mvar_neq lhs rhs")
  case (Some b)
  have False by (rule mvar_neq.raw_induct [OF _ Some, of "\<lambda>_ _ _. False"])
  then show ?thesis ..
qed

end
