(* ===== verification/Cpp_Strings.thy ===== *)
theory Cpp_Strings
  imports Prelude
begin

text \<open>
  The functions of the C++ library on strings that several components use: \<open>isspace\<close> and
  \<open>isdigit\<close> of the C locale, \<open>std::to_string\<close> of integers, and \<open>std::stol\<close>,
  \<open>std::stoi\<close> and \<open>std::stoull\<close> with the exceptions they throw; \<open>long\<close> has 64 bits.
\<close>

section \<open>Characters\<close>

definition NUL :: char where "NUL = CHR 0x00"

definition isspace :: "char \<Rightarrow> bool" where
  "isspace c \<longleftrightarrow> c = CHR '' '' \<or> c = CHR 0x09 \<or> c = CHR 0x0A \<or> c = CHR 0x0B \<or> c = CHR 0x0C \<or> c = CHR 0x0D"

definition isdigit :: "char \<Rightarrow> bool" where
  "isdigit c \<longleftrightarrow> 48 \<le> (of_char c :: nat) \<and> (of_char c :: nat) \<le> 57"

definition digit_char :: "nat \<Rightarrow> char" where
  "digit_char d = char_of (48 + d)"

definition digit_val :: "char \<Rightarrow> nat" where
  "digit_val c = of_char c - 48"

lemma NUL_not_space [simp]: "\<not> isspace NUL"
  by (simp add: NUL_def isspace_def)

lemma of_char_digit [simp]: "d < 10 \<Longrightarrow> of_char (digit_char d) = 48 + d"
  by (simp add: digit_char_def)

lemma isdigit_digit [simp]: "d < 10 \<Longrightarrow> isdigit (digit_char d)"
  by (simp add: isdigit_def)

lemma digit_val_char [simp]: "d < 10 \<Longrightarrow> digit_val (digit_char d) = d"
  by (simp add: digit_val_def)

lemma isdigit_not_minus: "isdigit c \<Longrightarrow> c \<noteq> CHR ''-''"
  by (auto simp: isdigit_def)

lemma isdigit_not_plus: "isdigit c \<Longrightarrow> c \<noteq> CHR ''+''"
  by (auto simp: isdigit_def)

lemma isdigit_not_space: "isdigit c \<Longrightarrow> \<not> isspace c"
  by (auto simp: isdigit_def isspace_def)

section \<open>Printing\<close>

fun nat_dec :: "nat \<Rightarrow> string" where
  "nat_dec n = (if n < 10 then [digit_char n] else nat_dec (n div 10) @ [digit_char (n mod 10)])"

declare nat_dec.simps [simp del]

definition int_dec :: "int \<Rightarrow> string" where
  "int_dec i = (if i < 0 then CHR ''-'' # nat_dec (nat (- i)) else nat_dec (nat i))"

section \<open>Reading\<close>

datatype exn = Invalid_argument | Out_of_range

definition dec_val :: "string \<Rightarrow> nat" where
  "dec_val ds = foldl (\<lambda>a c. 10 * a + digit_val c) 0 ds"

text \<open>The common part of the \<open>strto\<close> functions: blanks, a sign, digits; the rest is ignored.\<close>

definition sto_number :: "string \<Rightarrow> exn + bool \<times> nat" where
  "sto_number s =
     (let s1 = dropWhile isspace s;
          (neg, s2) = (case s1 of [] \<Rightarrow> (False, [])
                       | c # cs \<Rightarrow> if c = CHR ''-'' then (True, cs) else if c = CHR ''+'' then (False, cs) else (False, s1));
          ds = takeWhile isdigit s2
      in if ds = [] then Inl Invalid_argument else Inr (neg, dec_val ds))"

definition sto_int :: "int \<Rightarrow> int \<Rightarrow> string \<Rightarrow> exn + int" where
  "sto_int lo hi s = (case sto_number s of
     Inl e \<Rightarrow> Inl e
   | Inr (neg, n) \<Rightarrow>
       (let i = (if neg then - int n else int n) in if lo \<le> i \<and> i \<le> hi then Inr i else Inl Out_of_range))"

definition stoi :: "string \<Rightarrow> exn + int" where
  "stoi = sto_int (- (2 ^ 31)) (2 ^ 31 - 1)"

definition stol :: "string \<Rightarrow> exn + int" where
  "stol = sto_int (- (2 ^ 63)) (2 ^ 63 - 1)"

text \<open>\<open>strtoull\<close> negates the unsigned number when there is a minus sign.\<close>

definition stoull :: "string \<Rightarrow> exn + u64" where
  "stoull s = (case sto_number s of
     Inl e \<Rightarrow> Inl e
   | Inr (neg, n) \<Rightarrow>
       if n < 2 ^ 64 then Inr (if neg then - word_of_nat n else word_of_nat n) else Inl Out_of_range)"

section \<open>Round trip\<close>

lemma nat_dec_digits: "c \<in> set (nat_dec n) \<Longrightarrow> isdigit c"
  by (induction n rule: nat_dec.induct) (subst (asm) (2) nat_dec.simps, auto split: if_splits)

lemma nat_dec_nonempty [simp]: "nat_dec n \<noteq> []"
  by (subst nat_dec.simps) simp

lemma dec_val_snoc: "dec_val (ds @ [c]) = 10 * dec_val ds + digit_val c"
  by (simp add: dec_val_def)

lemma dec_val_nat_dec [simp]: "dec_val (nat_dec n) = n"
proof (induction n rule: nat_dec.induct)
  case (1 n)
  show ?case
  proof (cases "n < 10")
    case True
    then show ?thesis by (subst nat_dec.simps) (simp add: dec_val_def)
  next
    case False
    then show ?thesis using 1 by (subst nat_dec.simps) (simp add: dec_val_snoc)
  qed
qed

lemma takeWhile_nat_dec:
  "rest = [] \<or> \<not> isdigit (hd rest) \<Longrightarrow> takeWhile isdigit (nat_dec n @ rest) = nat_dec n"
  by (cases rest) (auto simp: takeWhile_append nat_dec_digits)

lemma hd_nat_dec: "nat_dec n = c # cs \<Longrightarrow> isdigit c"
  using nat_dec_digits [of c n] by simp

lemma sto_number_int_dec:
  assumes "rest = [] \<or> \<not> isdigit (hd rest)"
  shows "sto_number (int_dec i @ rest) = Inr (i < 0, nat \<bar>i\<bar>)"
proof -
  obtain c cs where n: "nat_dec (nat \<bar>i\<bar>) = c # cs" by (cases "nat_dec (nat \<bar>i\<bar>)") simp_all
  have c: "isdigit c" using hd_nat_dec [OF n] .
  show ?thesis
  proof (cases "i < 0")
    case True
    then have d: "int_dec i = CHR ''-'' # nat_dec (nat \<bar>i\<bar>)" by (simp add: int_dec_def)
    show ?thesis using True takeWhile_nat_dec [OF assms, of "nat \<bar>i\<bar>"]
      by (simp add: sto_number_def d isspace_def)
  next
    case False
    then have d: "int_dec i = nat_dec (nat \<bar>i\<bar>)" by (simp add: int_dec_def)
    have t: "takeWhile isdigit (c # cs @ rest) = c # cs" using takeWhile_nat_dec [OF assms, of "nat \<bar>i\<bar>"] n by simp
    have v: "dec_val (c # cs) = nat \<bar>i\<bar>" using dec_val_nat_dec [of "nat \<bar>i\<bar>"] n by simp
    show ?thesis
      unfolding sto_number_def d n Let_def
      using False t v c isdigit_not_space [OF c] isdigit_not_minus [OF c] isdigit_not_plus [OF c]
      by simp
  qed
qed

lemma sto_int_dec:
  assumes "lo \<le> i" and "i \<le> hi"
  shows "sto_int lo hi (int_dec i) = Inr i"
  using sto_number_int_dec [of "[]" i] assms by (simp add: sto_int_def Let_def)

end
