(* ===== verification/Json_Value.thy ===== *)
theory Json_Value
  imports Cpp_Strings "HOL-Library.List_Lexorder" "HOL-Library.Char_ord"
begin

text \<open>
  The values of \<open>include/utils/json.hpp\<close> and the operations on them. A \<open>JSON\<close> object owns
  its contents, so that it is a value here; a \<open>std::map\<close> is an association list in the order of
  its keys. The type \<open>double\<close> is the parameter \<open>'f\<close>, with the library functions on it in
  the record \<open>float_ops\<close>. \<open>None\<close> is undefined behaviour.
\<close>

section \<open>Values\<close>

datatype 'f JSON =
  JNull
| JObject "(string \<times> 'f JSON) list"
| JArray "'f JSON list"
| JString string
| JFloating 'f
| JIntegral "64 word"
| JUIntegral u64
| JBoolean bool

datatype Class = CNull | CObject | CArray | CString | CFloating | CIntegral | CUIntegral | CBoolean

fun JSONType :: "'f JSON \<Rightarrow> Class" where
  "JSONType JNull = CNull"
| "JSONType (JObject m) = CObject"
| "JSONType (JArray l) = CArray"
| "JSONType (JString s) = CString"
| "JSONType (JFloating f) = CFloating"
| "JSONType (JIntegral i) = CIntegral"
| "JSONType (JUIntegral u) = CUIntegral"
| "JSONType (JBoolean b) = CBoolean"

record 'f float_ops =
  f_zero :: 'f
  f_to_string :: "'f \<Rightarrow> string"
  f_stod :: "string \<Rightarrow> exn + 'f"
  f_scale :: "'f \<Rightarrow> int \<Rightarrow> 'f"
  f_scale_int :: "int \<Rightarrow> int \<Rightarrow> 'f"

text \<open>Integers in place of \<open>double\<close>, for concrete runs.\<close>

definition float_ops_int :: "int float_ops" where
  "float_ops_int = \<lparr>f_zero = 0, f_to_string = int_dec, f_stod = stol,
     f_scale = (\<lambda>f e. f * 10 ^ nat e), f_scale_int = (\<lambda>i e. i * 10 ^ nat e)\<rparr>"

text \<open>\<open>SetType\<close>: the value of a fresh object of the class, unless the class is the same.\<close>

definition SetType :: "'f float_ops \<Rightarrow> Class \<Rightarrow> 'f JSON \<Rightarrow> 'f JSON" where
  "SetType fo type j =
     (if type = JSONType j then j
      else (case type of
              CNull \<Rightarrow> JNull
            | CObject \<Rightarrow> JObject []
            | CArray \<Rightarrow> JArray []
            | CString \<Rightarrow> JString []
            | CFloating \<Rightarrow> JFloating (f_zero fo)
            | CIntegral \<Rightarrow> JIntegral 0
            | CUIntegral \<Rightarrow> JUIntegral 0
            | CBoolean \<Rightarrow> JBoolean False))"

definition json_Make :: "'f float_ops \<Rightarrow> Class \<Rightarrow> 'f JSON" where
  "json_Make fo type = SetType fo type JNull"

section \<open>Escaping\<close>

abbreviation quote :: char where "quote \<equiv> CHR 0x22"
abbreviation backslash :: char where "backslash \<equiv> CHR 0x5C"

definition escape_char :: "char \<Rightarrow> string" where
  "escape_char c =
     (if c = quote then [backslash, quote]
      else if c = backslash then [backslash, backslash]
      else if c = CHR 0x08 then [backslash, CHR ''b'']
      else if c = CHR 0x0C then [backslash, CHR ''f'']
      else if c = CHR 0x0A then [backslash, CHR ''n'']
      else if c = CHR 0x0D then [backslash, CHR ''r'']
      else if c = CHR 0x09 then [backslash, CHR ''t'']
      else [c])"

fun json_escape :: "string \<Rightarrow> string" where
  "json_escape [] = []"
| "json_escape (c # cs) = escape_char c @ json_escape cs"

section \<open>Objects and arrays\<close>

fun map_put :: "'k :: linorder \<Rightarrow> 'v \<Rightarrow> ('k \<times> 'v) list \<Rightarrow> ('k \<times> 'v) list" where
  "map_put k v [] = [(k, v)]"
| "map_put k v ((k', v') # m) =
     (if k = k' then (k, v) # m else if k < k' then (k, v) # (k', v') # m else (k', v') # map_put k v m)"

text \<open>
  \<open>operator[]\<close> returns a reference, which is made when the key is new: what it refers to and the
  object afterwards, and the assignment of a value through it.
\<close>

definition json_key :: "'f float_ops \<Rightarrow> string \<Rightarrow> 'f JSON \<Rightarrow> 'f JSON \<times> 'f JSON" where
  "json_key fo key j = (case SetType fo CObject j of
     JObject m \<Rightarrow> (case map_of m key of
         None \<Rightarrow> (JNull, JObject (map_put key JNull m))
       | Some v \<Rightarrow> (v, JObject m))
   | j' \<Rightarrow> (JNull, j'))"

definition json_key_assign :: "'f float_ops \<Rightarrow> string \<Rightarrow> 'f JSON \<Rightarrow> 'f JSON \<Rightarrow> 'f JSON" where
  "json_key_assign fo key v j = (case snd (json_key fo key j) of
     JObject m \<Rightarrow> JObject (map_put key v m) | j' \<Rightarrow> j')"

definition json_index :: "'f float_ops \<Rightarrow> u32 \<Rightarrow> 'f JSON \<Rightarrow> ('f JSON \<times> 'f JSON) option" where
  "json_index fo index j = (case SetType fo CArray j of
     JArray l \<Rightarrow>
       (let l' = (if length l \<le> unat index
                  then take (unat (index + 1)) l @ replicate (unat (index + 1) - length l) JNull else l)
        in if unat index < length l' then Some (l' ! unat index, JArray l') else None)
   | j' \<Rightarrow> None)"

definition json_index_assign :: "'f float_ops \<Rightarrow> u32 \<Rightarrow> 'f JSON \<Rightarrow> 'f JSON \<Rightarrow> 'f JSON option" where
  "json_index_assign fo index v j = (case json_index fo index j of
     Some (_, JArray l) \<Rightarrow> Some (JArray (l[unat index := v])) | _ \<Rightarrow> None)"

definition json_append :: "'f float_ops \<Rightarrow> 'f JSON \<Rightarrow> 'f JSON \<Rightarrow> 'f JSON" where
  "json_append fo arg j = (case SetType fo CArray j of JArray l \<Rightarrow> JArray (l @ [arg]) | j' \<Rightarrow> j')"

fun json_append_all :: "'f float_ops \<Rightarrow> 'f JSON list \<Rightarrow> 'f JSON \<Rightarrow> 'f JSON" where
  "json_append_all fo [] j = j"
| "json_append_all fo (arg # args) j = json_append_all fo args (json_append fo arg j)"

definition json_Array :: "'f float_ops \<Rightarrow> 'f JSON list \<Rightarrow> 'f JSON" where
  "json_Array fo args = json_append_all fo args (json_Make fo CArray)"

definition json_Object :: "'f float_ops \<Rightarrow> 'f JSON" where
  "json_Object fo = json_Make fo CObject"

text \<open>The constant \<open>at\<close> functions do not look at the class and throw on a missing key or index.\<close>

definition json_at_key :: "string \<Rightarrow> 'f JSON \<Rightarrow> (exn + 'f JSON) option" where
  "json_at_key key j = (case j of
     JObject m \<Rightarrow> Some (case map_of m key of None \<Rightarrow> Inl Out_of_range | Some v \<Rightarrow> Inr v)
   | _ \<Rightarrow> None)"

definition json_at_index :: "u32 \<Rightarrow> 'f JSON \<Rightarrow> (exn + 'f JSON) option" where
  "json_at_index index j = (case j of
     JArray l \<Rightarrow> Some (if unat index < length l then Inr (l ! unat index) else Inl Out_of_range)
   | _ \<Rightarrow> None)"

definition json_length :: "'f JSON \<Rightarrow> int" where
  "json_length j = (case j of JArray l \<Rightarrow> int (length l) | _ \<Rightarrow> -1)"

definition json_hasKey :: "string \<Rightarrow> 'f JSON \<Rightarrow> bool" where
  "json_hasKey key j = (case j of JObject m \<Rightarrow> map_of m key \<noteq> None | _ \<Rightarrow> False)"

definition json_size :: "'f JSON \<Rightarrow> int" where
  "json_size j = (case j of JObject m \<Rightarrow> int (length m) | JArray l \<Rightarrow> int (length l) | _ \<Rightarrow> -1)"

section \<open>Reading and assigning values\<close>

definition json_IsNull :: "'f JSON \<Rightarrow> bool" where
  "json_IsNull j \<longleftrightarrow> JSONType j = CNull"

text \<open>Each returns whether the class fits, and the value or a default.\<close>

definition json_ToString :: "'f JSON \<Rightarrow> bool \<times> string" where
  "json_ToString j = (case j of JString s \<Rightarrow> (True, json_escape s) | _ \<Rightarrow> (False, []))"

definition json_ToFloat :: "'f float_ops \<Rightarrow> 'f JSON \<Rightarrow> bool \<times> 'f" where
  "json_ToFloat fo j = (case j of JFloating f \<Rightarrow> (True, f) | _ \<Rightarrow> (False, f_zero fo))"

definition json_ToInt :: "'f JSON \<Rightarrow> bool \<times> int" where
  "json_ToInt j = (case j of JIntegral i \<Rightarrow> (True, sint i) | _ \<Rightarrow> (False, 0))"

definition json_ToUInt :: "'f JSON \<Rightarrow> bool \<times> int" where
  "json_ToUInt j = (case j of JUIntegral u \<Rightarrow> (True, sint u) | _ \<Rightarrow> (False, 0))"

definition json_ToBool :: "'f JSON \<Rightarrow> bool \<times> bool" where
  "json_ToBool j = (case j of JBoolean b \<Rightarrow> (True, b) | _ \<Rightarrow> (False, False))"

definition json_ObjectRange :: "'f JSON \<Rightarrow> (string \<times> 'f JSON) list" where
  "json_ObjectRange j = (case j of JObject m \<Rightarrow> m | _ \<Rightarrow> [])"

definition json_ArrayRange :: "'f JSON \<Rightarrow> 'f JSON list" where
  "json_ArrayRange j = (case j of JArray l \<Rightarrow> l | _ \<Rightarrow> [])"

definition json_assign_bool :: "'f float_ops \<Rightarrow> bool \<Rightarrow> 'f JSON \<Rightarrow> 'f JSON" where
  "json_assign_bool fo b j = (case SetType fo CBoolean j of JBoolean _ \<Rightarrow> JBoolean b | j' \<Rightarrow> j')"

definition json_assign_int :: "'f float_ops \<Rightarrow> bool \<Rightarrow> 64 word \<Rightarrow> 'f JSON \<Rightarrow> 'f JSON" where
  "json_assign_int fo is_unsigned i j =
     (let j1 = SetType fo CIntegral j
      in if is_unsigned
         then (case SetType fo CUIntegral j1 of JUIntegral _ \<Rightarrow> JUIntegral i | j' \<Rightarrow> j')
         else (case SetType fo CIntegral j1 of JIntegral _ \<Rightarrow> JIntegral i | j' \<Rightarrow> j'))"

definition json_assign_float :: "'f float_ops \<Rightarrow> 'f \<Rightarrow> 'f JSON \<Rightarrow> 'f JSON" where
  "json_assign_float fo f j = (case SetType fo CFloating j of JFloating _ \<Rightarrow> JFloating f | j' \<Rightarrow> j')"

definition json_assign_string :: "'f float_ops \<Rightarrow> string \<Rightarrow> 'f JSON \<Rightarrow> 'f JSON" where
  "json_assign_string fo s j = (case SetType fo CString j of JString _ \<Rightarrow> JString s | j' \<Rightarrow> j')"

text \<open>
  Moves leave a null value behind. Copy assignment frees the contents of the target first, so that
  copying from the target itself (\<open>inside\<close>) reads freed memory.
\<close>

definition json_move :: "'f JSON \<Rightarrow> 'f JSON \<times> 'f JSON" where
  "json_move other = (other, JNull)"

definition json_copy_assign :: "bool \<Rightarrow> 'f JSON \<Rightarrow> 'f JSON \<Rightarrow> 'f JSON option" where
  "json_copy_assign inside other this =
     (if inside \<and> JSONType this \<in> {CObject, CArray, CString} then None else Some other)"

text \<open>The constructor from an initializer list: keys and values in turn.\<close>

fun json_init_list :: "'f float_ops \<Rightarrow> 'f JSON list \<Rightarrow> 'f JSON \<Rightarrow> 'f JSON option" where
  "json_init_list fo [] j = Some j"
| "json_init_list fo [k] j = None"
| "json_init_list fo (k # v # rest) j = json_init_list fo rest (json_key_assign fo (snd (json_ToString k)) v j)"

section \<open>Printing\<close>

fun dump :: "'f float_ops \<Rightarrow> nat \<Rightarrow> string \<Rightarrow> 'f JSON \<Rightarrow> string"
and dump_members :: "'f float_ops \<Rightarrow> string \<Rightarrow> nat \<Rightarrow> string \<Rightarrow> bool \<Rightarrow> (string \<times> 'f JSON) list \<Rightarrow> string"
and dump_elems :: "'f float_ops \<Rightarrow> nat \<Rightarrow> string \<Rightarrow> bool \<Rightarrow> 'f JSON list \<Rightarrow> string" where
  "dump fo depth tab JNull = ''null''"
| "dump fo depth tab (JObject m) =
     (let pad = concat (replicate depth tab)
      in ''{'' @ dump_members fo pad (depth + 1) tab True m @ drop 2 pad @ ''}'')"
| "dump fo depth tab (JArray l) = ''['' @ dump_elems fo (depth + 1) tab True l @ '']''"
| "dump fo depth tab (JString s) = [quote] @ json_escape s @ [quote]"
| "dump fo depth tab (JFloating f) = f_to_string fo f"
| "dump fo depth tab (JIntegral i) = int_dec (sint i)"
| "dump fo depth tab (JUIntegral u) = nat_dec (unat u)"
| "dump fo depth tab (JBoolean b) = (if b then ''true'' else ''false'')"
| "dump_members fo pad depth tab skip [] = []"
| "dump_members fo pad depth tab skip ((k, v) # m) =
     (if skip then [] else '','') @ pad @ [quote] @ k @ [quote] @ '' : '' @ dump fo depth tab v @
     dump_members fo pad depth tab False m"
| "dump_elems fo depth tab skip [] = []"
| "dump_elems fo depth tab skip (j # l) =
     (if skip then [] else '', '') @ dump fo depth tab j @ dump_elems fo depth tab False l"

section \<open>Well-formed values\<close>

text \<open>The keys of an object, at every depth, are strictly increasing.\<close>

fun json_wf :: "'f JSON \<Rightarrow> bool"
and members_wf :: "(string \<times> 'f JSON) list \<Rightarrow> bool"
and elems_wf :: "'f JSON list \<Rightarrow> bool" where
  "json_wf (JObject m) \<longleftrightarrow> sorted_wrt (<) (map fst m) \<and> members_wf m"
| "json_wf (JArray l) \<longleftrightarrow> elems_wf l"
| "json_wf JNull \<longleftrightarrow> True"
| "json_wf (JString s) \<longleftrightarrow> True"
| "json_wf (JFloating f) \<longleftrightarrow> True"
| "json_wf (JIntegral i) \<longleftrightarrow> True"
| "json_wf (JUIntegral u) \<longleftrightarrow> True"
| "json_wf (JBoolean b) \<longleftrightarrow> True"
| "members_wf [] \<longleftrightarrow> True"
| "members_wf ((k, v) # m) \<longleftrightarrow> json_wf v \<and> members_wf m"
| "elems_wf [] \<longleftrightarrow> True"
| "elems_wf (j # l) \<longleftrightarrow> json_wf j \<and> elems_wf l"

lemma members_wf_iff: "members_wf m \<longleftrightarrow> (\<forall>(k, v) \<in> set m. json_wf v)"
  by (induction m) auto

lemma elems_wf_iff: "elems_wf l \<longleftrightarrow> (\<forall>j \<in> set l. json_wf j)"
  by (induction l) auto

lemma set_map_put: "set (map_put k v m) \<subseteq> insert (k, v) (set m)"
  by (induction m) (auto split: if_splits)

lemma keys_map_put: "set (map fst (map_put k v m)) = insert k (set (map fst m))"
  by (induction k v m rule: map_put.induct) (simp_all add: insert_commute)

lemma sorted_map_put: "sorted_wrt (<) (map fst m) \<Longrightarrow> sorted_wrt (<) (map fst (map_put k v m))"
proof (induction m)
  case (Cons a m)
  obtain k' v' where a: "a = (k', v')" by (cases a)
  have "\<forall>x \<in> set (map fst m). k' < x" using Cons.prems a by simp
  moreover have "\<forall>x \<in> set (map fst (map_put k v m)). k' < x" if "k' < k"
    unfolding keys_map_put using that calculation by blast
  ultimately show ?case using Cons a by (simp split: if_splits) (meson order_less_trans neqE)
qed simp

lemma map_of_map_put:
  "sorted_wrt (<) (map fst m) \<Longrightarrow> map_of (map_put k v m) = (map_of m)(k \<mapsto> v)"
  by (induction m) (auto simp: fun_eq_iff split: if_splits)

lemma map_put_last:
  "\<forall>x \<in> fst ` set m. x < k \<Longrightarrow> map_put k v m = m @ [(k, v)]"
  by (induction m) auto

lemma SetType_object: "\<exists>m. SetType fo CObject j = JObject m"
  by (cases j) (simp_all add: SetType_def)

lemma SetType_wf: "json_wf j \<Longrightarrow> json_wf (SetType fo type j)"
  by (simp add: SetType_def split: Class.split)

lemma json_key_assign_object:
  "json_key_assign fo k v (JObject m) = JObject (map_put k v (case map_of m k of None \<Rightarrow> map_put k JNull m | _ \<Rightarrow> m))"
  by (simp add: json_key_assign_def json_key_def SetType_def split: option.split)

lemma map_put_put: "map_put k v (map_put k w m) = map_put k v m"
  by (induction m) auto

lemma json_key_assign_put: "json_key_assign fo k v (JObject m) = JObject (map_put k v m)"
  by (simp add: json_key_assign_object map_put_put split: option.split)

lemma json_put_wf:
  assumes "json_wf (JObject m)" and "json_wf v"
  shows "json_wf (JObject (map_put k v m))"
  using assms set_map_put [of k v m] sorted_map_put [of m k v] by (auto simp: members_wf_iff)

lemma json_key_assign_wf:
  assumes "json_wf j" and "json_wf v"
  shows "json_wf (json_key_assign fo k v j)"
proof -
  obtain m where m: "SetType fo CObject j = JObject m" using SetType_object by blast
  have "json_key_assign fo k v j = json_key_assign fo k v (JObject m)"
    by (simp add: json_key_assign_def json_key_def m SetType_def [of fo CObject "JObject m"])
  moreover have "json_wf (JObject m)" using SetType_wf [OF assms(1), of fo CObject] m by simp
  ultimately show ?thesis using json_put_wf assms(2) by (simp add: json_key_assign_put)
qed

end
