(* ===== verification/Json_Parser.thy ===== *)
theory Json_Parser
  imports Json_Value
begin

text \<open>
  The parser of \<open>include/utils/json.hpp\<close>. A parse function returns its value and the offset it
  leaves, or the fault it ends in: \<open>str[offset]\<close> past the terminating NUL is undefined
  behaviour, and \<open>std::stol\<close>, \<open>std::stod\<close> and \<open>substr\<close> throw. The mutually recursive
  functions take fuel; \<open>json_Load\<close> passes an amount that is proved to be enough. Messages to
  \<open>std::cerr\<close> are not modelled.
\<close>

section \<open>Reading characters\<close>

datatype json_fault = Undefined | Throws exn | Out_of_fuel

type_synonym 'a parsed = "json_fault + 'a \<times> nat"

definition char_at :: "string \<Rightarrow> nat \<Rightarrow> json_fault + char" where
  "char_at str off =
     (if off < length str then Inr (str ! off) else if off = length str then Inr NUL else Inl Undefined)"

lemma char_at_bound: "char_at str off = Inr c \<Longrightarrow> off \<le> length str"
  by (simp add: char_at_def split: if_splits)

lemma char_at_less: "char_at str off = Inr c \<Longrightarrow> c \<noteq> NUL \<Longrightarrow> off < length str"
  by (simp add: char_at_def split: if_splits)

lemma isdigit_not_NUL: "isdigit c \<Longrightarrow> c \<noteq> NUL"
  by (auto simp: isdigit_def NUL_def)

lemma isspace_not_NUL: "isspace c \<Longrightarrow> c \<noteq> NUL"
  by auto

function consume_ws :: "string \<Rightarrow> nat \<Rightarrow> json_fault + nat" where
  "consume_ws str off = (case char_at str off of
     Inl e \<Rightarrow> Inl e
   | Inr c \<Rightarrow> if isspace c then consume_ws str (off + 1) else Inr off)"
  by pat_completeness auto
termination
  by (relation "measure (\<lambda>(str, off). length str - off)") (auto dest!: char_at_less)

declare consume_ws.simps [simp del]

section \<open>Strings\<close>

definition ishex :: "char \<Rightarrow> bool" where
  "ishex c \<longleftrightarrow> isdigit c \<or> 97 \<le> (of_char c :: nat) \<and> (of_char c :: nat) \<le> 102 \<or>
              65 \<le> (of_char c :: nat) \<and> (of_char c :: nat) \<le> 70"

text \<open>The hexadecimal digits from \<open>offset + i\<close> on, or that one of them is none.\<close>

fun unicode_escape :: "string \<Rightarrow> nat \<Rightarrow> nat \<Rightarrow> nat \<Rightarrow> string \<Rightarrow> json_fault + string option" where
  "unicode_escape str off i 0 val = Inr (Some val)"
| "unicode_escape str off i (Suc n) val = (case char_at str (off + i) of
     Inl e \<Rightarrow> Inl e
   | Inr c \<Rightarrow> if ishex c then unicode_escape str off (i + 1) n (val @ [c]) else Inr None)"

text \<open>What the simple escapes stand for; any other character stands for the backslash.\<close>

definition unescape_char :: "char \<Rightarrow> char" where
  "unescape_char d =
     (if d = quote then quote else if d = backslash then backslash else if d = CHR ''/'' then CHR ''/''
      else if d = CHR ''b'' then CHR 0x08 else if d = CHR ''f'' then CHR 0x0C
      else if d = CHR ''n'' then CHR 0x0A else if d = CHR ''r'' then CHR 0x0D
      else if d = CHR ''t'' then CHR 0x09 else backslash)"

text \<open>The loop of \<open>parse_string\<close>, with \<open>off\<close> the position of the character \<open>c\<close>.\<close>

function string_loop :: "string \<Rightarrow> nat \<Rightarrow> string \<Rightarrow> string parsed" where
  "string_loop str off val = (case char_at str off of
     Inl e \<Rightarrow> Inl e
   | Inr c \<Rightarrow>
       if c = quote \<or> c = NUL then Inr (val, off + 1)
       else if c = backslash then
         (case char_at str (off + 1) of
            Inl e \<Rightarrow> Inl e
          | Inr d \<Rightarrow>
              if d = CHR ''u'' then
                (case unicode_escape str (off + 1) 1 4 (val @ [backslash, CHR ''u'']) of
                   Inl e \<Rightarrow> Inl e
                 | Inr None \<Rightarrow> Inr ([], off + 1)
                 | Inr (Some val') \<Rightarrow> string_loop str (off + 6) val')
              else string_loop str (off + 2) (val @ [unescape_char d]))
       else string_loop str (off + 1) (val @ [c]))"
  by pat_completeness auto
termination
  by (relation "measure (\<lambda>(str, off, val). length str + 1 - off)") (auto dest!: char_at_bound)

declare string_loop.simps [simp del]

definition parse_string :: "string \<Rightarrow> nat \<Rightarrow> 'f JSON parsed" where
  "parse_string str off = (case string_loop str (off + 1) [] of
     Inl e \<Rightarrow> Inl e | Inr (val, off') \<Rightarrow> Inr (JString val, off'))"

section \<open>Numbers\<close>

definition isdelim :: "char \<Rightarrow> bool" where
  "isdelim c \<longleftrightarrow> isspace c \<or> c = CHR '','' \<or> c = CHR '']'' \<or> c = CHR ''}''"

text \<open>The first loop: the character that ended it, the text and whether it has a point.\<close>

function number_loop :: "string \<Rightarrow> nat \<Rightarrow> string \<Rightarrow> bool \<Rightarrow> (char \<times> string \<times> bool) parsed" where
  "number_loop str off val isDouble = (case char_at str off of
     Inl e \<Rightarrow> Inl e
   | Inr c \<Rightarrow>
       if c = CHR ''-'' \<or> isdigit c then number_loop str (off + 1) (val @ [c]) isDouble
       else if c = CHR ''.'' then number_loop str (off + 1) (val @ [c]) True
       else Inr ((c, val, isDouble), off + 1))"
  by pat_completeness auto
termination
  by (relation "measure (\<lambda>(str, off, val, isDouble). length str + 1 - off)") (auto dest!: char_at_bound)

declare number_loop.simps [simp del]

text \<open>The loop over the exponent; \<open>None\<close> is an unexpected character.\<close>

function exp_loop :: "string \<Rightarrow> nat \<Rightarrow> string \<Rightarrow> string option parsed" where
  "exp_loop str off exp_str = (case char_at str off of
     Inl e \<Rightarrow> Inl e
   | Inr c \<Rightarrow>
       if isdigit c then exp_loop str (off + 1) (exp_str @ [c])
       else if \<not> isdelim c then Inr (None, off + 1)
       else Inr (Some exp_str, off + 1))"
  by pat_completeness auto
termination
  by (relation "measure (\<lambda>(str, off, exp_str). length str + 1 - off)") (auto dest!: char_at_bound)

declare exp_loop.simps [simp del]

text \<open>The exponent: the character after the letter is read and dropped unless it is a minus sign.\<close>

definition parse_exponent :: "string \<Rightarrow> nat \<Rightarrow> string option parsed" where
  "parse_exponent str off = (case char_at str off of
     Inl e \<Rightarrow> Inl e
   | Inr c \<Rightarrow> if c = CHR ''-'' then exp_loop str (off + 2) ''-'' else exp_loop str (off + 1) [])"

definition number_value :: "'f float_ops \<Rightarrow> string \<Rightarrow> bool \<Rightarrow> string \<Rightarrow> int \<Rightarrow> exn + 'f JSON" where
  "number_value fo val isDouble exp_str exp =
     (if isDouble then (case f_stod fo val of Inl e \<Rightarrow> Inl e | Inr f \<Rightarrow> Inr (JFloating (f_scale fo f exp)))
      else (case stol val of
              Inl e \<Rightarrow> Inl e
            | Inr i \<Rightarrow> Inr (if exp_str \<noteq> [] then JFloating (f_scale_int fo i exp) else JIntegral (word_of_int i))))"

definition parse_number :: "'f float_ops \<Rightarrow> string \<Rightarrow> nat \<Rightarrow> 'f JSON parsed" where
  "parse_number fo str off = (case number_loop str off [] False of
     Inl e \<Rightarrow> Inl e
   | Inr ((c, val, isDouble), off1) \<Rightarrow>
       if c = CHR ''E'' \<or> c = CHR ''e'' then
         (case parse_exponent str off1 of
            Inl e \<Rightarrow> Inl e
          | Inr (None, off2) \<Rightarrow> Inr (JNull, off2)
          | Inr (Some exp_str, off2) \<Rightarrow>
              (case stol exp_str of
                 Inl e \<Rightarrow> Inl (Throws e)
               | Inr exp \<Rightarrow>
                   (case number_value fo val isDouble exp_str exp of
                      Inl e \<Rightarrow> Inl (Throws e) | Inr j \<Rightarrow> Inr (j, off2 - 1))))
       else if \<not> isdelim c then Inr (JNull, off1)
       else
         (case number_value fo val isDouble [] 0 of
            Inl e \<Rightarrow> Inl (Throws e) | Inr j \<Rightarrow> Inr (j, off1 - 1)))"

section \<open>Literals\<close>

definition substr :: "string \<Rightarrow> nat \<Rightarrow> nat \<Rightarrow> json_fault + string" where
  "substr str off n = (if length str < off then Inl (Throws Out_of_range) else Inr (take n (drop off str)))"

definition parse_bool :: "string \<Rightarrow> nat \<Rightarrow> 'f JSON parsed" where
  "parse_bool str off = (case substr str off 4 of
     Inl e \<Rightarrow> Inl e
   | Inr s \<Rightarrow>
       if s = ''true'' then Inr (JBoolean True, off + 4)
       else (case substr str off 5 of
               Inl e \<Rightarrow> Inl e
             | Inr s \<Rightarrow> if s = ''false'' then Inr (JBoolean False, off + 5) else Inr (JNull, off)))"

definition parse_null :: "string \<Rightarrow> nat \<Rightarrow> 'f JSON parsed" where
  "parse_null str off = (case substr str off 4 of
     Inl e \<Rightarrow> Inl e
   | Inr s \<Rightarrow> if s \<noteq> ''null'' then Inr (JNull, off) else Inr (JNull, off + 4))"

section \<open>Values\<close>

text \<open>
  One pass of the loops of \<open>parse_object\<close> and \<open>parse_array\<close>, where \<open>parse\<close> is
  \<open>parse_next\<close> on the string: whether the loop goes on, the value so far and the offset.
\<close>

definition object_member ::
    "'f float_ops \<Rightarrow> (nat \<Rightarrow> 'f JSON parsed) \<Rightarrow> string \<Rightarrow> nat \<Rightarrow> 'f JSON \<Rightarrow> (bool \<times> 'f JSON) parsed" where
  "object_member fo parse str off Object = (case parse off of
     Inl e \<Rightarrow> Inl e
   | Inr (Key, off1) \<Rightarrow> (case consume_ws str off1 of
       Inl e \<Rightarrow> Inl e
     | Inr off2 \<Rightarrow> (case char_at str off2 of
         Inl e \<Rightarrow> Inl e
       | Inr c \<Rightarrow>
           if c \<noteq> CHR '':'' then Inr ((False, Object), off2)
           else (case consume_ws str (off2 + 1) of
             Inl e \<Rightarrow> Inl e
           | Inr off3 \<Rightarrow> (case parse off3 of
               Inl e \<Rightarrow> Inl e
             | Inr (Value, off4) \<Rightarrow>
                 (let Object' = json_key_assign fo (snd (json_ToString Key)) Value Object
                  in case consume_ws str off4 of
                       Inl e \<Rightarrow> Inl e
                     | Inr off5 \<Rightarrow> (case char_at str off5 of
                         Inl e \<Rightarrow> Inl e
                       | Inr c \<Rightarrow>
                           if c = CHR '','' then Inr ((True, Object'), off5 + 1)
                           else if c = CHR ''}'' then Inr ((False, Object'), off5 + 1)
                           else Inr ((False, Object'), off5))))))))"

fun object_loop ::
    "'f float_ops \<Rightarrow> (nat \<Rightarrow> 'f JSON parsed) \<Rightarrow> nat \<Rightarrow> string \<Rightarrow> nat \<Rightarrow> 'f JSON \<Rightarrow> 'f JSON parsed" where
  "object_loop fo parse 0 str off Object = Inl Out_of_fuel"
| "object_loop fo parse (Suc n) str off Object = (case object_member fo parse str off Object of
     Inl e \<Rightarrow> Inl e
   | Inr ((continue, Object'), off') \<Rightarrow>
       if continue then object_loop fo parse n str off' Object' else Inr (Object', off'))"

definition parse_object ::
    "'f float_ops \<Rightarrow> (nat \<Rightarrow> 'f JSON parsed) \<Rightarrow> nat \<Rightarrow> string \<Rightarrow> nat \<Rightarrow> 'f JSON parsed" where
  "parse_object fo parse n str off = (case consume_ws str (off + 1) of
     Inl e \<Rightarrow> Inl e
   | Inr off1 \<Rightarrow> (case char_at str off1 of
       Inl e \<Rightarrow> Inl e
     | Inr c \<Rightarrow>
         if c = CHR ''}'' then Inr (json_Make fo CObject, off1 + 1)
         else object_loop fo parse n str off1 (json_Make fo CObject)))"

definition array_elem ::
    "'f float_ops \<Rightarrow> (nat \<Rightarrow> 'f JSON parsed) \<Rightarrow> string \<Rightarrow> nat \<Rightarrow> u32 \<Rightarrow> 'f JSON \<Rightarrow> (bool \<times> 'f JSON) parsed" where
  "array_elem fo parse str off index Array = (case parse off of
     Inl e \<Rightarrow> Inl e
   | Inr (j, off1) \<Rightarrow> (case json_index_assign fo index j Array of
       None \<Rightarrow> Inl Undefined
     | Some Array' \<Rightarrow> (case consume_ws str off1 of
         Inl e \<Rightarrow> Inl e
       | Inr off2 \<Rightarrow> (case char_at str off2 of
           Inl e \<Rightarrow> Inl e
         | Inr c \<Rightarrow>
             if c = CHR '','' then Inr ((True, Array'), off2 + 1)
             else if c = CHR '']'' then Inr ((False, Array'), off2 + 1)
             else Inr ((False, json_Make fo CArray), off2)))))"

fun array_loop ::
    "'f float_ops \<Rightarrow> (nat \<Rightarrow> 'f JSON parsed) \<Rightarrow> nat \<Rightarrow> string \<Rightarrow> nat \<Rightarrow> u32 \<Rightarrow> 'f JSON \<Rightarrow> 'f JSON parsed" where
  "array_loop fo parse 0 str off index Array = Inl Out_of_fuel"
| "array_loop fo parse (Suc n) str off index Array = (case array_elem fo parse str off index Array of
     Inl e \<Rightarrow> Inl e
   | Inr ((continue, Array'), off') \<Rightarrow>
       if continue then array_loop fo parse n str off' (index + 1) Array' else Inr (Array', off'))"

definition parse_array ::
    "'f float_ops \<Rightarrow> (nat \<Rightarrow> 'f JSON parsed) \<Rightarrow> nat \<Rightarrow> string \<Rightarrow> nat \<Rightarrow> 'f JSON parsed" where
  "parse_array fo parse n str off = (case consume_ws str (off + 1) of
     Inl e \<Rightarrow> Inl e
   | Inr off1 \<Rightarrow> (case char_at str off1 of
       Inl e \<Rightarrow> Inl e
     | Inr c \<Rightarrow>
         if c = CHR '']'' then Inr (json_Make fo CArray, off1 + 1)
         else array_loop fo parse n str off1 0 (json_Make fo CArray)))"

fun parse_next :: "'f float_ops \<Rightarrow> nat \<Rightarrow> string \<Rightarrow> nat \<Rightarrow> 'f JSON parsed" where
  "parse_next fo 0 str off = Inl Out_of_fuel"
| "parse_next fo (Suc n) str off = (case consume_ws str off of
     Inl e \<Rightarrow> Inl e
   | Inr off1 \<Rightarrow> (case char_at str off1 of
       Inl e \<Rightarrow> Inl e
     | Inr value \<Rightarrow>
         if value = CHR ''['' then parse_array fo (parse_next fo n str) n str off1
         else if value = CHR ''{'' then parse_object fo (parse_next fo n str) n str off1
         else if value = quote then parse_string str off1
         else if value = CHR ''t'' \<or> value = CHR ''f'' then parse_bool str off1
         else if value = CHR ''n'' then parse_null str off1
         else if isdigit value \<or> value = CHR ''-'' then parse_number fo str off1
         else Inr (JNull, off1)))"

definition json_Load :: "'f float_ops \<Rightarrow> string \<Rightarrow> json_fault + 'f JSON" where
  "json_Load fo str = map_sum id fst (parse_next fo (length str + 3) str 0)"

end
