(* ===== verification/Json_Termination.thy ===== *)
theory Json_Termination
  imports Json_Parser
begin

text \<open>
  The JSON parser terminates: offsets never go back, so that fuel beyond the length of the text is
  enough for the recursion and the loops. The values it builds are well formed.
\<close>

section \<open>Progress\<close>

text \<open>No fault is a lack of fuel, and a result's offset is at least \<open>off\<close>.\<close>

definition fuel_ok :: "json_fault \<Rightarrow> bool" where
  "fuel_ok e \<longleftrightarrow> e \<noteq> Out_of_fuel"

abbreviation advances :: "nat \<Rightarrow> 'a parsed \<Rightarrow> bool" where
  "advances off r \<equiv> sum_all fuel_ok (\<lambda>(v, off'). off \<le> off') r"

named_theorems json_binds \<open>rules for reading the result of a parse function\<close>

lemma advances_mono: "advances off r \<Longrightarrow> off' \<le> off \<Longrightarrow> advances off' r"
  by (auto elim: sum_all_weaken)

lemma char_at_all: "sum_all fuel_ok (\<lambda>c. off \<le> length str) (char_at str off)"
  by (simp add: char_at_def sum_all_def fuel_ok_def)

lemmas char_at_bind [json_binds] = sum_all_bind [OF char_at_all]

lemma consume_ws_all: "sum_all fuel_ok (\<lambda>off'. off \<le> off') (consume_ws str off)"
proof (induction str off rule: consume_ws.induct)
  case (1 str off)
  show ?case
    by (subst consume_ws.simps, intro sum_intros)
       (use 1 in \<open>auto elim: sum_all_weaken dest: sum_allE [OF char_at_all]\<close>)
qed

lemmas consume_ws_bind [json_binds] = sum_all_bind [OF consume_ws_all]

lemma unicode_escape_all: "sum_all fuel_ok (\<lambda>r. True) (unicode_escape str off i n val)"
  by (induction str off i n val rule: unicode_escape.induct)
     (auto simp: sum_all_def fuel_ok_def char_at_def split: sum.splits)

text \<open>The loops read a character and go on at a later offset.\<close>

lemma scan_induct:
  assumes "\<And>off. (\<And>off'. off < off' \<Longrightarrow> off \<le> length str \<Longrightarrow> P off') \<Longrightarrow> P off"
  shows "P (off :: nat)"
proof (induction "length str + 1 - off" arbitrary: off rule: less_induct)
  case less
  show ?case by (rule assms) (rule less, simp)
qed

lemma string_loop_all: "advances (off + 1) (string_loop str off val)"
proof (induction off arbitrary: val rule: scan_induct [of str])
  case (1 off)
  have n: "advances (off + 1) (string_loop str off' val')" if "off < off'" "off \<le> length str"
    for off' val'
    by (rule advances_mono [OF 1 [OF that]]) (use that in simp)
  show ?case
    by (subst string_loop.simps, intro json_binds sum_all_bind [OF unicode_escape_all] sum_all_case_option sum_all_if sum_all_Inr n) auto
qed

lemma number_loop_all: "advances (off + 1) (number_loop str off val d)"
proof (induction off arbitrary: val d rule: scan_induct [of str])
  case (1 off)
  have n: "advances (off + 1) (number_loop str off' val' d')" if "off < off'" "off \<le> length str"
    for off' val' d'
    by (rule advances_mono [OF 1 [OF that]]) (use that in simp)
  show ?case
    by (subst number_loop.simps, intro json_binds sum_all_if sum_all_Inr n) auto
qed

lemma exp_loop_all: "advances (off + 1) (exp_loop str off val)"
proof (induction off arbitrary: val rule: scan_induct [of str])
  case (1 off)
  have n: "advances (off + 1) (exp_loop str off' val')" if "off < off'" "off \<le> length str"
    for off' val'
    by (rule advances_mono [OF 1 [OF that]]) (use that in simp)
  show ?case
    by (subst exp_loop.simps, intro json_binds sum_all_if sum_all_Inr n) auto
qed

lemma parse_exponent_all: "advances (off + 1) (parse_exponent str off)"
  unfolding parse_exponent_def
  by (intro json_binds sum_all_if advances_mono [OF exp_loop_all]) auto

lemma parse_number_all: "advances off (parse_number fo str off)"
  unfolding parse_number_def
  by (intro sum_all_bind [OF number_loop_all] sum_all_bind [OF parse_exponent_all] sum_intros)
     (auto simp: fuel_ok_def)

lemma parse_string_all: "advances off (parse_string str off)"
  unfolding parse_string_def
  by (intro sum_all_bind [OF string_loop_all] sum_intros) auto

lemma parse_bool_all: "advances off (parse_bool str off)"
  unfolding parse_bool_def by (intro sum_intros) (auto simp: substr_def fuel_ok_def split: if_splits)

lemma parse_null_all: "advances off (parse_null str off)"
  unfolding parse_null_def by (intro sum_intros) (auto simp: substr_def fuel_ok_def split: if_splits)

section \<open>Fuel\<close>

text \<open>The contract of the recursive call, from an offset on, and the loops that rely on it.\<close>

definition parses_from :: "nat \<Rightarrow> (nat \<Rightarrow> 'a parsed) \<Rightarrow> bool" where
  "parses_from off parse \<longleftrightarrow> (\<forall>off' \<ge> off. advances off' (parse off'))"

lemma parses_fromD: "parses_from off parse \<Longrightarrow> off \<le> off' \<Longrightarrow> advances off' (parse off')"
  by (simp add: parses_from_def)

lemma parses_from_mono: "parses_from off parse \<Longrightarrow> off \<le> off' \<Longrightarrow> parses_from off' parse"
  by (simp add: parses_from_def)

text \<open>A pass of a loop goes on only after it has advanced.\<close>

abbreviation loop_advances :: "nat \<Rightarrow> string \<Rightarrow> (bool \<times> 'a) parsed \<Rightarrow> bool" where
  "loop_advances off str r \<equiv>
     sum_all fuel_ok (\<lambda>((c, j), off'). off \<le> off' \<and> (c \<longrightarrow> off < off' \<and> off \<le> length str)) r"

lemma object_member_all:
  assumes "parses_from off parse"
  shows "loop_advances off str (object_member fo parse str off Object)"
  unfolding object_member_def
  by (intro json_binds sum_all_bind [OF parses_fromD [OF assms]] sum_all_if sum_all_Let sum_all_case_prod sum_all_Inr)
     auto

lemma array_elem_all:
  assumes "parses_from off parse"
  shows "loop_advances off str (array_elem fo parse str off index Array)"
  unfolding array_elem_def
  by (intro json_binds sum_all_bind [OF parses_fromD [OF assms]] sum_all_if sum_all_Let sum_all_case_prod
      sum_all_case_option sum_all_Inr sum_all_Inl)
     (auto simp: fuel_ok_def)

lemma object_loop_all:
  "parses_from off parse \<Longrightarrow> length str + 2 - off < n \<Longrightarrow> advances off (object_loop fo parse n str off Object)"
proof (induction n arbitrary: off Object)
  case (Suc n)
  have n: "advances off (object_loop fo parse n str off' Object')" if "off < off'" "off \<le> length str" for off' Object'
    by (rule advances_mono [OF Suc.IH]) (use Suc.prems that in \<open>auto intro: parses_from_mono\<close>)
  show ?case
    unfolding object_loop.simps
    by (intro sum_all_bind [OF object_member_all [OF Suc.prems(1)]] sum_all_case_prod sum_all_if sum_all_Inr n) auto
qed simp

lemma array_loop_all:
  "parses_from off parse \<Longrightarrow> length str + 2 - off < n \<Longrightarrow> advances off (array_loop fo parse n str off index Array)"
proof (induction n arbitrary: off index Array)
  case (Suc n)
  have n: "advances off (array_loop fo parse n str off' index' Array')" if "off < off'" "off \<le> length str"
    for off' index' Array'
    by (rule advances_mono [OF Suc.IH]) (use Suc.prems that in \<open>auto intro: parses_from_mono\<close>)
  show ?case
    unfolding array_loop.simps
    by (intro sum_all_bind [OF array_elem_all [OF Suc.prems(1)]] sum_all_case_prod sum_all_if sum_all_Inr n) auto
qed simp

lemma parse_next_all: "length str + 2 - off < n \<Longrightarrow> advances off (parse_next fo n str off)"
proof (induction n arbitrary: off)
  case (Suc n)
  have f: "parses_from off1 (parse_next fo n str)" if "off < off1" "off \<le> length str" for off1
    using Suc that by (auto simp: parses_from_def)
  show ?case
    unfolding parse_next.simps parse_array_def parse_object_def
    by (intro json_binds sum_all_if sum_all_Inr advances_mono [OF object_loop_all [OF f]]
        advances_mono [OF array_loop_all [OF f]] advances_mono [OF parse_number_all]
        advances_mono [OF parse_string_all] advances_mono [OF parse_bool_all] advances_mono [OF parse_null_all])
       (use Suc.prems in auto)
qed simp

text \<open>
  C13: the JSON parser terminates on every text: the fuel \<open>json_Load\<close> starts with is never used up, so
  that loading ends with a value, with an exception of the number functions, or by indexing past the
  end of the text.
\<close>

theorem json_Load_terminates: "json_Load fo str \<noteq> Inl Out_of_fuel"
  using sum_allE [OF parse_next_all, of str 0 "length str + 3" fo]
  by (auto simp: json_Load_def map_sum_def fuel_ok_def split: sum.splits)

section \<open>Well-formed results\<close>

abbreviation wf_result :: "'f JSON parsed \<Rightarrow> bool" where
  "wf_result r \<equiv> sum_all (\<lambda>e. True) (\<lambda>(j, off). json_wf j) r"

lemma json_Make_wf: "json_wf (json_Make fo type)"
  by (simp add: json_Make_def SetType_wf)

lemma json_index_assign_wf:
  assumes "json_wf j" and "json_wf Array" and "json_index_assign fo index j Array = Some Array'"
  shows "json_wf Array'"
proof -
  obtain v l where i: "json_index fo index Array = Some (v, JArray l)" "Array' = JArray (l[unat index := j])"
    using assms(3) by (auto simp: json_index_assign_def split: option.splits JSON.splits)
  then obtain l0 where l0: "SetType fo CArray Array = JArray l0"
      "l = (if length l0 \<le> unat index
            then take (unat (index + 1)) l0 @ replicate (unat (index + 1) - length l0) JNull else l0)"
    by (auto simp: json_index_def Let_def split: JSON.splits if_splits)
  have "\<forall>x \<in> set l0. json_wf x" using SetType_wf [OF assms(2), of fo CArray] l0(1) by (simp add: elems_wf_iff)
  then have "\<forall>x \<in> set l. json_wf x" using l0(2) by (auto dest: in_set_takeD split: if_splits)
  then show ?thesis using i(2) assms(1) by (auto simp: elems_wf_iff dest: subsetD [OF set_update_subset_insert])
qed

lemma parse_number_wf: "wf_result (parse_number fo str off)"
  unfolding parse_number_def
  by (intro sum_intros) (auto simp: number_value_def split: if_splits sum.splits)

lemma scalar_wf:
  "wf_result (parse_string str off)" "wf_result (parse_bool str off)" "wf_result (parse_null str off)"
  unfolding parse_string_def parse_bool_def parse_null_def by (intro sum_intros; simp)+

lemma object_loop_wf:
  assumes "\<And>off. wf_result (parse off)"
  shows "json_wf Object \<Longrightarrow> wf_result (object_loop fo parse n str off Object)"
proof (induction n arbitrary: off Object)
  case (Suc n)
  have m: "sum_all (\<lambda>e. True) (\<lambda>((c, j), off'). json_wf j) (object_member fo parse str off Object)"
    unfolding object_member_def
    by (intro sum_all_bind [OF assms] sum_intros) (auto intro: json_key_assign_wf Suc.prems)
  show ?case
    unfolding object_loop.simps
    by (intro sum_all_bind [OF m] sum_all_case_prod sum_all_if sum_all_Inr Suc.IH) auto
qed (simp add: sum_all_def)

lemma array_loop_wf:
  assumes "\<And>off. wf_result (parse off)"
  shows "json_wf Array \<Longrightarrow> wf_result (array_loop fo parse n str off index Array)"
proof (induction n arbitrary: off index Array)
  case (Suc n)
  have m: "sum_all (\<lambda>e. True) (\<lambda>((c, j), off'). json_wf j) (array_elem fo parse str off index Array)"
    unfolding array_elem_def
    by (intro sum_all_bind [OF assms] sum_intros) (auto intro: json_index_assign_wf Suc.prems json_Make_wf)
  show ?case
    unfolding array_loop.simps
    by (intro sum_all_bind [OF m] sum_all_case_prod sum_all_if sum_all_Inr Suc.IH) auto
qed (simp add: sum_all_def)

lemma parse_next_wf: "wf_result (parse_next fo n str off)"
proof (induction n arbitrary: off)
  case (Suc n)
  show ?case
    unfolding parse_next.simps parse_array_def parse_object_def
    by (intro sum_intros object_loop_wf array_loop_wf parse_number_wf scalar_wf Suc.IH)
       (simp_all add: json_Make_wf)
qed (simp add: sum_all_def)


end
