(* ===== verification/Json_Grammar.thy ===== *)
theory Json_Grammar
  imports Json_Termination
begin

text \<open>
  What the JSON parser accepts and the printer produces. The relation \<open>renders\<close> is the grammar of
  JSON texts for null, booleans, integers, strings, arrays and objects, with blanks between the
  tokens; the parser reads every such text, and \<open>dump\<close> writes one.
\<close>

section \<open>Grammar\<close>

definition blanks :: "string \<Rightarrow> bool" where
  "blanks w \<longleftrightarrow> (\<forall>c \<in> set w. isspace c)"

definition quoted :: "string \<Rightarrow> string" where
  "quoted s = [quote] @ json_escape s @ [quote]"

definition put_all :: "('k :: linorder \<times> 'v) list \<Rightarrow> ('k \<times> 'v) list \<Rightarrow> ('k \<times> 'v) list" where
  "put_all ms m = foldl (\<lambda>m (k, v). map_put k v m) m ms"

inductive renders :: "'f JSON \<Rightarrow> string \<Rightarrow> bool"
  and renders_elems :: "'f JSON list \<Rightarrow> string \<Rightarrow> bool"
  and renders_members :: "(string \<times> 'f JSON) list \<Rightarrow> string \<Rightarrow> bool" where
  null: "renders JNull ''null''"
| true: "renders (JBoolean True) ''true''"
| false: "renders (JBoolean False) ''false''"
| int: "renders (JIntegral i) (int_dec (sint i))"
| str: "NUL \<notin> set s \<Longrightarrow> renders (JString s) (quoted s)"
| arr0: "blanks w \<Longrightarrow> renders (JArray []) (''['' @ w @ '']'')"
| arr: "renders_elems l t \<Longrightarrow> renders (JArray l) (''['' @ t @ '']'')"
| obj0: "blanks w \<Longrightarrow> renders (JObject []) (''{'' @ w @ ''}'')"
| obj: "renders_members ms t \<Longrightarrow> renders (JObject (put_all ms [])) (''{'' @ t @ ''}'')"
| elem: "blanks w1 \<Longrightarrow> renders j s \<Longrightarrow> blanks w2 \<Longrightarrow> renders_elems [j] (w1 @ s @ w2)"
| elems: "blanks w1 \<Longrightarrow> renders j s \<Longrightarrow> blanks w2 \<Longrightarrow> renders_elems l t \<Longrightarrow>
    renders_elems (j # l) (w1 @ s @ w2 @ '','' @ t)"
| member: "blanks w1 \<Longrightarrow> NUL \<notin> set k \<Longrightarrow> blanks w2 \<Longrightarrow> blanks w3 \<Longrightarrow> renders j s \<Longrightarrow> blanks w4 \<Longrightarrow>
    renders_members [(json_escape k, j)] (w1 @ quoted k @ w2 @ '':'' @ w3 @ s @ w4)"
| members: "blanks w1 \<Longrightarrow> NUL \<notin> set k \<Longrightarrow> blanks w2 \<Longrightarrow> blanks w3 \<Longrightarrow> renders j s \<Longrightarrow> blanks w4 \<Longrightarrow>
    renders_members m t \<Longrightarrow>
    renders_members ((json_escape k, j) # m) (w1 @ quoted k @ w2 @ '':'' @ w3 @ s @ w4 @ '','' @ t)"

section \<open>Reading at an offset\<close>

lemma drop_step: "drop off str = c # r \<Longrightarrow> char_at str off = Inr c \<and> drop (Suc off) str = r"
  by (metis Cons_nth_drop_Suc char_at_def drop_eq_Nil leI list.inject list.simps(3))

lemma drop_char: "drop off str = c # r \<Longrightarrow> char_at str off = Inr c"
  by (simp add: drop_step)

lemma drop_Suc_char: "drop off (str :: string) = c # r \<Longrightarrow> drop (Suc off) str = r"
  using drop_step by blast

lemma drop_len: "drop off str = s @ r \<Longrightarrow> drop (off + length s) str = r"
  by (metis add.commute append_eq_conv_conj drop_drop)

lemma consume_ws_drop:
  "drop off str = w @ c # r \<Longrightarrow> blanks w \<Longrightarrow> \<not> isspace c \<Longrightarrow> consume_ws str off = Inr (off + length w)"
proof (induction w arbitrary: off)
  case Nil
  then show ?case by (subst consume_ws.simps) (simp add: drop_char)
next
  case (Cons a w)
  have "consume_ws str (Suc off) = Inr (Suc off + length w)"
    by (rule Cons.IH) (use Cons.prems drop_Suc_char [of off str a] in \<open>simp_all add: blanks_def\<close>)
  then show ?case using Cons.prems by (subst consume_ws.simps) (simp add: drop_char blanks_def)
qed

lemma escape_char_cases:
  "c \<noteq> NUL \<Longrightarrow> escape_char c = [c] \<and> c \<noteq> quote \<and> c \<noteq> backslash \<or>
     (\<exists>d. escape_char c = [backslash, d] \<and> d \<noteq> CHR ''u'' \<and> unescape_char d = c)"
  by (simp add: escape_char_def unescape_char_def)

lemma string_loop_escape:
  "drop off str = json_escape s @ quote # rest \<Longrightarrow> NUL \<notin> set s \<Longrightarrow>
     string_loop str off val = Inr (val @ s, off + length (json_escape s) + 1)"
proof (induction s arbitrary: off val)
  case Nil
  then show ?case by (subst string_loop.simps) (simp add: drop_char)
next
  case (Cons c s)
  have c: "c \<noteq> NUL" and s: "NUL \<notin> set s" using Cons.prems(2) by auto
  consider (plain) "escape_char c = [c]" "c \<noteq> quote" "c \<noteq> backslash"
    | (esc) d where "escape_char c = [backslash, d]" "d \<noteq> CHR ''u''" "unescape_char d = c"
    using escape_char_cases [OF c] by blast
  then show ?case
  proof cases
    case plain
    have d: "drop off str = c # json_escape s @ quote # rest" using Cons.prems(1) plain by simp
    show ?thesis using Cons.IH [OF drop_Suc_char [OF d] s, of "val @ [c]"] c plain
      by (subst string_loop.simps) (simp add: drop_char [OF d])
  next
    case esc
    have d: "drop off str = backslash # d # json_escape s @ quote # rest" using Cons.prems(1) esc by simp
    note d' = drop_Suc_char [OF d]
    have "backslash \<noteq> NUL" by (simp add: NUL_def)
    then show ?thesis using Cons.IH [OF drop_Suc_char [OF d'] s, of "val @ [c]"] esc
      by (subst string_loop.simps) (simp add: drop_char [OF d] drop_char [OF d'])
  qed
qed

lemma parse_string_quoted:
  assumes "drop off str = quoted s @ rest" and "NUL \<notin> set s"
  shows "parse_string str off = Inr (JString s, off + length (quoted s))"
  using string_loop_escape [of "off + 1" str s rest "[]"] assms drop_Suc_char [of off str quote]
  by (simp add: parse_string_def quoted_def)

lemma number_loop_digits:
  "drop off str = ds @ c # rest \<Longrightarrow> \<forall>x \<in> set ds. x = CHR ''-'' \<or> isdigit x \<Longrightarrow> isdelim c \<Longrightarrow>
     number_loop str off val d = Inr ((c, val @ ds, d), off + length ds + 1)"
proof (induction ds arbitrary: off val)
  case Nil
  then show ?case by (subst number_loop.simps) (auto simp: drop_char isdelim_def isspace_def isdigit_def)
next
  case (Cons x ds)
  have d: "drop off str = x # ds @ c # rest" using Cons.prems(1) by simp
  show ?case using Cons.IH [OF drop_Suc_char [OF d], of "val @ [x]"] Cons.prems(2, 3)
    by (subst number_loop.simps) (simp add: drop_char [OF d])
qed

lemma int_dec_chars: "\<forall>x \<in> set (int_dec i). x = CHR ''-'' \<or> isdigit x"
  by (auto simp: int_dec_def nat_dec_digits)

lemma int_dec_nonempty [simp]: "int_dec i \<noteq> []"
  by (simp add: int_dec_def)

lemma parse_number_int:
  assumes "drop off str = int_dec (sint i) @ c # rest" and "isdelim c"
  shows "parse_number fo str off = Inr (JIntegral i, off + length (int_dec (sint i)))"
proof -
  have n: "number_loop str off [] False = Inr ((c, int_dec (sint i), False), off + length (int_dec (sint i)) + 1)"
    using number_loop_digits [OF assms(1) int_dec_chars assms(2), of "[]"] by simp
  have "stol (int_dec (sint i)) = Inr (sint i)"
    unfolding stol_def using sint_greater_eq [of i] sint_less [of i] by (intro sto_int_dec) simp_all
  then have v: "number_value fo (int_dec (sint i)) False [] 0 = Inr (JIntegral i)"
    by (simp add: number_value_def)
  have "c \<noteq> CHR ''E''" "c \<noteq> CHR ''e''" using assms(2) by (auto simp: isdelim_def isspace_def)
  then show ?thesis unfolding parse_number_def n by (simp add: v assms(2))
qed

section \<open>The parser reads every rendering\<close>

definition num_ok :: "'f JSON \<Rightarrow> string \<Rightarrow> bool" where
  "num_ok j rest \<longleftrightarrow> (JSONType j = CIntegral \<longrightarrow> (\<exists>c r. rest = c # r \<and> isdelim c))"

lemma int_dec_start: "\<exists>c r. int_dec i = c # r \<and> (c = CHR ''-'' \<or> isdigit c)"
  using int_dec_chars [of i] by (cases "int_dec i") auto

lemma int_dec_token: "\<exists>c r. int_dec i = c # r \<and> \<not> isspace c \<and> c \<noteq> CHR '']'' \<and> c \<noteq> CHR ''}''"
  using int_dec_start [of i] by (elim exE conjE disjE) (auto simp: isspace_def isdigit_def)

lemma renders_start: "renders j s \<Longrightarrow> \<exists>c r. s = c # r \<and> \<not> isspace c \<and> c \<noteq> CHR '']'' \<and> c \<noteq> CHR ''}''"
  by (erule renders.cases)
     (simp only: int_dec_token, (simp only: int_dec_token | simp add: isspace_def quoted_def)+)

lemma parse_next_at:
  assumes "drop off str = w @ c # r" and "blanks w" and "\<not> isspace c"
  shows "parse_next fo (Suc n) str off =
     (let off1 = off + length w in
      if c = CHR ''['' then parse_array fo (parse_next fo n str) n str off1
      else if c = CHR ''{'' then parse_object fo (parse_next fo n str) n str off1
      else if c = quote then parse_string str off1
      else if c = CHR ''t'' \<or> c = CHR ''f'' then parse_bool str off1
      else if c = CHR ''n'' then parse_null str off1
      else if isdigit c \<or> c = CHR ''-'' then parse_number fo str off1
      else Inr (JNull, off1))"
  by (simp add: consume_ws_drop [OF assms] drop_char [OF drop_len [OF assms(1)]] Let_def)

lemma blanks_Nil [simp]: "blanks []"
  by (simp add: blanks_def)

lemma parse_next_blanks:
  assumes "drop off str = w @ c # r" and "blanks w" and "\<not> isspace c" and "0 < n"
  shows "parse_next fo n str off = parse_next fo n str (off + length w)"
proof -
  obtain n' where n: "n = Suc n'" using assms(4) by (cases n) simp_all
  have "drop (off + length w) str = [] @ c # r" using drop_len [OF assms(1)] by simp
  from consume_ws_drop [OF this blanks_Nil assms(3)] show ?thesis
    by (simp add: n consume_ws_drop [OF assms(1-3)])
qed

lemma json_index_assign_end:
  assumes "length acc + 1 < 2 ^ 32"
  shows "json_index_assign fo (word_of_nat (length acc)) j (JArray acc) = Some (JArray (acc @ [j]))"
proof -
  have u: "unat (word_of_nat (length acc) :: u32) = length acc"
    by (rule unat_of_nat_small) (use assms in simp)
  have "unat (word_of_nat (length acc + 1) :: u32) = length acc + 1"
    by (rule unat_of_nat_small) (use assms in simp)
  then have u1: "unat (word_of_nat (length acc) + 1 :: u32) = length acc + 1"
    by (simp only: of_nat_add of_nat_1)
  show ?thesis
    by (simp add: json_index_assign_def json_index_def SetType_def u u1 Let_def nth_append)
qed

lemma array_elem_renders:
  assumes "parse off = Inr (j, off1)" and "drop off1 str = w @ c # r" and "blanks w"
    and "c = CHR '','' \<or> c = CHR '']''" and "length acc + 1 < 2 ^ 32"
  shows "array_elem fo parse str off (word_of_nat (length acc)) (JArray acc) =
           Inr ((c = CHR '','', JArray (acc @ [j])), off1 + length w + 1)"
proof -
  have "\<not> isspace c" using assms(4) by (auto simp: isspace_def)
  from consume_ws_drop [OF assms(2, 3) this] drop_char [OF drop_len [OF assms(2)]]
  show ?thesis using assms(4) by (auto simp: array_elem_def assms(1) json_index_assign_end [OF assms(5)])
qed

lemma object_member_renders:
  assumes "parse off = Inr (JString k, off1)" and "drop off1 str = w2 @ CHR '':'' # w3 @ a # r" and "blanks w2"
    and "blanks w3" and "\<not> isspace a" and "parse (off1 + length w2 + 1 + length w3) = Inr (v, off4)"
    and "drop off4 str = w4 @ c # r'" and "blanks w4" and "c = CHR '','' \<or> c = CHR ''}''"
  shows "object_member fo parse str off (JObject m) =
           Inr ((c = CHR '','', JObject (map_put (json_escape k) v m)), off4 + length w4 + 1)"
proof -
  have c: "\<not> isspace c" using assms(9) by (auto simp: isspace_def)
  have d: "drop (off1 + length w2) str = CHR '':'' # w3 @ a # r" using drop_len [OF assms(2)] .
  have "\<not> isspace (CHR '':'')" by (simp add: isspace_def)
  note ws = consume_ws_drop [OF assms(2, 3) this] drop_char [OF d]
    consume_ws_drop [OF drop_Suc_char [OF d] assms(4, 5)]
    consume_ws_drop [OF assms(7, 8) c] drop_char [OF drop_len [OF assms(7)]]
  show ?thesis using assms(6, 9)
    by (auto simp: object_member_def assms(1) ws json_ToString_def json_key_assign_put)
qed

text \<open>
  The claims on values, on the elements of an array and on the members of an object; the loops may
  start after some of the leading blanks.
\<close>

definition reads :: "'f float_ops \<Rightarrow> string \<Rightarrow> 'f JSON \<Rightarrow> string \<Rightarrow> bool" where
  "reads fo str j s \<longleftrightarrow> (\<forall>off rest n. drop off str = s @ rest \<longrightarrow> num_ok j rest \<longrightarrow> length str + 2 - off < n \<longrightarrow>
     parse_next fo n str off = Inr (j, off + length s))"

definition reads_elems :: "'f float_ops \<Rightarrow> string \<Rightarrow> 'f JSON list \<Rightarrow> string \<Rightarrow> bool" where
  "reads_elems fo str l t \<longleftrightarrow> (\<forall>w t' off rest n k acc. t = w @ t' \<longrightarrow> blanks w \<longrightarrow>
     drop off str = t' @ CHR '']'' # rest \<longrightarrow> length str + 2 - off < n \<longrightarrow> length str + 2 - off < k \<longrightarrow>
     length acc \<le> off \<longrightarrow>
     array_loop fo (parse_next fo n str) k str off (word_of_nat (length acc)) (JArray acc) =
       Inr (JArray (acc @ l), off + length t' + 1))"

definition reads_members :: "'f float_ops \<Rightarrow> string \<Rightarrow> (string \<times> 'f JSON) list \<Rightarrow> string \<Rightarrow> bool" where
  "reads_members fo str ms t \<longleftrightarrow> (\<forall>w t' off rest n k m. t = w @ t' \<longrightarrow> blanks w \<longrightarrow>
     drop off str = t' @ CHR ''}'' # rest \<longrightarrow> length str + 2 - off < n \<longrightarrow> length str + 2 - off < k \<longrightarrow>
     object_loop fo (parse_next fo n str) k str off (JObject m) = Inr (JObject (put_all ms m), off + length t' + 1))"

lemma drop_bound: "drop off str = s @ c # r \<Longrightarrow> off + length s < length str"
  by (metis Nil_is_append_conv add.commute drop_drop drop_eq_Nil drop_len leI list.distinct(1))

lemma reads_blanks:
  assumes "reads fo str j s" and "renders j s" and "blanks w" and "drop off str = w @ s @ rest"
    and "num_ok j rest" and "length str + 2 - off < n"
  shows "parse_next fo n str off = Inr (j, off + length w + length s)"
proof -
  obtain c r where c: "s = c # r" "\<not> isspace c" using renders_start [OF assms(2)] by blast
  have d: "drop off str = w @ c # r @ rest" using assms(4) c(1) by simp
  have "0 < n" using assms(6) by linarith
  then have "parse_next fo n str off = parse_next fo n str (off + length w)"
    by (rule parse_next_blanks [OF d assms(3) c(2)])
  also have "\<dots> = Inr (j, off + length w + length s)"
    using assms(1, 5, 6) drop_len [OF assms(4)] unfolding reads_def by simp
  finally show ?thesis .
qed

lemma parse_next_token:
  assumes "drop off str = c # r" and "\<not> isspace c" and "length str + 2 - off < n"
  shows "parse_next fo n str off =
     (if c = CHR ''['' then parse_array fo (parse_next fo (n - 1) str) (n - 1) str off
      else if c = CHR ''{'' then parse_object fo (parse_next fo (n - 1) str) (n - 1) str off
      else if c = quote then parse_string str off
      else if c = CHR ''t'' \<or> c = CHR ''f'' then parse_bool str off
      else if c = CHR ''n'' then parse_null str off
      else if isdigit c \<or> c = CHR ''-'' then parse_number fo str off
      else Inr (JNull, off))"
proof -
  obtain m where m: "n = Suc m" using assms(3) by (cases n) simp_all
  have "drop off str = [] @ c # r" using assms(1) by simp
  show ?thesis
    unfolding m parse_next_at [OF \<open>drop off str = [] @ c # r\<close> blanks_Nil assms(2)]
    by (simp only: Let_def list.size add_0_right diff_Suc_1)
qed

lemma substr_drop: "drop off str = s @ r \<Longrightarrow> s \<noteq> [] \<Longrightarrow> n = length s \<Longrightarrow> substr str off n = Inr s"
  by (cases "off < length str") (simp_all add: substr_def)

lemma reads_null: "reads fo str JNull ''null''"
  unfolding reads_def
proof (intro allI impI)
  fix off rest n
  assume d: "drop off str = ''null'' @ rest" and len: "length str + 2 - off < n"
  have t: "drop off str = CHR ''n'' # (''ull'' @ rest)" "\<not> isspace (CHR ''n'')" using d by (simp_all add: isspace_def)
  show "parse_next fo n str off = Inr (JNull, off + length ''null'')"
    unfolding parse_next_token [OF t len] using substr_drop [OF d, of 4] by (simp add: parse_null_def isdigit_def)
qed

lemma reads_true: "reads fo str (JBoolean True) ''true''"
  unfolding reads_def
proof (intro allI impI)
  fix off rest n
  assume d: "drop off str = ''true'' @ rest" and len: "length str + 2 - off < n"
  have t: "drop off str = CHR ''t'' # (''rue'' @ rest)" "\<not> isspace (CHR ''t'')" using d by (simp_all add: isspace_def)
  show "parse_next fo n str off = Inr (JBoolean True, off + length ''true'')"
    unfolding parse_next_token [OF t len] using substr_drop [OF d, of 4] by (simp add: parse_bool_def)
qed

lemma reads_false: "reads fo str (JBoolean False) ''false''"
  unfolding reads_def
proof (intro allI impI)
  fix off rest n
  assume d: "drop off str = ''false'' @ rest" and len: "length str + 2 - off < n"
  have t: "drop off str = CHR ''f'' # (''alse'' @ rest)" "\<not> isspace (CHR ''f'')" using d by (simp_all add: isspace_def)
  have d4: "drop off str = ''fals'' @ (CHR ''e'' # rest)" using d by simp
  show "parse_next fo n str off = Inr (JBoolean False, off + length ''false'')"
    unfolding parse_next_token [OF t len] using substr_drop [OF d, of 5] substr_drop [OF d4, of 4] by (simp add: parse_bool_def)
qed

lemma reads_string:
  assumes "NUL \<notin> set s"
  shows "reads fo str (JString s) (quoted s)"
  unfolding reads_def
proof (intro allI impI)
  fix off rest n
  assume d: "drop off str = quoted s @ rest" and len: "length str + 2 - off < n"
  have t: "drop off str = quote # (json_escape s @ [quote] @ rest)" "\<not> isspace quote"
    using d by (simp_all add: quoted_def isspace_def)
  have p: "parse_next fo n str off = parse_string str off"
    unfolding parse_next_token [OF t len] by simp
  show "parse_next fo n str off = Inr (JString s, off + length (quoted s))"
    unfolding p by (rule parse_string_quoted [OF d assms])
qed

lemma reads_int: "reads fo str (JIntegral i) (int_dec (sint i))"
  unfolding reads_def
proof (intro allI impI)
  fix off rest n
  assume d: "drop off str = int_dec (sint i) @ rest" and "num_ok (JIntegral i) rest" and len: "length str + 2 - off < n"
  then obtain a r where rest: "rest = a # r" "isdelim a" by (auto simp: num_ok_def)
  obtain c r' where c: "int_dec (sint i) = c # r'" "c = CHR ''-'' \<or> isdigit c" using int_dec_start by blast
  have ne: "c \<noteq> CHR ''[''" "c \<noteq> CHR ''{''" "c \<noteq> quote" "c \<noteq> CHR ''t''" "c \<noteq> CHR ''f''" "c \<noteq> CHR ''n''"
    using c(2) by (auto simp: isdigit_def)
  have t: "drop off str = c # (r' @ rest)" "\<not> isspace c"
    using d c by (auto simp: isspace_def isdigit_def)
  have p: "parse_next fo n str off = parse_number fo str off"
    unfolding parse_next_token [OF t len] using c(2) ne by auto
  show "parse_next fo n str off = Inr (JIntegral i, off + length (int_dec (sint i)))"
    unfolding p by (rule parse_number_int [OF d [unfolded rest(1)] rest(2)])
qed

lemma blanks_prefix:
  "w1 @ c # r = w @ t \<Longrightarrow> blanks w \<Longrightarrow> \<not> isspace c \<Longrightarrow> \<exists>w'. w1 = w @ w' \<and> t = w' @ c # r"
  by (auto simp: append_eq_append_conv2 append_eq_Cons_conv Cons_eq_append_conv blanks_def)

lemma blanks_append [simp]: "blanks (v @ w) \<longleftrightarrow> blanks v \<and> blanks w"
  by (auto simp: blanks_def)

lemma num_ok_blanks: "blanks w \<Longrightarrow> isdelim c \<Longrightarrow> num_ok j (w @ c # r)"
  by (cases w) (auto simp: num_ok_def isdelim_def blanks_def)

lemma isdelim_simps [simp]: "isdelim (CHR '','')" "isdelim (CHR '']'')" "isdelim (CHR ''}'')"
  by (simp_all add: isdelim_def)

text \<open>One element or member of a rendering and the delimiter \<open>c\<close> after it.\<close>

lemma reads_one_elem:
  assumes "reads fo str j s" and "renders j s" and "blanks w1" and "blanks w2"
    and "drop off str = w1 @ s @ w2 @ c # r" and "c = CHR '','' \<or> c = CHR '']''"
    and "length str + 2 - off < n" and "length acc \<le> off" and "length str + 1 < 2 ^ 32"
  shows "array_elem fo (parse_next fo n str) str off (word_of_nat (length acc)) (JArray acc) =
           Inr ((c = CHR '','', JArray (acc @ [j])), off + length w1 + length s + length w2 + 1)"
proof -
  have "isdelim c" using assms(6) by auto
  then have p: "parse_next fo n str off = Inr (j, off + length w1 + length s)"
    by (intro reads_blanks [OF assms(1-3, 5) _ assms(7)] num_ok_blanks assms(4))
  have d: "drop (off + length w1 + length s) str = w2 @ c # r"
    using drop_len [OF drop_len [OF assms(5)]] .
  have "length acc + 1 < 2 ^ 32" using drop_bound [OF d] assms(8, 9) by linarith
  then show ?thesis by (rule array_elem_renders [where parse = "parse_next fo n str", OF p d assms(4, 6)])
qed

lemma reads_one_member:
  assumes "NUL \<notin> set k" and "reads fo str j s" and "renders j s" and "blanks w1" and "blanks w2" and "blanks w3"
    and "blanks w4" and "drop off str = w1 @ quoted k @ w2 @ CHR '':'' # w3 @ s @ w4 @ c # r"
    and "c = CHR '','' \<or> c = CHR ''}''" and "length str + 2 - off < n"
  shows "object_member fo (parse_next fo n str) str off (JObject m) =
           Inr ((c = CHR '','', JObject (map_put (json_escape k) j m)),
                off + length w1 + length (quoted k) + length w2 + 1 + length w3 + length s + length w4 + 1)"
proof -
  let ?off1 = "off + length w1 + length (quoted k)" and ?off3 = "off + length w1 + length (quoted k) + length w2 + 1 + length w3"
  have "num_ok (JString k) (w2 @ CHR '':'' # w3 @ s @ w4 @ c # r)" by (simp add: num_ok_def)
  then have p1: "parse_next fo n str off = Inr (JString k, ?off1)"
    by (intro reads_blanks [OF reads_string [OF assms(1)] str [OF assms(1)] assms(4, 8) _ assms(10)])
  have d1: "drop ?off1 str = w2 @ CHR '':'' # w3 @ s @ w4 @ c # r" using drop_len [OF drop_len [OF assms(8)]] .
  have d2: "drop (?off1 + length w2 + 1) str = w3 @ s @ w4 @ c # r" using drop_Suc_char [OF drop_len [OF d1]] by simp
  obtain a r' where a: "s = a # r'" "\<not> isspace a" using renders_start [OF assms(3)] by blast
  have d3: "drop ?off3 str = [] @ s @ w4 @ c # r" using drop_len [OF d2] by simp
  have "isdelim c" using assms(9) by auto
  moreover have "length str + 2 - ?off3 < n" using assms(10) by linarith
  ultimately have p3: "parse_next fo n str ?off3 = Inr (j, ?off3 + length s)"
    using reads_blanks [OF assms(2, 3) blanks_Nil d3 num_ok_blanks [OF assms(7)]] by simp
  have d4: "drop (?off3 + length s) str = w4 @ c # r" using drop_len [of ?off3 str s] d3 by simp
  show ?thesis
    using object_member_renders [where parse = "parse_next fo n str", OF p1 _ assms(5, 6) a(2) p3 d4 assms(7, 9)] d1 a(1) by simp
qed

lemma put_all_Cons: "put_all ((k, v) # ms) m = put_all ms (map_put k v m)"
  by (simp add: put_all_def)

lemma put_all_Nil: "put_all [] m = m"
  by (simp add: put_all_def)

lemma reads_elemsD:
  "reads_elems fo str l t \<Longrightarrow> t = w @ t' \<Longrightarrow> blanks w \<Longrightarrow> drop off str = t' @ CHR '']'' # rest \<Longrightarrow>
     length str + 2 - off < n \<Longrightarrow> length str + 2 - off < k \<Longrightarrow> length acc \<le> off \<Longrightarrow>
     array_loop fo (parse_next fo n str) k str off (word_of_nat (length acc)) (JArray acc) =
       Inr (JArray (acc @ l), off + length t' + 1)"
  unfolding reads_elems_def by blast

lemma reads_membersD:
  "reads_members fo str ms t \<Longrightarrow> t = w @ t' \<Longrightarrow> blanks w \<Longrightarrow> drop off str = t' @ CHR ''}'' # rest \<Longrightarrow>
     length str + 2 - off < n \<Longrightarrow> length str + 2 - off < k \<Longrightarrow>
     object_loop fo (parse_next fo n str) k str off (JObject m) = Inr (JObject (put_all ms m), off + length t' + 1)"
  unfolding reads_members_def by blast

lemma readsD:
  "reads fo str j s \<Longrightarrow> drop off str = s @ rest \<Longrightarrow> num_ok j rest \<Longrightarrow> length str + 2 - off < n \<Longrightarrow>
     parse_next fo n str off = Inr (j, off + length s)"
  unfolding reads_def by blast

lemma reads_elem_last:
  assumes "reads fo str j s" and "renders j s" and "blanks w1" and "blanks w2" and "length str + 1 < 2 ^ 32"
  shows "reads_elems fo str [j] (w1 @ s @ w2)"
  unfolding reads_elems_def
proof (intro allI impI)
  fix w t' off rest n k and acc :: "'a JSON list"
  assume w: "w1 @ s @ w2 = w @ t'" "blanks w" and d: "drop off str = t' @ CHR '']'' # rest"
    and n: "length str + 2 - off < n" "length str + 2 - off < k" and acc: "length acc \<le> off"
  obtain a r where a: "s = a # r" "\<not> isspace a" using renders_start [OF assms(2)] by blast
  obtain w1' where w1: "w1 = w @ w1'" "t' = w1' @ s @ w2"
    using blanks_prefix [of w1 a "r @ w2" w t'] w a by (metis append_Cons)
  have b: "blanks w1'" and d': "drop off str = w1' @ s @ w2 @ CHR '']'' # rest" using assms(3) w1 d by simp_all
  obtain k' where k: "k = Suc k'" using n(2) by (cases k) simp_all
  show "array_loop fo (parse_next fo n str) k str off (word_of_nat (length acc)) (JArray acc) =
      Inr (JArray (acc @ [j]), off + length t' + 1)"
    using reads_one_elem [OF assms(1, 2) b assms(4) d' _ n(1) acc assms(5)] by (simp add: k w1(2))
qed

lemma reads_elem_more:
  assumes "reads fo str j s" and "renders j s" and "blanks w1" and "blanks w2" and "length str + 1 < 2 ^ 32"
    and "reads_elems fo str l t"
  shows "reads_elems fo str (j # l) (w1 @ s @ w2 @ '','' @ t)"
  unfolding reads_elems_def
proof (intro allI impI)
  fix w t' off rest n k and acc :: "'a JSON list"
  assume w: "w1 @ s @ w2 @ '','' @ t = w @ t'" "blanks w" and d: "drop off str = t' @ CHR '']'' # rest"
    and n: "length str + 2 - off < n" "length str + 2 - off < k" and acc: "length acc \<le> off"
  obtain a r where a: "s = a # r" "\<not> isspace a" using renders_start [OF assms(2)] by blast
  obtain w1' where w1: "w1 = w @ w1'" "t' = w1' @ s @ w2 @ '','' @ t"
    using blanks_prefix [of w1 a "r @ w2 @ '','' @ t" w t'] w a by (metis append_Cons)
  have b: "blanks w1'" and d': "drop off str = w1' @ s @ w2 @ CHR '','' # t @ CHR '']'' # rest"
    using assms(3) w1 d by simp_all
  obtain k' where k: "k = Suc k'" using n(2) by (cases k) simp_all
  let ?off = "off + length w1' + length s + length w2 + 1"
  have "drop (off + length w1' + length s + length w2) str = CHR '','' # t @ CHR '']'' # rest"
    using drop_len [OF drop_len [OF drop_len [OF d']]] by simp
  then have d2: "drop ?off str = t @ CHR '']'' # rest" using drop_Suc_char by simp
  have bound: "off < length str" using drop_bound [OF d] by linarith
  have "array_loop fo (parse_next fo n str) k' str ?off (word_of_nat (length (acc @ [j]))) (JArray (acc @ [j])) =
      Inr (JArray ((acc @ [j]) @ l), ?off + length t + 1)"
    by (rule reads_elemsD [OF assms(6) _ blanks_Nil d2]) (use n acc bound k in simp_all)
  moreover have "word_of_nat (length (acc @ [j])) = (word_of_nat (length acc) + 1 :: u32)" by (simp add: add.commute)
  ultimately show "array_loop fo (parse_next fo n str) k str off (word_of_nat (length acc)) (JArray acc) =
      Inr (JArray (acc @ j # l), off + length t' + 1)"
    using reads_one_elem [OF assms(1, 2) b assms(4) d' _ n(1) acc assms(5)] by (simp add: k w1(2) add.commute [of "word_of_nat (length acc)" "1 :: u32"] add.assoc)
qed

lemma reads_member_last:
  assumes "NUL \<notin> set k" and "reads fo str j s" and "renders j s" and "blanks w1" and "blanks w2" and "blanks w3"
    and "blanks w4"
  shows "reads_members fo str [(json_escape k, j)] (w1 @ quoted k @ w2 @ '':'' @ w3 @ s @ w4)"
  unfolding reads_members_def
proof (intro allI impI)
  fix w t' off rest n f and m :: "(string \<times> 'a JSON) list"
  assume w: "w1 @ quoted k @ w2 @ '':'' @ w3 @ s @ w4 = w @ t'" "blanks w" and d: "drop off str = t' @ CHR ''}'' # rest"
    and n: "length str + 2 - off < n" "length str + 2 - off < f"
  have q: "quoted k = quote # (json_escape k @ [quote])" "\<not> isspace quote" by (simp_all add: quoted_def isspace_def)
  obtain w1' where w1: "w1 = w @ w1'" "t' = w1' @ quoted k @ w2 @ '':'' @ w3 @ s @ w4"
    using blanks_prefix [of w1 quote "json_escape k @ [quote] @ w2 @ '':'' @ w3 @ s @ w4" w t'] w q
    by (metis append_Cons append_assoc)
  have b: "blanks w1'" and d': "drop off str = w1' @ quoted k @ w2 @ CHR '':'' # w3 @ s @ w4 @ CHR ''}'' # rest"
    using assms(4) w1 d by simp_all
  obtain f' where f: "f = Suc f'" using n(2) by (cases f) simp_all
  show "object_loop fo (parse_next fo n str) f str off (JObject m) =
      Inr (JObject (put_all [(json_escape k, j)] m), off + length t' + 1)"
    using reads_one_member [OF assms(1-3) b assms(5-7) d' _ n(1)] by (simp add: f w1(2) put_all_Cons put_all_Nil)
qed

lemma reads_member_more:
  assumes "NUL \<notin> set k" and "reads fo str j s" and "renders j s" and "blanks w1" and "blanks w2" and "blanks w3"
    and "blanks w4" and "reads_members fo str ms t"
  shows "reads_members fo str ((json_escape k, j) # ms) (w1 @ quoted k @ w2 @ '':'' @ w3 @ s @ w4 @ '','' @ t)"
  unfolding reads_members_def
proof (intro allI impI)
  fix w t' off rest n f and m :: "(string \<times> 'a JSON) list"
  let ?t = "w2 @ '':'' @ w3 @ s @ w4 @ '','' @ t"
  assume w: "w1 @ quoted k @ ?t = w @ t'" "blanks w" and d: "drop off str = t' @ CHR ''}'' # rest"
    and n: "length str + 2 - off < n" "length str + 2 - off < f"
  have q: "quoted k = quote # (json_escape k @ [quote])" "\<not> isspace quote" by (simp_all add: quoted_def isspace_def)
  obtain w1' where w1: "w1 = w @ w1'" "t' = w1' @ quoted k @ ?t"
    using blanks_prefix [of w1 quote "json_escape k @ [quote] @ ?t" w t'] w q
    by (metis append_Cons append_assoc)
  have b: "blanks w1'"
    and d': "drop off str = w1' @ quoted k @ w2 @ CHR '':'' # w3 @ s @ w4 @ CHR '','' # t @ CHR ''}'' # rest"
    using assms(4) w1 d by simp_all
  obtain f' where f: "f = Suc f'" using n(2) by (cases f) simp_all
  let ?off = "off + length w1' + length (quoted k) + length w2 + 1 + length w3 + length s + length w4 + 1"
  have "drop off str = (w1' @ quoted k @ w2 @ '':'' @ w3 @ s @ w4 @ '','') @ t @ CHR ''}'' # rest" using d' by simp
  from drop_len [OF this] have d2: "drop ?off str = t @ CHR ''}'' # rest" by (simp add: add.assoc add.commute add.left_commute)
  have bound: "off < length str" using drop_bound [OF d] by linarith
  have "object_loop fo (parse_next fo n str) f' str ?off (JObject (map_put (json_escape k) j m)) =
      Inr (JObject (put_all ms (map_put (json_escape k) j m)), ?off + length t + 1)"
    by (rule reads_membersD [OF assms(8) _ blanks_Nil d2]) (use n bound f in simp_all)
  then show "object_loop fo (parse_next fo n str) f str off (JObject m) =
      Inr (JObject (put_all ((json_escape k, j) # ms) m), off + length t' + 1)"
    using reads_one_member [OF assms(1-3) b assms(5-7) d' _ n(1)] by (simp add: f w1(2) put_all_Cons)
qed

text \<open>Arrays and objects, empty or not.\<close>

lemma json_Make_simps [simp]: "json_Make fo CArray = JArray []" "json_Make fo CObject = JObject []"
  by (simp_all add: json_Make_def SetType_def)

lemma reads_empty:
  assumes "blanks w"
  shows "reads fo str (JArray []) (''['' @ w @ '']'')" "reads fo str (JObject []) (''{'' @ w @ ''}'')"
proof -
  have e: "consume_ws str (off + 1) = Inr (off + 1 + length w) \<and> char_at str (off + 1 + length w) = Inr b \<and> \<not> isspace a"
    if "drop off str = a # w @ b # rest" "a = CHR ''['' \<and> b = CHR '']'' \<or> a = CHR ''{'' \<and> b = CHR ''}''" for off a b rest
  proof -
    have d: "drop (off + 1) str = w @ b # rest" using drop_Suc_char [OF that(1)] by simp
    have "\<not> isspace b" "\<not> isspace a" using that(2) by (auto simp: isspace_def)
    with consume_ws_drop [OF d assms] drop_char [OF drop_len [OF d]] show ?thesis by simp
  qed
  show "reads fo str (JArray []) (''['' @ w @ '']'')"
    unfolding reads_def
  proof (intro allI impI)
    fix off rest n
    assume d: "drop off str = (''['' @ w @ '']'') @ rest" and len: "length str + 2 - off < n"
    have t: "drop off str = CHR ''['' # w @ CHR '']'' # rest" using d by simp
    note e' = e [OF t]
    have "\<not> isspace (CHR ''['')" using e' by simp
    from parse_next_token [OF t this len, of fo] e'
    show "parse_next fo n str off = Inr (JArray [], off + length (''['' @ w @ '']''))"
      by (simp add: parse_array_def)
  qed
  show "reads fo str (JObject []) (''{'' @ w @ ''}'')"
    unfolding reads_def
  proof (intro allI impI)
    fix off rest n
    assume d: "drop off str = (''{'' @ w @ ''}'') @ rest" and len: "length str + 2 - off < n"
    have t: "drop off str = CHR ''{'' # w @ CHR ''}'' # rest" using d by simp
    note e' = e [OF t]
    have "\<not> isspace (CHR ''{'')" using e' by simp
    from parse_next_token [OF t this len, of fo] e'
    show "parse_next fo n str off = Inr (JObject [], off + length (''{'' @ w @ ''}''))"
      by (simp add: parse_object_def)
  qed
qed

lemma renders_elems_start:
  "renders_elems l t \<Longrightarrow> \<exists>w c r. t = w @ c # r \<and> blanks w \<and> \<not> isspace c \<and> c \<noteq> CHR '']'' \<and> c \<noteq> CHR ''}''"
  by (erule renders_elems.cases) (metis renders_start append_Cons)+

lemma renders_members_start:
  "renders_members ms t \<Longrightarrow> \<exists>w c r. t = w @ c # r \<and> blanks w \<and> \<not> isspace c \<and> c \<noteq> CHR '']'' \<and> c \<noteq> CHR ''}''"
  by (erule renders_members.cases) (metis renders_start [OF str] append_Cons)+

lemma reads_array:
  assumes "reads_elems fo str l t" and "renders_elems l t"
  shows "reads fo str (JArray l) (''['' @ t @ '']'')"
  unfolding reads_def
proof (intro allI impI)
  fix off rest n
  assume d: "drop off str = (''['' @ t @ '']'') @ rest" and len: "length str + 2 - off < n"
  obtain w c r where t: "t = w @ c # r" "blanks w" "\<not> isspace c" "c \<noteq> CHR '']''" using renders_elems_start [OF assms(2)] by blast
  have d0: "drop off str = CHR ''['' # t @ CHR '']'' # rest" using d by simp
  have d1: "drop (off + 1) str = w @ c # r @ CHR '']'' # rest" using drop_Suc_char [OF d0] t(1) by simp
  have d2: "drop (off + 1 + length w) str = (c # r) @ CHR '']'' # rest" using drop_len [OF d1] by simp
  have bound: "off < length str" using drop_bound [of off str "[]"] d0 by simp
  have "array_loop fo (parse_next fo (n - 1) str) (n - 1) str (off + 1 + length w) 0 (JArray []) =
      Inr (JArray l, off + 1 + length w + length (c # r) + 1)"
    using reads_elemsD [OF assms(1) t(1, 2) d2, of "n - 1" "n - 1" "[]"] len bound by simp
  moreover have "\<not> isspace (CHR ''['')" by (simp add: isspace_def)
  ultimately show "parse_next fo n str off = Inr (JArray l, off + length (''['' @ t @ '']''))"
    using parse_next_token [OF d0 _ len, of fo] consume_ws_drop [OF d1 t(2, 3)] drop_char [of "off + 1 + length w" str] d2 t(4)
    by (simp add: parse_array_def t(1))
qed

lemma reads_object:
  assumes "reads_members fo str ms t" and "renders_members ms t"
  shows "reads fo str (JObject (put_all ms [])) (''{'' @ t @ ''}'')"
  unfolding reads_def
proof (intro allI impI)
  fix off rest n
  assume d: "drop off str = (''{'' @ t @ ''}'') @ rest" and len: "length str + 2 - off < n"
  obtain w c r where t: "t = w @ c # r" "blanks w" "\<not> isspace c" "c \<noteq> CHR ''}''" using renders_members_start [OF assms(2)] by blast
  have d0: "drop off str = CHR ''{'' # t @ CHR ''}'' # rest" using d by simp
  have d1: "drop (off + 1) str = w @ c # r @ CHR ''}'' # rest" using drop_Suc_char [OF d0] t(1) by simp
  have d2: "drop (off + 1 + length w) str = (c # r) @ CHR ''}'' # rest" using drop_len [OF d1] by simp
  have bound: "off < length str" using drop_bound [of off str "[]"] d0 by simp
  have "object_loop fo (parse_next fo (n - 1) str) (n - 1) str (off + 1 + length w) (JObject []) =
      Inr (JObject (put_all ms []), off + 1 + length w + length (c # r) + 1)"
    by (rule reads_membersD [OF assms(1) t(1, 2) d2]) (use len bound in simp_all)
  moreover have "\<not> isspace (CHR ''{'')" by (simp add: isspace_def)
  ultimately show "parse_next fo n str off = Inr (JObject (put_all ms []), off + length (''{'' @ t @ ''}''))"
    using parse_next_token [OF d0 _ len, of fo] consume_ws_drop [OF d1 t(2, 3)] drop_char [of "off + 1 + length w" str] d2 t(4)
    by (simp add: parse_object_def t(1))
qed

lemma renders_reads:
  assumes "length str + 1 < 2 ^ 32"
  shows "renders j s \<Longrightarrow> reads fo str j s" and "renders_elems l t \<Longrightarrow> reads_elems fo str l t"
    and "renders_members ms u \<Longrightarrow> reads_members fo str ms u"
  by (induction rule: renders_renders_elems_renders_members.inducts)
     (auto intro: reads_null reads_true reads_false reads_int reads_string reads_empty reads_array reads_object
        reads_elem_last reads_elem_more reads_member_last reads_member_more simp only: assms)

lemma load_renders:
  assumes "renders j s" and "length s + 1 < 2 ^ 32" and "JSONType j \<noteq> CIntegral"
  shows "json_Load fo s = Inr j"
  using readsD [OF renders_reads(1) [OF assms(2, 1)], of 0 "[]" "length s + 3" fo] assms(3)
  by (simp add: num_ok_def json_Load_def)

end
