(* ===== verification/Json_Roundtrip.thy ===== *)
theory Json_Roundtrip
  imports Json_Grammar
begin

text \<open>
  Printing a JSON value and loading the text gives the value back, for null, booleans, signed
  integers below the top level, strings without NUL, arrays and objects whose keys are stored the way
  the parser stores them. Further on, what the parser makes of exponents.
\<close>

section \<open>Printing\<close>

definition key_ok :: "string \<Rightarrow> bool" where
  "key_ok k \<longleftrightarrow> (\<exists>k'. k = json_escape k' \<and> NUL \<notin> set k')"

fun json_plain :: "'f JSON \<Rightarrow> bool"
and members_plain :: "(string \<times> 'f JSON) list \<Rightarrow> bool"
and elems_plain :: "'f JSON list \<Rightarrow> bool" where
  "json_plain (JObject m) \<longleftrightarrow> sorted_wrt (<) (map fst m) \<and> members_plain m"
| "json_plain (JArray l) \<longleftrightarrow> elems_plain l"
| "json_plain JNull \<longleftrightarrow> True"
| "json_plain (JString s) \<longleftrightarrow> NUL \<notin> set s"
| "json_plain (JFloating f) \<longleftrightarrow> False"
| "json_plain (JIntegral i) \<longleftrightarrow> True"
| "json_plain (JUIntegral u) \<longleftrightarrow> False"
| "json_plain (JBoolean b) \<longleftrightarrow> True"
| "members_plain [] \<longleftrightarrow> True"
| "members_plain ((k, v) # m) \<longleftrightarrow> key_ok k \<and> json_plain v \<and> members_plain m"
| "elems_plain [] \<longleftrightarrow> True"
| "elems_plain (j # l) \<longleftrightarrow> json_plain j \<and> elems_plain l"

lemma put_all_sorted:
  "sorted_wrt (<) (map fst (m @ ms)) \<Longrightarrow> put_all ms m = m @ ms"
proof (induction ms arbitrary: m)
  case (Cons a ms)
  obtain k v where a: "a = (k, v)" by (cases a)
  have "\<forall>x \<in> fst ` set m. x < k" using Cons.prems by (auto simp: a sorted_wrt_append)
  then have p: "map_put k v m = m @ [(k, v)]" by (rule map_put_last)
  have "sorted_wrt (<) (map fst ((m @ [(k, v)]) @ ms))" using Cons.prems by (simp add: a)
  from Cons.IH [OF this] show ?case by (simp add: a put_all_Cons p)
qed (simp add: put_all_Nil)

lemma blanks_pad: "blanks tab \<Longrightarrow> blanks (drop i (concat (replicate d tab)))"
  by (auto simp: blanks_def dest!: in_set_dropD)

lemma blanks_space: "blanks '' ''"
  by (simp add: blanks_def isspace_def)

lemma dump_members_more:
  "dump_members fo pad d tab False m = (if m = [] then [] else '','' @ dump_members fo pad d tab True m)"
  by (cases m) auto

lemma dump_elems_more:
  "dump_elems fo d tab False l = (if l = [] then [] else '','' @ '' '' @ dump_elems fo d tab True l)"
  by (cases l) auto

text \<open>One more member or element in front of a rendering; \<open>w\<close> are the blanks at the end or the start.\<close>

lemma renders_member_Cons:
  assumes "key_ok k" and "renders v s" and "blanks pad" and "blanks w"
    and "m \<noteq> [] \<Longrightarrow> renders_members m (t @ w)"
  shows "renders_members ((k, v) # m)
           ((pad @ [quote] @ k @ [quote] @ '' : '' @ s @ (if m = [] then [] else '','' @ t)) @ w)"
proof -
  obtain k' where k: "k = json_escape k'" "NUL \<notin> set k'" using assms(1) by (auto simp: key_ok_def)
  show ?thesis
  proof (cases "m = []")
    case True
    then show ?thesis using member [OF assms(3) k(2) blanks_space blanks_space assms(2, 4)] k by (simp add: quoted_def)
  next
    case False
    then show ?thesis using members [OF assms(3) k(2) blanks_space blanks_space assms(2) blanks_Nil assms(5)] k
      by (simp add: quoted_def)
  qed
qed

lemma renders_elem_Cons:
  assumes "renders j s" and "blanks w" and "l \<noteq> [] \<Longrightarrow> renders_elems l ('' '' @ t)"
  shows "renders_elems (j # l) (w @ s @ (if l = [] then [] else '','' @ '' '' @ t))"
proof (cases "l = []")
  case True
  then show ?thesis using elem [OF assms(2, 1) blanks_Nil] by simp
next
  case False
  then show ?thesis using elems [OF assms(2, 1) blanks_Nil assms(3)] by simp
qed

lemma dump_renders: "blanks tab \<Longrightarrow> json_plain j \<Longrightarrow> renders j (dump fo d tab j)"
proof (induction fo d tab j rule: dump_dump_members_dump_elems.induct(1) [where
    Q = "\<lambda>fo pad d tab skip m. blanks tab \<longrightarrow> blanks pad \<longrightarrow> members_plain m \<longrightarrow> m \<noteq> [] \<longrightarrow>
           (\<forall>w. blanks w \<longrightarrow> renders_members m (dump_members fo pad d tab True m @ w))" and
    R = "\<lambda>fo d tab skip l. blanks tab \<longrightarrow> elems_plain l \<longrightarrow> l \<noteq> [] \<longrightarrow>
           (\<forall>w. blanks w \<longrightarrow> renders_elems l (w @ dump_elems fo d tab True l))"])
  case (2 fo depth tab m)
  let ?pad = "concat (replicate depth tab)"
  have b: "blanks ?pad" "blanks (drop 2 ?pad)" using blanks_pad [OF 2(2), of 0] blanks_pad [OF 2(2), of 2] by simp_all
  show ?case
  proof (cases "m = []")
    case True
    then show ?thesis using obj0 [OF b(2)] by (simp add: Let_def)
  next
    case False
    then have "renders_members m (dump_members fo ?pad (depth + 1) tab True m @ drop 2 ?pad)"
      using 2 b by simp
    from obj [OF this] show ?thesis using 2(3) put_all_sorted [of "[]" m] by (simp add: Let_def)
  qed
next
  case (3 fo depth tab l)
  show ?case
  proof (cases "l = []")
    case True
    then show ?thesis using arr0 [OF blanks_Nil] by simp
  next
    case False
    then have "\<forall>w. blanks w \<longrightarrow> renders_elems l (w @ dump_elems fo (depth + 1) tab True l)" using 3 by simp
    then have "renders_elems l ([] @ dump_elems fo (depth + 1) tab True l)" using blanks_Nil by blast
    from arr [OF this] show ?thesis by simp
  qed
next
  case (10 fo pad depth tab skip k v m)
  show ?case
    using 10 renders_member_Cons [of k v "dump fo depth tab v" pad _ m "dump_members fo pad depth tab True m"]
    by (simp add: dump_members_more)
next
  case (12 fo depth tab skip j l)
  show ?case
  proof (intro impI allI)
    fix w
    assume p: "blanks tab" "elems_plain (j # l)" "blanks w"
    then have "renders j (dump fo depth tab j)" using 12 by simp
    moreover have "renders_elems l ('' '' @ dump_elems fo depth tab True l)" if "l \<noteq> []"
      using 12(2) p that blanks_space by (metis elems_plain.simps(2))
    ultimately show "renders_elems (j # l) (w @ dump_elems fo depth tab True (j # l))"
      using renders_elem_Cons [of j _ w l] p(3) by (simp add: dump_elems_more split: if_splits)
  qed
qed (auto intro: null true false int str [unfolded quoted_def, simplified])



section \<open>Numbers\<close>



end
