(* ===== verification/Protection.thy ===== *)
theory Protection
  imports Psi_Parser Json_Roundtrip Monitored_Variable
begin

text \<open>
  The node \<open>drm0\<close>: the text form of a protection record (\<open>StreamProtectionConfigExport\<close>) and
  the request handler that keeps the record of the highest confidence
  (\<open>ProtectionInfoRequestHandler\<close>). \<open>boost::algorithm::hex\<close> is the parameter \<open>hex\<close>, which
  has no value when it throws.
\<close>

section \<open>Text form\<close>

definition kCHANNEL :: string where "kCHANNEL = ''channel''"
definition kECM :: string where "kECM = ''ecm''"
definition kPAT :: string where "kPAT = ''pat''"
definition kPMT :: string where "kPMT = ''pmt''"
definition kCLEAR :: string where "kCLEAR = ''clear''"

lemmas json_key_defs = kCHANNEL_def kECM_def kPAT_def kPMT_def kCLEAR_def

type_synonym hex_fn = "bytes \<Rightarrow> string option"

definition byteArrayAsHex :: "hex_fn \<Rightarrow> bytes \<Rightarrow> string" where
  "byteArrayAsHex hex bArray = (case hex bArray of Some s \<Rightarrow> s | None \<Rightarrow> [])"

record StreamProtectionConfigExport =
  spe_ChannelInfo :: string
  spe_Ecm :: string
  spe_Pat :: string
  spe_Pmt :: string
  spe_Clear :: bool

definition StreamProtectionConfigExport_new :: "hex_fn \<Rightarrow> StreamProtectionConfig \<Rightarrow> StreamProtectionConfigExport" where
  "StreamProtectionConfigExport_new hex c =
     \<lparr>spe_ChannelInfo = spc_channelInfo c,
      spe_Ecm = byteArrayAsHex hex (spc_ecm c),
      spe_Pat = byteArrayAsHex hex (spc_pat c),
      spe_Pmt = byteArrayAsHex hex (spc_pmt c),
      spe_Clear = spc_isClear c\<rparr>"

text \<open>\<open>obj[key] = s\<close> and \<open>obj[key] = b\<close>: the value the key refers to is assigned.\<close>

definition json_set_string :: "'f float_ops \<Rightarrow> string \<Rightarrow> string \<Rightarrow> 'f JSON \<Rightarrow> 'f JSON" where
  "json_set_string fo key s obj = json_key_assign fo key (json_assign_string fo s (fst (json_key fo key obj))) obj"

definition json_set_bool :: "'f float_ops \<Rightarrow> string \<Rightarrow> bool \<Rightarrow> 'f JSON \<Rightarrow> 'f JSON" where
  "json_set_bool fo key b obj = json_key_assign fo key (json_assign_bool fo b (fst (json_key fo key obj))) obj"

definition getJsonAsString :: "'f float_ops \<Rightarrow> StreamProtectionConfigExport \<Rightarrow> string" where
  "getJsonAsString fo e =
     (let obj = json_set_string fo kCHANNEL (spe_ChannelInfo e) JNull;
          obj = json_set_string fo kECM (spe_Ecm e) obj;
          obj = json_set_string fo kPAT (spe_Pat e) obj;
          obj = json_set_string fo kPMT (spe_Pmt e) obj;
          obj = json_set_bool fo kCLEAR (spe_Clear e) obj;
          jsonStr = dump fo 1 ''  '' obj
      in filter (\<lambda>c. \<not> isspace c) jsonStr)"

definition getJsonAsByteArray :: "'f float_ops \<Rightarrow> StreamProtectionConfigExport \<Rightarrow> bytes" where
  "getJsonAsByteArray fo e = map of_char (getJsonAsString fo e)"

section \<open>Request handler\<close>

definition confidence_level :: "ConfidenceTypes \<Rightarrow> nat" where
  "confidence_level c = (case c of RESET \<Rightarrow> 0 | LOW \<Rightarrow> 1 | MID \<Rightarrow> 2 | HIGH \<Rightarrow> 3)"

instantiation ConfidenceTypes :: linorder
begin

definition less_eq_ConfidenceTypes_def: "c \<le> d \<longleftrightarrow> confidence_level c \<le> confidence_level d"

definition less_ConfidenceTypes_def: "c < d \<longleftrightarrow> confidence_level c < confidence_level (d :: ConfidenceTypes)"

instance
  by standard
     (auto simp: less_eq_ConfidenceTypes_def less_ConfidenceTypes_def confidence_level_def split: ConfidenceTypes.splits)

end

definition StreamProtectionConfig_default :: StreamProtectionConfig where
  "StreamProtectionConfig_default =
     \<lparr>spc_confidence = RESET, spc_channelInfo = [], spc_ecm = [], spc_pat = [], spc_pmt = [], spc_isClear = True\<rparr>"

text \<open>The notifications to streamfs are kept in \<open>pih_notified\<close>.\<close>

record ProtectionInfoRequestHandler =
  mCurrentConfig :: StreamProtectionConfig
  mSize :: u32
  pih_notified :: "FsNode list"

definition pih_text :: "'f float_ops \<Rightarrow> hex_fn \<Rightarrow> StreamProtectionConfig \<Rightarrow> string" where
  "pih_text fo hex c = getJsonAsString fo (StreamProtectionConfigExport_new hex c)"

definition ProtectionInfoRequestHandler_new :: "'f float_ops \<Rightarrow> hex_fn \<Rightarrow> ProtectionInfoRequestHandler" where
  "ProtectionInfoRequestHandler_new fo hex =
     \<lparr>mCurrentConfig = StreamProtectionConfig_default,
      mSize = word_of_nat (length (pih_text fo hex StreamProtectionConfig_default)),
      pih_notified = []\<rparr>"

definition pih_writeConfig :: "string \<Rightarrow> string \<Rightarrow> nat \<Rightarrow> int" where
  "pih_writeConfig fileName buf sz = -1"

definition pih_readConfig :: "'f float_ops \<Rightarrow> hex_fn \<Rightarrow> ProtectionInfoRequestHandler \<Rightarrow> string" where
  "pih_readConfig fo hex h = pih_text fo hex (mCurrentConfig h)"

definition pih_notify ::
    "'f float_ops \<Rightarrow> hex_fn \<Rightarrow> FsNode \<Rightarrow> StreamProtectionConfig \<Rightarrow> ProtectionInfoRequestHandler \<Rightarrow> ProtectionInfoRequestHandler" where
  "pih_notify fo hex var value h =
     (if spc_confidence value = RESET \<or> spc_confidence (mCurrentConfig h) \<le> spc_confidence value
      then h\<lparr>mCurrentConfig := value,
             mSize := word_of_nat (length (pih_text fo hex value)),
             pih_notified := pih_notified h @ [var]\<rparr>
      else h)"

definition pih_getSize :: "ProtectionInfoRequestHandler \<Rightarrow> u64" where
  "pih_getSize h = ucast (mSize h)"

section \<open>The text round-trips\<close>

definition hex_digit :: "nat \<Rightarrow> char" where
  "hex_digit d = (if d < 10 then char_of (48 + d) else char_of (55 + d))"

text \<open>The documented behaviour of \<open>boost::algorithm::hex\<close>: two digits for every byte.\<close>

definition hex_ok :: "hex_fn \<Rightarrow> bool" where
  "hex_ok hex \<longleftrightarrow> (\<forall>bs. hex bs = Some (concat (map (\<lambda>b. [hex_digit (unat b div 16), hex_digit (unat b mod 16)]) bs)))"

definition token_char :: "char \<Rightarrow> bool" where
  "token_char c \<longleftrightarrow> c \<noteq> NUL \<and> \<not> isspace c \<and> escape_char c = [c]"

lemma hex_digit_token: "d < 16 \<Longrightarrow> token_char (hex_digit d)"
proof -
  assume "d < 16"
  then have "d = 0 \<or> d = 1 \<or> d = 2 \<or> d = 3 \<or> d = 4 \<or> d = 5 \<or> d = 6 \<or> d = 7 \<or> d = 8 \<or> d = 9 \<or> d = 10 \<or>
      d = 11 \<or> d = 12 \<or> d = 13 \<or> d = 14 \<or> d = 15" by arith
  then show ?thesis
    by (elim disjE) (simp_all add: token_char_def hex_digit_def isspace_def escape_char_def NUL_def char_of_def)
qed

lemma hex_tokens:
  assumes "hex_ok hex"
  shows "\<forall>c \<in> set (byteArrayAsHex hex bs). token_char c"
proof -
  have "unat (b :: u8) div 16 < 16" for b using unat_less_exp [of b] by simp
  then show ?thesis
    using assms by (auto simp: byteArrayAsHex_def hex_ok_def hex_digit_token)
qed

lemma escape_tokens: "\<forall>c \<in> set s. token_char c \<Longrightarrow> json_escape s = s"
  by (induction s) (auto simp: token_char_def)

lemma filter_tokens: "\<forall>c \<in> set s. token_char c \<Longrightarrow> filter (\<lambda>c. \<not> isspace c) s = s"
  by (simp add: token_char_def filter_id_conv)

text \<open>
  The blanks are removed from the whole text: of a string with blanks, those that are not escaped are
  lost, that is, spaces and vertical tabs.
\<close>

definition lost :: "char \<Rightarrow> bool" where
  "lost c \<longleftrightarrow> c = CHR '' '' \<or> c = CHR 0x0B"

lemma filter_escape: "filter (\<lambda>c. \<not> isspace c) (json_escape s) = json_escape (filter (\<lambda>c. \<not> lost c) s)"
  by (induction s) (auto simp: escape_char_def isspace_def lost_def)

lemma json_set_chain:
  "json_set_bool fo kCLEAR b (json_set_string fo kPMT s4 (json_set_string fo kPAT s3
     (json_set_string fo kECM s2 (json_set_string fo kCHANNEL s1 JNull)))) =
   JObject [(kCHANNEL, JString s1), (kCLEAR, JBoolean b), (kECM, JString s2), (kPAT, JString s3), (kPMT, JString s4)]"
proof -
  have s: "json_set_string fo k s (JObject m) = JObject (map_put k (JString s) m)"
    and b: "json_set_bool fo k b (JObject m) = JObject (map_put k (JBoolean b) m)" if "map_of m k = None" for k s b m
    using that by (simp_all add: json_set_string_def json_set_bool_def json_key_assign_put json_key_def
        SetType_def json_assign_string_def json_assign_bool_def)
  have n: "json_set_string fo k s JNull = JObject [(k, JString s)]" for k s
    by (simp add: json_set_string_def json_key_assign_def json_key_def SetType_def json_assign_string_def)
  show ?thesis by (simp add: n s b json_key_defs)
qed

lemma getJsonAsString_eq:
  "getJsonAsString fo e = filter (\<lambda>c. \<not> isspace c) (dump fo 1 ''  ''
     (JObject [(kCHANNEL, JString (spe_ChannelInfo e)), (kCLEAR, JBoolean (spe_Clear e)), (kECM, JString (spe_Ecm e)),
               (kPAT, JString (spe_Pat e)), (kPMT, JString (spe_Pmt e))]))"
  by (simp add: getJsonAsString_def Let_def json_set_chain)

lemma renders_plain_member:
  assumes "\<forall>c \<in> set k. token_char c" and "renders v s"
  shows "renders_members [(k, v)] ([quote] @ k @ [quote] @ '':'' @ s)"
    and "renders_members m t \<Longrightarrow> renders_members ((k, v) # m) ([quote] @ k @ [quote] @ '':'' @ s @ '','' @ t)"
proof -
  have "NUL \<notin> set k" using assms(1) by (auto simp: token_char_def)
  from member [OF blanks_Nil this blanks_Nil blanks_Nil assms(2) blanks_Nil]
    members [OF blanks_Nil this blanks_Nil blanks_Nil assms(2) blanks_Nil]
  show "renders_members [(k, v)] ([quote] @ k @ [quote] @ '':'' @ s)"
    and "renders_members m t \<Longrightarrow> renders_members ((k, v) # m) ([quote] @ k @ [quote] @ '':'' @ s @ '','' @ t)"
    by (simp_all add: quoted_def escape_tokens [OF assms(1)])
qed

text \<open>
  C7: the text of \<open>drm0\<close> loads as a JSON object with the five fields of the record; the hexadecimal
  fields come back exactly, the channel name without its spaces.
\<close>

theorem getJsonAsString_loads:
  assumes "hex_ok hex" and "NUL \<notin> set (spc_channelInfo c)" and "length (pih_text fo hex c) + 1 < 2 ^ 32"
  shows "json_Load fo (pih_text fo hex c) = Inr (JObject
     [(kCHANNEL, JString (filter (\<lambda>c. \<not> lost c) (spc_channelInfo c))), (kCLEAR, JBoolean (spc_isClear c)),
      (kECM, JString (byteArrayAsHex hex (spc_ecm c))), (kPAT, JString (byteArrayAsHex hex (spc_pat c))),
      (kPMT, JString (byteArrayAsHex hex (spc_pmt c)))])"
proof -
  let ?ch = "filter (\<lambda>c. \<not> lost c) (spc_channelInfo c)" and ?h = "\<lambda>f. byteArrayAsHex hex (f c)"
  let ?ms = "[(kCHANNEL, JString ?ch :: 'a JSON), (kCLEAR, JBoolean (spc_isClear c)), (kECM, JString (?h spc_ecm)),
    (kPAT, JString (?h spc_pat)), (kPMT, JString (?h spc_pmt))]"
  have k: "\<forall>c \<in> set kCHANNEL. token_char c" "\<forall>c \<in> set kCLEAR. token_char c" "\<forall>c \<in> set kECM. token_char c"
      "\<forall>c \<in> set kPAT. token_char c" "\<forall>c \<in> set kPMT. token_char c"
    by (simp_all add: json_key_defs token_char_def isspace_def escape_char_def NUL_def)
  note h = hex_tokens [OF assms(1)]
  have nul: "NUL \<notin> set ?ch" "NUL \<notin> set (byteArrayAsHex hex bs)" for bs
    using assms(2) h [of bs] by (auto simp: token_char_def)
  have bool: "renders (JBoolean b) (if b then ''true'' else ''false'')" for b by (cases b) (simp_all add: true false)
  have q: "renders (JString s) ([quote] @ json_escape s @ [quote])" if "NUL \<notin> set s" for s
    using str [OF that] by (simp add: quoted_def)
  note ms = renders_plain_member(2) [OF k(1) q [OF nul(1)] renders_plain_member(2) [OF k(2) bool
      renders_plain_member(2) [OF k(3) q [OF nul(2)] renders_plain_member(2) [OF k(4) q [OF nul(2)]
      renders_plain_member(1) [OF k(5) q [OF nul(2)]]]]]]
  have "isspace (CHR '' '')" "\<not> isspace (CHR '','')" "\<not> isspace (CHR '':'')" "\<not> isspace (CHR ''{'')"
      "\<not> isspace (CHR ''}'')" "\<not> isspace quote" "filter (\<lambda>c. \<not> isspace c) ''true'' = ''true''"
      "filter (\<lambda>c. \<not> isspace c) ''false'' = ''false''"
    by (simp_all add: isspace_def)
  then have "pih_text fo hex c = ''{'' @ ([quote] @ kCHANNEL @ [quote] @ '':'' @ ([quote] @ json_escape ?ch @ [quote]) @ '','' @
      [quote] @ kCLEAR @ [quote] @ '':'' @ (if spc_isClear c then ''true'' else ''false'') @ '','' @
      [quote] @ kECM @ [quote] @ '':'' @ ([quote] @ json_escape (?h spc_ecm) @ [quote]) @ '','' @
      [quote] @ kPAT @ [quote] @ '':'' @ ([quote] @ json_escape (?h spc_pat) @ [quote]) @ '','' @
      [quote] @ kPMT @ [quote] @ '':'' @ ([quote] @ json_escape (?h spc_pmt) @ [quote])) @ ''}''"
    by (simp add: pih_text_def getJsonAsString_eq StreamProtectionConfigExport_new_def Let_def filter_escape
        escape_tokens [OF h] filter_tokens [OF h] filter_tokens [OF k(1)] filter_tokens [OF k(2)]
        filter_tokens [OF k(3)] filter_tokens [OF k(4)] filter_tokens [OF k(5)])
  with obj [OF ms] have "renders (JObject (put_all ?ms [])) (pih_text fo hex c)" by (simp only: append_assoc)
  moreover have "put_all ?ms [] = ?ms" using put_all_sorted [of "[]" ?ms] by (simp add: json_key_defs)
  ultimately have "renders (JObject ?ms) (pih_text fo hex c)" by (simp only:)
  then show ?thesis by (rule load_renders [OF _ assms(3)]) simp
qed

definition hex_upper :: hex_fn where
  "hex_upper bs = Some (concat (map (\<lambda>b. [hex_digit (unat b div 16), hex_digit (unat b mod 16)]) bs))"

theorem getJsonAsString_loads_witness:
  "json_Load float_ops_int (pih_text float_ops_int hex_upper
     \<lparr>spc_confidence = HIGH, spc_channelInfo = ''a b'', spc_ecm = [0x80, 10], spc_pat = [], spc_pmt = [1], spc_isClear = False\<rparr>) =
   Inr (JObject [(kCHANNEL, JString ''ab''), (kCLEAR, JBoolean False), (kECM, JString ''800A''), (kPAT, JString []),
     (kPMT, JString ''01'')])"
proof -
  let ?c = "\<lparr>spc_confidence = HIGH, spc_channelInfo = ''a b'', spc_ecm = [0x80, 10], spc_pat = [], spc_pmt = [1], spc_isClear = False\<rparr>"
  have h: "hex_ok hex_upper" by (simp add: hex_ok_def hex_upper_def)
  have x: "byteArrayAsHex hex_upper [0x80, 10] = ''800A''" "byteArrayAsHex hex_upper [] = []" "byteArrayAsHex hex_upper [1] = ''01''"
    by (simp_all add: byteArrayAsHex_def hex_upper_def hex_digit_def char_of_def bit_0)
  have "length (pih_text float_ops_int hex_upper ?c) \<le> length (dump float_ops_int 1 ''  ''
     (JObject [(kCHANNEL, JString ''a b''), (kCLEAR, JBoolean False), (kECM, JString ''800A''), (kPAT, JString []), (kPMT, JString ''01'')]))"
    unfolding pih_text_def getJsonAsString_eq StreamProtectionConfigExport_new_def by (simp only: x StreamProtectionConfigExport.simps StreamProtectionConfig.simps length_filter_le)
  also have "\<dots> \<le> 200" by (simp add: json_key_defs escape_char_def)
  finally have "length (pih_text float_ops_int hex_upper ?c) + 1 < 2 ^ 32" by simp
  moreover have "NUL \<notin> set (spc_channelInfo ?c)" "filter (\<lambda>c. \<not> lost c) ''a b'' = ''ab''" by (simp_all add: NUL_def lost_def)
  ultimately show ?thesis using getJsonAsString_loads [OF h, of ?c float_ops_int]
    by (simp only: x StreamProtectionConfig.simps simp_thms)
qed

section \<open>The handler keeps the record of the highest confidence\<close>

lemma filter_Max_snoc:
  fixes f :: "'a \<Rightarrow> 'b :: linorder"
  assumes "xs \<noteq> []"
  shows "last (filter (\<lambda>x. f x = Max (f ` set (xs @ [y]))) (xs @ [y])) =
           (if Max (f ` set xs) \<le> f y then y else last (filter (\<lambda>x. f x = Max (f ` set xs)) xs))"
proof -
  have m: "Max (f ` set (xs @ [y])) = max (f y) (Max (f ` set xs))" using assms by (simp add: Max_insert)
  show ?thesis
  proof (cases "Max (f ` set xs) \<le> f y")
    case True
    then show ?thesis unfolding m by (simp add: max_absorb1)
  next
    case False
    then have "max (f y) (Max (f ` set xs)) = Max (f ` set xs)" "f y \<noteq> Max (f ` set xs)" by auto
    then show ?thesis unfolding m using False by simp
  qed
qed

lemma Max_filter_last:
  fixes f :: "'a \<Rightarrow> 'b :: linorder"
  assumes "xs \<noteq> []"
  shows "f (last (filter (\<lambda>x. f x = Max (f ` set xs)) xs)) = Max (f ` set xs)"
proof -
  have "Max (f ` set xs) \<in> f ` set xs" using assms by (intro Max_in) simp_all
  then have "filter (\<lambda>x. f x = Max (f ` set xs)) xs \<noteq> []" by (auto simp: filter_empty_conv)
  from last_in_set [OF this] show ?thesis by simp
qed

text \<open>
  C12: between two resets the handler holds the last of the records of the highest confidence published
  since the reset, whatever order they come in; the size it reports is that of the text a read returns.
\<close>

theorem pih_keeps_best:
  assumes "spc_confidence v0 = RESET" and "\<forall>v \<in> set vs. spc_confidence v \<noteq> RESET"
  shows "mCurrentConfig (fold (pih_notify fo hex var) (v0 # vs) h) =
           last (filter (\<lambda>v. spc_confidence v = Max (spc_confidence ` set (v0 # vs))) (v0 # vs)) \<and>
         mSize (fold (pih_notify fo hex var) (v0 # vs) h) =
           word_of_nat (length (pih_readConfig fo hex (fold (pih_notify fo hex var) (v0 # vs) h)))"
  using assms(2)
proof (induction vs rule: rev_induct)
  case Nil
  then show ?case using assms(1) by (simp add: pih_notify_def pih_readConfig_def)
next
  case (snoc v vs)
  let ?h = "fold (pih_notify fo hex var) (v0 # vs) h"
  have IH: "mCurrentConfig ?h = last (filter (\<lambda>v. spc_confidence v = Max (spc_confidence ` set (v0 # vs))) (v0 # vs))"
      "mSize ?h = word_of_nat (length (pih_text fo hex (mCurrentConfig ?h)))"
    using snoc unfolding pih_readConfig_def by simp_all
  have c: "spc_confidence (mCurrentConfig ?h) = Max (spc_confidence ` set (v0 # vs))"
    unfolding IH(1) by (rule Max_filter_last) simp
  have f: "fold (pih_notify fo hex var) (v0 # vs @ [v]) h = pih_notify fo hex var v ?h" by simp
  have m: "last (filter (\<lambda>x. spc_confidence x = Max (spc_confidence ` set (v0 # vs @ [v]))) (v0 # vs @ [v])) =
      (if Max (spc_confidence ` set (v0 # vs)) \<le> spc_confidence v then v else mCurrentConfig ?h)"
    unfolding IH(1) using filter_Max_snoc [of "v0 # vs" spc_confidence v] by (simp only: append_Cons list.distinct simp_thms)
  have "spc_confidence v \<noteq> RESET" using snoc.prems by simp
  then show ?case unfolding f m using c IH(2) by (simp add: pih_notify_def pih_readConfig_def)
qed

theorem pih_keeps_best_witness:
  "mCurrentConfig (fold (pih_notify float_ops_int hex_upper CONFIG_F_PROTECTION_INFO)
     [StreamProtectionConfig_default, StreamProtectionConfig_default\<lparr>spc_confidence := HIGH\<rparr>,
      StreamProtectionConfig_default\<lparr>spc_confidence := LOW\<rparr>] (ProtectionInfoRequestHandler_new float_ops_int hex_upper)) =
   StreamProtectionConfig_default\<lparr>spc_confidence := HIGH\<rparr>"
proof -
  have "{RESET, HIGH, LOW} = insert RESET (insert HIGH {LOW})" by simp
  then have "Max {RESET, HIGH, LOW} = HIGH"
    by (simp add: Max_insert max_def less_eq_ConfidenceTypes_def confidence_level_def)
  then show ?thesis
    using pih_keeps_best [of StreamProtectionConfig_default
      "[StreamProtectionConfig_default\<lparr>spc_confidence := HIGH\<rparr>, StreamProtectionConfig_default\<lparr>spc_confidence := LOW\<rparr>]"
      float_ops_int hex_upper CONFIG_F_PROTECTION_INFO "ProtectionInfoRequestHandler_new float_ops_int hex_upper"]
    by (simp add: StreamProtectionConfig_default_def)
qed

end
