(* ===== verification/Timers.thy ===== *)
theory Timers
  imports Prelude
begin

text \<open>
  The timers of \<open>include/utils\<close>: the watchdog, the cyclic timer, the interval monitor, the
  scheduled task, the deferred-read handler and the time-stamp corrector. Threads are step relations
  between the points at which they wait; a method of the class is one step. Clock readings are
  arguments, and the calls of the client's function are recorded.
\<close>

section \<open>Watchdog (TimeoutWatchdog)\<close>

datatype StateType = CLEAR | RUNNING | STOPPED | EXPIRED

text \<open>Where the thread is: waiting for a start, in the timed wait, or gone.\<close>

datatype wd_pc = W_start | W_timer | W_gone

text \<open>\<open>wd_calls\<close> are the arguments of the calls of \<open>mFunc\<close>, \<open>wd_starts\<close> counts effective starts.\<close>

record TimeoutWatchdog =
  wd_state :: StateType
  wd_clear_flag :: bool
  wd_stop_flag :: bool
  wd_exit :: bool
  wd_notified :: bool
  wd_pc :: wd_pc
  wd_calls :: "bool list"
  wd_starts :: nat

definition TimeoutWatchdog_new :: TimeoutWatchdog where
  "TimeoutWatchdog_new = \<lparr>wd_state = CLEAR, wd_clear_flag = True, wd_stop_flag = True, wd_exit = False,
     wd_notified = False, wd_pc = W_start, wd_calls = [], wd_starts = 0\<rparr>"

definition wd_restart :: "TimeoutWatchdog \<Rightarrow> TimeoutWatchdog" where
  "wd_restart w = w\<lparr>wd_notified := True\<rparr>"

definition wd_clear :: "TimeoutWatchdog \<Rightarrow> TimeoutWatchdog" where
  "wd_clear w = wd_restart (w\<lparr>wd_state := CLEAR, wd_stop_flag := True, wd_clear_flag := True\<rparr>)"

definition wd_start :: "TimeoutWatchdog \<Rightarrow> TimeoutWatchdog" where
  "wd_start w =
     (if wd_stop_flag w
      then w\<lparr>wd_state := RUNNING, wd_clear_flag := False, wd_stop_flag := False, wd_starts := wd_starts w + 1\<rparr>
      else w)"

definition wd_stop :: "TimeoutWatchdog \<Rightarrow> TimeoutWatchdog" where
  "wd_stop w =
     (if \<not> wd_stop_flag w
      then w\<lparr>wd_state := STOPPED, wd_stop_flag := True, wd_calls := wd_calls w @ [False]\<rparr>
      else w)"

definition wd_getState :: "TimeoutWatchdog \<Rightarrow> StateType" where
  "wd_getState w = wd_state w"

definition wd_destroy :: "TimeoutWatchdog \<Rightarrow> TimeoutWatchdog" where
  "wd_destroy w = wd_clear (w\<lparr>wd_exit := True\<rparr>)"

text \<open>The tests of the two loops of the thread.\<close>

definition wd_loop :: "TimeoutWatchdog \<Rightarrow> TimeoutWatchdog" where
  "wd_loop w = w\<lparr>wd_pc := if \<not> wd_stop_flag w \<and> \<not> wd_exit w then W_timer else if wd_exit w then W_gone else W_start\<rparr>"

definition wd_after_wait :: "bool \<Rightarrow> TimeoutWatchdog \<Rightarrow> TimeoutWatchdog" where
  "wd_after_wait status w =
     (let w = w\<lparr>wd_notified := False\<rparr>
      in if \<not> status \<and> \<not> wd_stop_flag w
         then w\<lparr>wd_state := EXPIRED, wd_stop_flag := True, wd_calls := wd_calls w @ [True]\<rparr>
         else w)"

inductive wd_step :: "TimeoutWatchdog \<Rightarrow> TimeoutWatchdog \<Rightarrow> bool" where
  wd_user_clear: "wd_step w (wd_clear w)"
| wd_user_start: "wd_step w (wd_start w)"
| wd_user_stop: "wd_step w (wd_stop w)"
| wd_user_restart: "wd_step w (wd_restart w)"
| wd_user_destroy: "wd_step w (wd_destroy w)"
| wd_wake: "wd_pc w = W_start \<Longrightarrow> \<not> wd_stop_flag w \<or> wd_exit w \<Longrightarrow> wd_step w (wd_loop w)"
| wd_wait_done: "wd_pc w = W_timer \<Longrightarrow> wd_step w (wd_loop (wd_after_wait (wd_notified w) w))"

lemmas wd_defs = TimeoutWatchdog_new_def wd_restart_def wd_clear_def wd_start_def wd_stop_def wd_destroy_def
  wd_loop_def wd_after_wait_def

definition wd_inv :: "TimeoutWatchdog \<Rightarrow> bool" where
  "wd_inv w \<longleftrightarrow> (wd_state w = RUNNING \<longleftrightarrow> \<not> wd_stop_flag w) \<and>
     length (wd_calls w) + (if wd_stop_flag w then 0 else 1) \<le> wd_starts w"

interpretation wd_run: inductive_invariant "\<lambda>w. w = TimeoutWatchdog_new" wd_step wd_inv
proof unfold_locales
  show "wd_inv s" if "s = TimeoutWatchdog_new" for s using that by (simp add: wd_inv_def wd_defs)
  show "wd_inv t" if "wd_inv s" "wd_step s t" for s t
    using that(2, 1) by cases (auto simp: wd_inv_def wd_defs Let_def split: if_splits)
qed



section \<open>Cyclic timer (CyclicEventTimer)\<close>

text \<open>Where the thread is: about to wait, waiting, at the test of the loop, sleeping, or gone.\<close>

datatype cet_pc = C_idle | C_waiting | C_loop | C_sleep | C_gone

record CyclicEventTimer =
  cet_stop_flag :: bool
  cet_exit :: bool
  cet_period :: u16
  cet_has_func :: bool
  cet_pc :: cet_pc
  cet_calls :: nat

definition CyclicEventTimer_new :: "bool \<Rightarrow> CyclicEventTimer" where
  "CyclicEventTimer_new f = \<lparr>cet_stop_flag = True, cet_exit = False, cet_period = 0, cet_has_func = f,
     cet_pc = C_idle, cet_calls = 0\<rparr>"

definition cet_setPeriodInMilliseconds :: "u16 \<Rightarrow> CyclicEventTimer \<Rightarrow> CyclicEventTimer" where
  "cet_setPeriodInMilliseconds time c = c\<lparr>cet_period := time\<rparr>"

text \<open>\<open>notify_one\<close> has an effect only if the thread waits.\<close>

definition cet_notify :: "CyclicEventTimer \<Rightarrow> CyclicEventTimer" where
  "cet_notify c = (if cet_pc c = C_waiting then c\<lparr>cet_pc := C_loop\<rparr> else c)"

definition cet_start :: "CyclicEventTimer \<Rightarrow> bool \<times> CyclicEventTimer" where
  "cet_start c =
     (if cet_has_func c \<and> cet_stop_flag c \<and> cet_period c \<noteq> 0
      then (True, cet_notify (c\<lparr>cet_stop_flag := False\<rparr>))
      else (False, c))"

definition cet_stop :: "CyclicEventTimer \<Rightarrow> CyclicEventTimer" where
  "cet_stop c = cet_notify (c\<lparr>cet_stop_flag := True\<rparr>)"

definition cet_destroy :: "CyclicEventTimer \<Rightarrow> CyclicEventTimer" where
  "cet_destroy c = cet_stop (c\<lparr>cet_exit := True\<rparr>)"

definition cet_outer :: "CyclicEventTimer \<Rightarrow> CyclicEventTimer" where
  "cet_outer c = c\<lparr>cet_pc := if cet_exit c then C_gone else C_idle\<rparr>"

text \<open>A pass of the inner loop, where \<open>r\<close> is what the client's function returns.\<close>

definition cet_pass :: "bool \<Rightarrow> CyclicEventTimer \<Rightarrow> CyclicEventTimer" where
  "cet_pass r c =
     (if \<not> cet_exit c \<and> \<not> cet_stop_flag c
      then (let c = c\<lparr>cet_calls := cet_calls c + 1\<rparr>
            in if r then cet_outer (c\<lparr>cet_stop_flag := True\<rparr>) else c\<lparr>cet_pc := C_sleep\<rparr>)
      else cet_outer c)"

inductive cet_step :: "CyclicEventTimer \<Rightarrow> CyclicEventTimer \<Rightarrow> bool" where
  cet_user_period: "cet_step c (cet_setPeriodInMilliseconds time c)"
| cet_user_start: "cet_step c (snd (cet_start c))"
| cet_user_stop: "cet_step c (cet_stop c)"
| cet_user_destroy: "cet_step c (cet_destroy c)"
| cet_wait: "cet_pc c = C_idle \<Longrightarrow> cet_step c (c\<lparr>cet_pc := C_waiting\<rparr>)"
| cet_spurious: "cet_pc c = C_waiting \<Longrightarrow> cet_step c (c\<lparr>cet_pc := C_loop\<rparr>)"
| cet_loop: "cet_pc c = C_loop \<Longrightarrow> cet_step c (cet_pass r c)"
| cet_slept: "cet_pc c = C_sleep \<Longrightarrow> cet_step c (c\<lparr>cet_pc := C_loop\<rparr>)"

lemmas cet_defs = CyclicEventTimer_new_def cet_setPeriodInMilliseconds_def cet_notify_def cet_start_def
  cet_stop_def cet_destroy_def cet_outer_def cet_pass_def

text \<open>
  C21: a start of the cyclic timer can be lost. If \<open>start\<close> runs before the thread has come to its
  wait, also after the client's function has just ended a run, the thread then waits although the
  timer is started, and every further \<open>start\<close> is refused and changes nothing.
\<close>

theorem cyclic_start_lost:
  assumes "reach (\<lambda>c. c = CyclicEventTimer_new True) cet_step c" and "cet_pc c = C_idle" and "cet_stop_flag c"
    and "cet_has_func c" and "cet_period c \<noteq> 0"
  shows "\<exists>c'. reach (\<lambda>c. c = CyclicEventTimer_new True) cet_step c' \<and> fst (cet_start c) \<and>
           cet_pc c' = C_waiting \<and> \<not> cet_stop_flag c' \<and> cet_calls c' = cet_calls c \<and> cet_start c' = (False, c')"
proof -
  let ?c1 = "snd (cet_start c)"
  have r1: "reach (\<lambda>c. c = CyclicEventTimer_new True) cet_step ?c1" 
    by (rule reach_step [where step = cet_step, OF assms(1) cet_user_start])
  have "cet_pc ?c1 = C_idle" using assms by (simp add: cet_defs)
  from reach_step [where step = cet_step, OF r1 cet_wait [OF this]]
  have "reach (\<lambda>c. c = CyclicEventTimer_new True) cet_step (?c1\<lparr>cet_pc := C_waiting\<rparr>)" .
  then show ?thesis
    by (intro exI [of _ "?c1\<lparr>cet_pc := C_waiting\<rparr>"]) (use assms in \<open>simp add: cet_defs\<close>)
qed

theorem cyclic_start_lost_witness:
  "\<exists>c'. reach (\<lambda>c. c = CyclicEventTimer_new True) cet_step c' \<and> cet_pc c' = C_waiting \<and> \<not> cet_stop_flag c' \<and>
     cet_start c' = (False, c')"
proof -
  have "reach (\<lambda>c. c = CyclicEventTimer_new True) cet_step (cet_setPeriodInMilliseconds 350 (CyclicEventTimer_new True))"
    by (rule reach_step [where step = cet_step, OF reach_init cet_user_period]) (rule refl)
  from cyclic_start_lost [OF this] show ?thesis by (auto simp: cet_defs)
qed

section \<open>Interval monitor (TimeIntervalMonitor)\<close>

text \<open>Clock readings in nanoseconds; a duration is cut to microseconds towards zero.\<close>

definition us_of :: "int \<Rightarrow> int" where
  "us_of d = (if d < 0 then - ((- d) div 1000) else d div 1000)"

record TimeIntervalMonitor =
  tim_running :: bool
  tim_init :: int
  tim_last :: int
  tim_delta :: int

definition tim_reset :: "int \<Rightarrow> TimeIntervalMonitor" where
  "tim_reset now = \<lparr>tim_running = False, tim_init = now, tim_last = now, tim_delta = us_of (now - now)\<rparr>"

definition stopTimeInterval :: "TimeIntervalMonitor \<Rightarrow> TimeIntervalMonitor" where
  "stopTimeInterval m = m\<lparr>tim_running := False\<rparr>"

definition updateTimeInterval :: "int \<Rightarrow> TimeIntervalMonitor \<Rightarrow> TimeIntervalMonitor" where
  "updateTimeInterval now m =
     (if \<not> tim_running m
      then m\<lparr>tim_delta := tim_delta m + us_of (tim_last m - tim_init m), tim_init := now, tim_last := now, tim_running := True\<rparr>
      else m\<lparr>tim_last := now\<rparr>)"

definition getAccumulatedTimeInMicroSeconds :: "TimeIntervalMonitor \<Rightarrow> u64" where
  "getAccumulatedTimeInMicroSeconds m = word_of_int (tim_delta m + us_of (tim_last m - tim_init m))"

datatype tim_event = Tim_update int | Tim_stop

fun tim_step :: "tim_event \<Rightarrow> TimeIntervalMonitor \<Rightarrow> TimeIntervalMonitor" where
  "tim_step (Tim_update now) m = updateTimeInterval now m"
| "tim_step Tim_stop m = stopTimeInterval m"

text \<open>The runs of updates between stops, and the time they span.\<close>

fun tim_runs :: "tim_event list \<Rightarrow> int list list" where
  "tim_runs [] = [[]]"
| "tim_runs (Tim_stop # es) = [] # tim_runs es"
| "tim_runs (Tim_update t # es) = (case tim_runs es of r # rs \<Rightarrow> (t # r) # rs | [] \<Rightarrow> [[t]])"

definition run_us :: "int list \<Rightarrow> int" where
  "run_us r = (if r = [] then 0 else us_of (last r - hd r))"

lemma tim_runs_nonempty: "tim_runs es \<noteq> []"
  by (induction es rule: tim_runs.induct) (auto split: list.splits)

lemma tim_runs_append:
  "tim_runs (es @ [Tim_update t]) = butlast (tim_runs es) @ [last (tim_runs es) @ [t]]"
  "tim_runs (es @ [Tim_stop]) = tim_runs es @ [[]]"
proof (induction es rule: tim_runs.induct)
  case (3 t' es)
  { case 1 show ?case using 3(1) tim_runs_nonempty [of es] by (cases "tim_runs es") (auto split: list.splits) }
  { case 2 show ?case using 3(2) tim_runs_nonempty [of es] by (cases "tim_runs es") auto }
qed (auto simp: tim_runs_nonempty)

lemma tim_runs_split:
  "sum_list (map run_us (tim_runs es)) = sum_list (map run_us (butlast (tim_runs es))) + run_us (last (tim_runs es))"
proof -
  have "map run_us (tim_runs es) = map run_us (butlast (tim_runs es)) @ [run_us (last (tim_runs es))]"
    by (subst append_butlast_last_id [OF tim_runs_nonempty, symmetric]) (simp only: map_append list.map)
  then show ?thesis by simp
qed

definition tim_ok :: "tim_event list \<Rightarrow> TimeIntervalMonitor \<Rightarrow> bool" where
  "tim_ok es m \<longleftrightarrow>
     (if tim_running m
      then last (tim_runs es) \<noteq> [] \<and> tim_init m = hd (last (tim_runs es)) \<and> tim_last m = last (last (tim_runs es)) \<and>
           tim_delta m = sum_list (map run_us (butlast (tim_runs es)))
      else last (tim_runs es) = [] \<and> tim_delta m + us_of (tim_last m - tim_init m) = sum_list (map run_us (tim_runs es)))"

lemma tim_step_ok: "tim_ok es m \<Longrightarrow> tim_ok (es @ [e]) (tim_step e m)"
proof (cases e)
  case (Tim_update t)
  assume ok: "tim_ok es m"
  with tim_runs_split [of es] show ?thesis
    by (auto simp: Tim_update tim_ok_def updateTimeInterval_def tim_runs_append run_us_def)
next
  case Tim_stop
  assume ok: "tim_ok es m"
  with tim_runs_split [of es] show ?thesis
    by (auto simp: Tim_stop tim_ok_def stopTimeInterval_def tim_runs_append run_us_def split: if_splits)
qed

lemma tim_fold_ok: "tim_ok es (fold tim_step es (tim_reset now))"
proof (induction es rule: rev_induct)
  case Nil
  then show ?case by (simp add: tim_ok_def tim_reset_def us_of_def run_us_def)
next
  case (snoc e es)
  then show ?case by (simp add: tim_step_ok)
qed

text \<open>
  C32: the interval monitor returns, in microseconds, the sum of the spans of the runs of updates
  between stops since its reset.
\<close>

theorem interval_accumulates:
  "getAccumulatedTimeInMicroSeconds (fold tim_step es (tim_reset now)) = word_of_int (sum_list (map run_us (tim_runs es)))"
proof -
  let ?m = "fold tim_step es (tim_reset now)"
  have "tim_delta ?m + us_of (tim_last ?m - tim_init ?m) = sum_list (map run_us (tim_runs es))"
    using tim_fold_ok [of es now] tim_runs_split [of es] by (auto simp: tim_ok_def run_us_def split: if_splits)
  then show ?thesis unfolding getAccumulatedTimeInMicroSeconds_def by (simp only:)
qed

section \<open>Scheduled task (ScheduledTask)\<close>

text \<open>Where the thread of a fixed-rate task is; \<open>T_delay\<close> is the initial sleep.\<close>

datatype task_pc = T_new | T_delay | T_interval | T_done

record ScheduledTask =
  task_running :: bool
  task_request_exit :: bool
  task_pc :: task_pc
  task_calls :: nat

definition ScheduledTask_new :: ScheduledTask where
  "ScheduledTask_new = \<lparr>task_running = False, task_request_exit = False, task_pc = T_done, task_calls = 0\<rparr>"

definition scheduleFixedRate :: "ScheduledTask \<Rightarrow> ScheduledTask" where
  "scheduleFixedRate t = t\<lparr>task_request_exit := False, task_pc := T_new\<rparr>"

text \<open>The test of the loop, and its end.\<close>

definition task_loop :: "ScheduledTask \<Rightarrow> ScheduledTask" where
  "task_loop t = (if task_request_exit t then t\<lparr>task_running := False, task_pc := T_done\<rparr> else t\<lparr>task_pc := T_interval\<rparr>)"

definition task_thread :: "int \<Rightarrow> ScheduledTask \<Rightarrow> ScheduledTask" where
  "task_thread initialDelay t = (case task_pc t of
     T_new \<Rightarrow> if initialDelay > 0 then t\<lparr>task_running := True, task_pc := T_delay\<rparr> else task_loop (t\<lparr>task_running := True\<rparr>)
   | T_delay \<Rightarrow> if task_request_exit t then t\<lparr>task_pc := T_done\<rparr> else task_loop (t\<lparr>task_calls := task_calls t + 1\<rparr>)
   | T_interval \<Rightarrow> if task_request_exit t then t\<lparr>task_running := False, task_pc := T_done\<rparr>
                  else task_loop (t\<lparr>task_calls := task_calls t + 1\<rparr>)
   | T_done \<Rightarrow> t)"

text \<open>\<open>stop\<close> asks the thread to end and, on request, waits until \<open>mRunning\<close> is cleared.\<close>

definition task_stop :: "ScheduledTask \<Rightarrow> ScheduledTask" where
  "task_stop t = t\<lparr>task_request_exit := True\<rparr>"

definition task_stop_returns :: "bool \<Rightarrow> ScheduledTask \<Rightarrow> bool" where
  "task_stop_returns waitExit t \<longleftrightarrow> \<not> waitExit \<or> \<not> task_running t"

text \<open>A task that runs once: whether it is run, given the exit requests seen before and after the delay.\<close>

definition schedule_runs :: "bool \<Rightarrow> bool \<Rightarrow> bool" where
  "schedule_runs exit_before exit_after \<longleftrightarrow> \<not> exit_before \<and> \<not> exit_after"



section \<open>Deferred reads (ConstDelayDefHandler)\<close>

datatype DefferSignalTypes = DATA_RECEIVED | NETWORK_FAILURE | GENERIC_FAILURE | CLOSED

record ConstDelayDefHandler =
  cdh_wait_ms :: int
  cdh_signals :: "DefferSignalTypes list"
  cdh_last_ms :: int

definition MAX_ERROR_COUNT :: nat where "MAX_ERROR_COUNT = 10"

definition ConstDelayDefHandler_new :: "int \<Rightarrow> ConstDelayDefHandler" where
  "ConstDelayDefHandler_new timeMs = \<lparr>cdh_wait_ms = timeMs, cdh_signals = [], cdh_last_ms = 0\<rparr>"

definition cdh_pop :: "ConstDelayDefHandler \<Rightarrow> DefferSignalTypes \<times> ConstDelayDefHandler" where
  "cdh_pop h = (case cdh_signals h of
     [] \<Rightarrow> (DATA_RECEIVED, h)
   | res # rest \<Rightarrow> (res, h\<lparr>cdh_signals := rest\<rparr>))"

text \<open>\<open>notified\<close> is how the timed wait ended, if there was one: whether a signal came in time.\<close>

definition waitSignal :: "int \<Rightarrow> bool \<Rightarrow> ConstDelayDefHandler \<Rightarrow> DefferSignalTypes \<times> ConstDelayDefHandler" where
  "waitSignal now notified h =
     (if now - cdh_last_ms h < cdh_wait_ms h then cdh_pop h
      else if \<not> notified then (GENERIC_FAILURE, h)
      else cdh_pop h)"

definition cdh_signal :: "int \<Rightarrow> DefferSignalTypes \<Rightarrow> ConstDelayDefHandler \<Rightarrow> ConstDelayDefHandler" where
  "cdh_signal now signal h =
     (let h = h\<lparr>cdh_last_ms := now\<rparr>
      in if signal \<noteq> DATA_RECEIVED \<and> length (cdh_signals h) < MAX_ERROR_COUNT
         then h\<lparr>cdh_signals := cdh_signals h @ [signal]\<rparr> else h)"

section \<open>Time stamps (TimeStampCorrector)\<close>

definition NTP_CORRECTION_THLD :: u32 where "NTP_CORRECTION_THLD = 1000000000"

text \<open>\<open>sysinfo\<close> gives its error and the uptime.\<close>

definition getUptime :: "int \<times> int \<Rightarrow> int" where
  "getUptime info = (if fst info \<noteq> 0 then 0 else snd info)"

definition correctTimeStamp :: "u32 \<Rightarrow> int \<times> int \<Rightarrow> u32 \<Rightarrow> u32" where
  "correctTimeStamp current_time info t =
     (if current_time - t > NTP_CORRECTION_THLD
      then word_of_int ((int (unat current_time) - getUptime info) + int (unat t)) else t)"

end
