(* ===== verification/Buffer_Indexer.thy ===== *)
theory Buffer_Indexer
  imports Complex_Main Externals Config_Options
begin

text \<open>
  The index of the time-shift buffer (\<open>StreamParser/BufferIndexer\<close>): a circular buffer of pairs of a
  time and an accumulated byte count, searched by bisection. Floating-point values are rationals, and
  rounding to \<open>float\<close> and to \<open>double\<close> are the parameters \<open>fl\<close> and \<open>dbl\<close> of the
  environment (an implementation may keep excess precision). \<open>None\<close> is undefined behaviour: an index
  out of bounds, a division by zero or a conversion out of range.
\<close>

section \<open>Environment\<close>

type_synonym index_pair = "u64 \<times> u64"

record bi_env =
  index_ring :: "index_pair circ_ops"
  fl :: "rat \<Rightarrow> rat"
  dbl :: "rat \<Rightarrow> rat"

datatype BuffErr = BUF_OK | BUF_OUT_OF_RANGE | BUF_EMPTY

text \<open>Conversions between integers and floating-point numbers.\<close>

definition f_of_u64 :: "bi_env \<Rightarrow> u64 \<Rightarrow> rat" where
  "f_of_u64 E w = fl E (of_nat (unat w))"

definition u64_of_f :: "rat \<Rightarrow> u64 option" where
  "u64_of_f x = (if -1 < x \<and> x < 2 ^ 64 then Some (if x < 0 then 0 else word_of_int \<lfloor>x\<rfloor>) else None)"

definition f_div :: "bi_env \<Rightarrow> rat \<Rightarrow> rat \<Rightarrow> rat option" where
  "f_div E x y = (if y = 0 then None else Some (fl E (x / y)))"

section \<open>State\<close>

record BufferIndexer =
  mSamplingRatio :: u8
  mBufferCount :: u64
  mTsbSize :: u64
  bi_capacity :: nat
  mBufInd :: "index_pair list"
  mLastByteOffsetFromTimeUs :: index_pair
  mLastTimeUsFromByteOffset :: index_pair

definition BufferIndexer_new :: "u64 \<Rightarrow> u64 \<Rightarrow> u8 \<Rightarrow> BufferIndexer option" where
  "BufferIndexer_new tsbSize tailSize samplingRatio =
     (if samplingRatio = 0 then None
      else Some \<lparr>mSamplingRatio = samplingRatio, mBufferCount = 0,
                 mTsbSize = (tsbSize - tailSize) div ucast samplingRatio,
                 bi_capacity = unat (tsbSize div ucast samplingRatio), mBufInd = [],
                 mLastByteOffsetFromTimeUs = (0, 0), mLastTimeUsFromByteOffset = (0, 0)\<rparr>)"

text \<open>\<open>BUFFER_POOL_SIZE\<close> is a floating-point expression, cut to an integer by the constructor.\<close>

definition BUFFER_POOL_SIZE :: u64 where
  "BUFFER_POOL_SIZE = word_of_int \<lfloor>(1/2 + of_nat TSB_SIZE_SEC) * 1000000 / of_nat BUFFER_CHUNK_CBR_PERIOD_USEC
     + of_nat BUFFER_POOL_TAIL_SIZE :: rat\<rfloor>"

definition registerBufferCount ::
    "bi_env \<Rightarrow> u64 \<Rightarrow> u64 \<Rightarrow> BufferIndexer \<Rightarrow> (bool \<times> u64) \<times> BufferIndexer" where
  "registerBufferCount E currentTime bufferCount b =
     (let n = mBufferCount b; b = b\<lparr>mBufferCount := n + 1\<rparr>
      in if n mod ucast (mSamplingRatio b) = 0
         then (let b = b\<lparr>mBufInd := circ_push_back (index_ring E) (bi_capacity b) (mBufInd b) (currentTime, bufferCount)\<rparr>
               in ((True, word_of_nat (length (mBufInd b))), b))
         else ((False, word_of_nat (length (mBufInd b))), b))"

definition getIndexSize :: "BufferIndexer \<Rightarrow> nat" where
  "getIndexSize b = (let actualSize = length (mBufInd b) in if actualSize > unat (mTsbSize b) then unat (mTsbSize b) else actualSize)"

definition getFrontIndex :: "BufferIndexer \<Rightarrow> nat" where
  "getFrontIndex b = length (mBufInd b) - getIndexSize b"

definition getFront :: "BufferIndexer \<Rightarrow> index_pair option" where
  "getFront b = rd (mBufInd b) (length (mBufInd b) - getIndexSize b)"

definition bi_back :: "BufferIndexer \<Rightarrow> index_pair option" where
  "bi_back b = rd (mBufInd b) (length (mBufInd b) - 1)"

section \<open>Search\<close>

text \<open>\<open>std::upper_bound\<close> on the range of length \<open>len\<close> from \<open>first\<close> on.\<close>

function upper_bound :: "('a \<Rightarrow> bool) \<Rightarrow> 'a list \<Rightarrow> nat \<Rightarrow> nat \<Rightarrow> nat" where
  "upper_bound pred xs first len =
     (if len = 0 then first
      else let half = len div 2; middle = first + half
           in if pred (xs ! middle) then upper_bound pred xs first half
              else upper_bound pred xs (middle + 1) (len - half - 1))"
  by pat_completeness auto
termination
  by (relation "measure (\<lambda>(pred, xs, first, len). len)") auto

declare upper_bound.simps [simp del]

definition byteOffsetSearch :: "u64 \<Rightarrow> index_pair \<Rightarrow> bool" where
  "byteOffsetSearch target current \<longleftrightarrow> target < fst current"

definition timeSearch :: "u64 \<Rightarrow> index_pair \<Rightarrow> bool" where
  "timeSearch target current \<longleftrightarrow> target < snd current"

section \<open>Queries\<close>

text \<open>The reference parameters are passed in and returned.\<close>

definition getByteOffsetFromTimeUs ::
    "bi_env \<Rightarrow> u64 \<Rightarrow> u64 \<Rightarrow> BufferIndexer \<Rightarrow> (BuffErr \<times> u64 \<times> BufferIndexer) option" where
  "getByteOffsetFromTimeUs E time byteOffset b =
     (if mBufInd b = [] then Some (BUF_EMPTY, byteOffset, b)
      else if time = fst (mLastByteOffsetFromTimeUs b) then Some (BUF_OK, snd (mLastByteOffsetFromTimeUs b), b)
      else if time = 0 then Some (BUF_OK, 0, b\<lparr>mLastByteOffsetFromTimeUs := (0, 0)\<rparr>)
      else do {
        front \<leftarrow> getFront b;
        back \<leftarrow> bi_back b;
        if fst front + time > fst back then
          (let byteOffset = snd back - snd front
           in Some (BUF_OUT_OF_RANGE, byteOffset, b\<lparr>mLastByteOffsetFromTimeUs := (time, byteOffset)\<rparr>))
        else do {
          let timeTarget = fst back - time;
          let i = upper_bound (byteOffsetSearch timeTarget) (mBufInd b) (getFrontIndex b)
                    (length (mBufInd b) - getFrontIndex b);
          if i = length (mBufInd b) then Some (BUF_OUT_OF_RANGE, byteOffset, b)
          else do {
            prev \<leftarrow> (if i = 0 then None else rd (mBufInd b) (i - 1));
            cur \<leftarrow> rd (mBufInd b) i;
            let d = sint (fst prev - fst cur);
            gradient \<leftarrow> (if d = 0 then None else Some (fl E (dbl E (1 / of_int d))));
            index \<leftarrow> u64_of_f (fl E (f_of_u64 E (word_of_nat i) +
                       fl E (gradient * f_of_u64 E (time - (fst back - fst cur)))));
            sample \<leftarrow> rd (mBufInd b) (unat index);
            let byteOffset = snd back - snd sample;
            Some (BUF_OK, byteOffset, b\<lparr>mLastByteOffsetFromTimeUs := (time, byteOffset)\<rparr>)
          }
        }
      })"

definition getTimeUsFromByteOffset ::
    "bi_env \<Rightarrow> u64 \<Rightarrow> u64 \<Rightarrow> BufferIndexer \<Rightarrow> (BuffErr \<times> u64 \<times> BufferIndexer) option" where
  "getTimeUsFromByteOffset E byteOffset time b =
     (if mBufInd b = [] then Some (BUF_EMPTY, time, b)
      else if byteOffset = fst (mLastTimeUsFromByteOffset b) then Some (BUF_OK, snd (mLastTimeUsFromByteOffset b), b)
      else if byteOffset = 0 then Some (BUF_OK, 0, b\<lparr>mLastTimeUsFromByteOffset := (0, 0)\<rparr>)
      else do {
        front \<leftarrow> getFront b;
        back \<leftarrow> bi_back b;
        if snd front + byteOffset > snd back then
          (let time = fst back - fst front
           in Some (BUF_OUT_OF_RANGE, time, b\<lparr>mLastTimeUsFromByteOffset := (byteOffset, time)\<rparr>))
        else do {
          let targetOffset = snd back - byteOffset;
          let i = upper_bound (timeSearch targetOffset) (mBufInd b) (getFrontIndex b)
                    (length (mBufInd b) - getFrontIndex b);
          if i = length (mBufInd b) then Some (BUF_OUT_OF_RANGE, time, b)
          else do {
            prev \<leftarrow> (if i = 0 then None else rd (mBufInd b) (i - 1));
            cur \<leftarrow> rd (mBufInd b) i;
            gradient \<leftarrow> f_div E (f_of_u64 E (fst cur - fst prev)) (f_of_u64 E (snd cur - snd prev));
            delta \<leftarrow> u64_of_f (fl E (gradient * f_of_u64 E (targetOffset - snd prev)));
            let time = fst back - (fst prev + delta);
            Some (BUF_OK, time, b\<lparr>mLastTimeUsFromByteOffset := (byteOffset, time)\<rparr>)
          }
        }
      })"

definition getTimestampUsForByteIndex :: "bi_env \<Rightarrow> u64 \<Rightarrow> u64 \<Rightarrow> BufferIndexer \<Rightarrow> (BuffErr \<times> u64) option" where
  "getTimestampUsForByteIndex E byteIndex time b =
     (if mBufInd b = [] then Some (BUF_EMPTY, time)
      else do {
        front \<leftarrow> rd (mBufInd b) 0;
        back \<leftarrow> bi_back b;
        if snd front \<ge> byteIndex then Some (if snd front > byteIndex then BUF_OUT_OF_RANGE else BUF_OK, fst front)
        else if snd back \<le> byteIndex then Some (if snd back < byteIndex then BUF_OUT_OF_RANGE else BUF_OK, fst back)
        else do {
          let i = upper_bound (timeSearch byteIndex) (mBufInd b) 0 (length (mBufInd b));
          if i = length (mBufInd b) then Some (BUF_OUT_OF_RANGE, time)
          else do {
            prev \<leftarrow> (if i = 0 then None else rd (mBufInd b) (i - 1));
            cur \<leftarrow> rd (mBufInd b) i;
            gradient \<leftarrow> f_div E (f_of_u64 E (fst cur - fst prev)) (f_of_u64 E (snd cur - snd prev));
            delta \<leftarrow> u64_of_f (fl E (gradient * f_of_u64 E (byteIndex - snd prev)));
            Some (BUF_OK, fst prev + delta)
          }
        }
      })"

definition getIndexSizeInTimeUs :: "BufferIndexer \<Rightarrow> u64 option" where
  "getIndexSizeInTimeUs b =
     (if mBufInd b = [] then Some 0 else do { back \<leftarrow> bi_back b; front \<leftarrow> getFront b; Some (fst back - fst front) })"

definition getIndexSizeInBytes :: "BufferIndexer \<Rightarrow> u64 option" where
  "getIndexSizeInBytes b =
     (if mBufInd b = [] then Some 0 else do { back \<leftarrow> bi_back b; front \<leftarrow> getFront b; Some (snd back - snd front) })"

definition getBufferCapacity :: "BufferIndexer \<Rightarrow> u64" where
  "getBufferCapacity b = mTsbSize b"

definition bi_clear :: "BufferIndexer \<Rightarrow> BufferIndexer" where
  "bi_clear b = b\<lparr>mBufferCount := 0, mBufInd := []\<rparr>"

section \<open>Search, proved\<close>

lemma upper_bound_0: "upper_bound pred xs first 0 = first"
  by (subst upper_bound.simps) simp

lemma upper_bound_left:
  "0 < len \<Longrightarrow> pred (xs ! (first + len div 2)) \<Longrightarrow> upper_bound pred xs first len = upper_bound pred xs first (len div 2)"
  by (subst upper_bound.simps) (simp add: Let_def)

lemma upper_bound_right:
  "0 < len \<Longrightarrow> \<not> pred (xs ! (first + len div 2)) \<Longrightarrow>
     upper_bound pred xs first len = upper_bound pred xs (first + len div 2 + 1) (len - len div 2 - 1)"
  by (subst upper_bound.simps) (simp add: Let_def)

text \<open>On a range whose elements satisfy the predicate from some point on, it finds that point.\<close>

definition splits_at :: "(nat \<Rightarrow> bool) \<Rightarrow> nat \<Rightarrow> nat \<Rightarrow> nat \<Rightarrow> bool" where
  "splits_at P lo hi u \<longleftrightarrow> lo \<le> u \<and> u \<le> hi \<and> (\<forall>k. lo \<le> k \<and> k < u \<longrightarrow> \<not> P k) \<and> (\<forall>k. u \<le> k \<and> k < hi \<longrightarrow> P k)"

lemma splits_at_grow_right:
  "splits_at P lo m u \<Longrightarrow> (\<And>k. m \<le> k \<Longrightarrow> k < hi \<Longrightarrow> P k) \<Longrightarrow> m \<le> hi \<Longrightarrow> splits_at P lo hi u"
  unfolding splits_at_def by (meson le_trans not_less)

lemma splits_at_grow_left:
  "splits_at P m hi u \<Longrightarrow> (\<And>k. lo \<le> k \<Longrightarrow> k < m \<Longrightarrow> \<not> P k) \<Longrightarrow> lo \<le> m \<Longrightarrow> splits_at P lo hi u"
  unfolding splits_at_def by (meson le_trans not_less)

lemma upper_bound_splits:
  "(\<And>i j. first \<le> i \<Longrightarrow> i \<le> j \<Longrightarrow> j < first + len \<Longrightarrow> pred (xs ! i) \<Longrightarrow> pred (xs ! j)) \<Longrightarrow>
     splits_at (\<lambda>k. pred (xs ! k)) first (first + len) (upper_bound pred xs first len)"
proof (induction len arbitrary: first rule: less_induct)
  case (less len)
  let ?m = "first + len div 2" and ?P = "\<lambda>k. pred (xs ! k)"
  show ?case
  proof (cases "len = 0")
    case True
    then show ?thesis by (auto simp: upper_bound_0 splits_at_def)
  next
    case False
    then have h: "len div 2 < len" by simp
    show ?thesis
    proof (cases "?P ?m")
      case True
      have IH: "splits_at ?P first ?m (upper_bound pred xs first (len div 2))"
        by (rule less.IH [OF h]) (use less.prems h in \<open>metis add_less_cancel_left order_less_trans\<close>)
      have "?P k" if "?m \<le> k" "k < first + len" for k by (rule less.prems [OF _ that True]) simp
      moreover have "?m \<le> first + len" using h by (intro add_left_mono) simp
      ultimately have "splits_at ?P first (first + len) (upper_bound pred xs first (len div 2))"
        by (intro splits_at_grow_right [OF IH])
      then show ?thesis using False True by (simp add: upper_bound_left)
    next
      case f: False
      let ?u = "upper_bound pred xs (?m + 1) (len - len div 2 - 1)"
      have e: "?m + 1 + (len - len div 2 - 1) = first + len" using h by simp
      have "splits_at ?P (?m + 1) (?m + 1 + (len - len div 2 - 1)) ?u"
      proof (rule less.IH)
        show "len - len div 2 - 1 < len" using False by simp
        fix i j assume "?m + 1 \<le> i" "i \<le> j" "j < ?m + 1 + (len - len div 2 - 1)" "?P i"
        then show "?P j" using less.prems [of i j] e by linarith
      qed
      then have IH: "splits_at ?P (?m + 1) (first + len) ?u" unfolding e .
      have "\<not> ?P k" if "first \<le> k" "k < ?m + 1" for k using less.prems [of k ?m] that h f by auto
      with IH have "splits_at ?P first (first + len) ?u" by (rule splits_at_grow_left) simp_all
      then show ?thesis using False f by (simp add: upper_bound_right)
    qed
  qed
qed

section \<open>Rounding\<close>

text \<open>
  What the standard for floating-point arithmetic guarantees of rounding to \<open>p\<close> binary digits: it is
  monotone, exact on integers of \<open>p\<close> digits, and has a relative error of at most \<open>2\<^sup>-\<^sup>p\<close> in the normal range.
\<close>

definition normal_range :: "rat \<Rightarrow> bool" where
  "normal_range x \<longleftrightarrow> x = 0 \<or> 1 / 2 ^ 126 \<le> \<bar>x\<bar>"

definition rounds :: "nat \<Rightarrow> (rat \<Rightarrow> rat) \<Rightarrow> bool" where
  "rounds p f \<longleftrightarrow> mono f \<and> (\<forall>n \<le> 2 ^ p. f (of_nat n) = of_nat n) \<and>
     (\<forall>x. normal_range x \<longrightarrow> \<bar>f x - x\<bar> \<le> \<bar>x\<bar> / 2 ^ p)"

definition bi_env_ok :: "bi_env \<Rightarrow> bool" where
  "bi_env_ok E \<longleftrightarrow> circ_ok (index_ring E) \<and> rounds 24 (fl E) \<and> rounds 53 (dbl E)"

lemma rounds_coarse: "rounds p f \<Longrightarrow> 4 \<le> p \<Longrightarrow> normal_range x \<Longrightarrow> \<bar>f x - x\<bar> \<le> \<bar>x\<bar> / 16"
proof -
  assume r: "rounds p f" "normal_range x" and p: "4 \<le> p"
  have "(2 :: rat) ^ 4 \<le> 2 ^ p" using p by (rule power_increasing) simp
  then have "\<bar>x\<bar> / 2 ^ p \<le> \<bar>x\<bar> / 16" by (intro divide_left_mono) simp_all
  moreover have "\<bar>f x - x\<bar> \<le> \<bar>x\<bar> / 2 ^ p" using r by (simp add: rounds_def)
  ultimately show ?thesis by linarith
qed

lemma rounds_nat: "rounds p f \<Longrightarrow> n \<le> 2 ^ p \<Longrightarrow> f (of_nat n) = of_nat n"
  by (simp add: rounds_def)

lemma rounds_mono: "rounds p f \<Longrightarrow> x \<le> y \<Longrightarrow> f x \<le> f y"
  by (simp add: rounds_def mono_def)

lemma rounds_0: "rounds p f \<Longrightarrow> f 0 = 0"
  using rounds_nat [of p f 0] by simp

lemma rounds_sign: "rounds p f \<Longrightarrow> x \<le> 0 \<Longrightarrow> f x \<le> 0" "rounds p f \<Longrightarrow> 0 \<le> x \<Longrightarrow> 0 \<le> f x"
  using rounds_mono [of p f x 0] rounds_mono [of p f 0 x] rounds_0 [of p f] by simp_all

text \<open>The interpolation term is between -3/2 and 0 when the numerator is at most the denominator.\<close>

lemma interpolation_term:
  assumes E: "rounds 24 (fl E)" "rounds 53 (dbl E)" and x: "1 \<le> (x :: rat)" "x \<le> D" and D: "D \<le> 2 ^ 64"
  shows "- (3/2) \<le> fl E (fl E (dbl E (1 / - D)) * fl E x) \<and> fl E (fl E (dbl E (1 / - D)) * fl E x) \<le> 0"
proof -
  define u where "u = 1 / D"
  have pos: "0 < D" "0 < u" "u * D = 1" using x by (simp_all add: u_def)
  have u: "1 / 2 ^ 64 \<le> u" unfolding u_def using D pos(1) by (intro divide_left_mono) simp_all
  define G where "G = dbl E (- u)"
  define g where "g = fl E G"
  define X where "X = fl E x"
  have n: "normal_range y" if "u / 2 \<le> \<bar>y\<bar>" for y
  proof -
    have "(1 :: rat) / 2 ^ 126 \<le> 1 / 2 ^ 64 / 2" by simp
    also have "\<dots> \<le> u / 2" using u by (rule divide_right_mono) simp
    also have "\<dots> \<le> \<bar>y\<bar>" by fact
    finally show ?thesis unfolding normal_range_def ..
  qed
  have "normal_range (- u)" using pos by (intro n) simp
  from rounds_coarse [OF E(2) _ this] have G: "15/16 * u \<le> - G" "- G \<le> 17/16 * u" unfolding G_def using pos by (auto simp: abs_if split: if_splits)
  then have "normal_range G" using pos by (intro n) (simp add: abs_if)
  from rounds_coarse [OF E(1) _ this] have g: "15/16 * - G \<le> - g" "- g \<le> 17/16 * - G" unfolding g_def using G pos by (auto simp: abs_if split: if_splits)
  have "u \<le> 1" unfolding u_def using x by simp
  then have "normal_range x" using x(1) by (intro n) (simp add: abs_if)
  from rounds_coarse [OF E(1) _ this] have X: "15/16 * x \<le> X" "X \<le> 17/16 * x" unfolding X_def using x(1) by (auto simp: abs_if split: if_splits)
  have gp: "0 \<le> - g" "15/16 * (15/16 * u) \<le> - g" "- g \<le> 17/16 * (17/16 * u)" using g G pos by linarith+
  have Xp: "15/16 \<le> X" "X \<le> 17/16 * D" using X x by linarith+
  have lo: "15/16 * (15/16 * u) * (15/16) \<le> - g * X" by (rule mult_mono) (use gp Xp pos in simp_all)
  have "- g * X \<le> 17/16 * (17/16 * u) * (17/16 * D)" by (rule mult_mono) (use gp Xp pos in simp_all)
  also have "\<dots> = 17/16 * (17/16) * (17/16)" using pos(3) by (simp add: mult.assoc mult.left_commute)
  finally have hi: "- g * X \<le> 17/16 * (17/16) * (17/16)" .
  have "normal_range (g * X)" using lo pos by (intro n) (simp add: abs_if)
  from rounds_coarse [OF E(1) _ this] have "\<bar>fl E (g * X) - g * X\<bar> \<le> \<bar>g * X\<bar> / 16" by simp
  moreover have "g * X \<le> 0" "- (g * X) \<le> 17/16 * (17/16) * (17/16)" using lo hi pos by simp_all
  ultimately have "- (3/2) \<le> fl E (g * X)" by linarith
  moreover have "fl E (g * X) \<le> 0" by (rule rounds_sign [OF E(1)]) fact
  ultimately show ?thesis unfolding g_def G_def X_def u_def by simp
qed

lemma u64_of_f_range:
  assumes "-1 < x" and "x < of_nat n + 1" and "n < 2 ^ 64" and "of_nat m \<le> x \<or> m = 0"
  shows "\<exists>w. u64_of_f x = Some w \<and> m \<le> unat w \<and> unat w \<le> n"
proof (cases "x < 0")
  case True
  then have "m = 0" using assms(4) by (metis not_less of_nat_0_le_iff order_trans)
  with True show ?thesis using assms(1) by (simp add: u64_of_f_def)
next
  case False
  have f: "0 \<le> \<lfloor>x\<rfloor>" "\<lfloor>x\<rfloor> \<le> int n" "int m \<le> \<lfloor>x\<rfloor>"
    using False assms(2, 4) by (auto simp: le_floor_iff floor_le_iff)
  have "(of_nat (n + 1) :: rat) \<le> of_nat (2 ^ 64)" using assms(3) by (intro of_nat_mono) simp
  then have "x < 2 ^ 64" using assms(2) by simp
  moreover have "unat (word_of_int \<lfloor>x\<rfloor> :: u64) = nat \<lfloor>x\<rfloor>"
  proof -
    have "nat \<lfloor>x\<rfloor> < 2 ^ 64" using f(1, 2) assms(3) by linarith
    then have "unat (word_of_nat (nat \<lfloor>x\<rfloor>) :: u64) = nat \<lfloor>x\<rfloor>" by (intro unat_of_nat_small) simp
    then show ?thesis using f(1) by simp
  qed
  ultimately show ?thesis using False f by (simp add: u64_of_f_def le_nat_iff nat_le_iff)
qed

text \<open>The index that the interpolation computes from the position \<open>i\<close> of the upper bound.\<close>

lemma interpolated_index:
  assumes E: "rounds 24 (fl E)" "rounds 53 (dbl E)" and x: "1 \<le> (x :: rat)" "x \<le> D" "D \<le> 2 ^ 64"
    and i: "0 < i" "i \<le> 2 ^ 24"
  shows "\<exists>w. u64_of_f (fl E (fl E (of_nat i) + fl E (fl E (dbl E (1 / - D)) * fl E x))) = Some w \<and>
           i - 2 \<le> unat w \<and> unat w \<le> i"
proof -
  let ?P = "fl E (fl E (dbl E (1 / - D)) * fl E x)"
  let ?S = "fl E (fl E (of_nat i) + ?P)"
  note P = interpolation_term [OF E x]
  have fi: "fl E (of_nat i) = of_nat i" using rounds_nat [OF E(1) i(2)] .
  have "?S \<le> fl E (of_nat i)" using P fi by (intro rounds_mono [OF E(1)]) simp
  then have hi: "?S \<le> of_nat i" unfolding fi .
  have lo: "-1 < ?S \<and> (of_nat (i - 2) \<le> ?S \<or> i - 2 = 0)"
  proof (cases "2 \<le> i")
    case True
    have "fl E (of_nat (i - 2)) \<le> ?S" using P fi True by (intro rounds_mono [OF E(1)]) (simp add: of_nat_diff)
    then have "of_nat (i - 2) \<le> ?S" using rounds_nat [OF E(1), of "i - 2"] i(2) by simp
    then show ?thesis by (metis (no_types, opaque_lifting) less_le_trans neg_less_0_iff_less of_nat_0_le_iff zero_less_one)
  next
    case False
    then have "i = 1" using i(1) by simp
    then have "fl E (- (1/2)) \<le> ?S" using P fi by (intro rounds_mono [OF E(1)]) simp
    moreover have "\<bar>fl E (- (1/2)) - - (1/2)\<bar> \<le> \<bar>- (1/2)\<bar> / 16"
      by (rule rounds_coarse [OF E(1)]) (simp_all add: normal_range_def)
    then have "- (17/32) \<le> fl E (- (1/2))" by (simp add: abs_if split: if_splits)
    ultimately show ?thesis using \<open>i = 1\<close> by simp
  qed
  show ?thesis by (rule u64_of_f_range) (use lo hi i in auto)
qed

section \<open>Invariant\<close>

text \<open>
  An indexer is in use when its constructor has cut a nonempty window out of at most \<open>2\<^sup>2\<^sup>4\<close> entries (the
  integers that a \<open>float\<close> represents); entries are registered with a clock that does not go back and a
  byte count that does not decrease; queries and \<open>clear\<close> may come at any time.
\<close>

definition bi_init :: "BufferIndexer \<Rightarrow> bool" where
  "bi_init b \<longleftrightarrow> (\<exists>tsbSize tailSize ratio. BufferIndexer_new tsbSize tailSize ratio = Some b \<and> 0 < bi_capacity b \<and>
     bi_capacity b \<le> 2 ^ 24 \<and> 0 < mTsbSize b)"

inductive bi_step :: "bi_env \<Rightarrow> BufferIndexer \<Rightarrow> BufferIndexer \<Rightarrow> bool" for E where
  bi_register: "bi_env_ok E \<Longrightarrow> \<forall>p \<in> set (mBufInd b). fst p \<le> t \<and> snd p \<le> n \<Longrightarrow> unat t < 2 ^ 63 \<Longrightarrow>
     unat n < 2 ^ 63 \<Longrightarrow> bi_step E b (snd (registerBufferCount E t n b))"
| bi_byte_offset: "getByteOffsetFromTimeUs E time byteOffset b = Some (r, byteOffset', b') \<Longrightarrow> bi_step E b b'"
| bi_time_us: "getTimeUsFromByteOffset E byteOffset time b = Some (r, time', b') \<Longrightarrow> bi_step E b b'"
| bi_cleared: "bi_step E b (bi_clear b)"

definition bi_ok :: "BufferIndexer \<Rightarrow> bool" where
  "bi_ok b \<longleftrightarrow> sorted (map fst (mBufInd b)) \<and> sorted (map snd (mBufInd b)) \<and>
     (\<forall>p \<in> set (mBufInd b). unat (fst p) < 2 ^ 63 \<and> unat (snd p) < 2 ^ 63) \<and>
     length (mBufInd b) \<le> bi_capacity b \<and> 0 < bi_capacity b \<and> bi_capacity b \<le> 2 ^ 24 \<and> 0 < mTsbSize b"

lemma bi_ok_cong:
  "mBufInd c = mBufInd b \<Longrightarrow> bi_capacity c = bi_capacity b \<Longrightarrow> mTsbSize c = mTsbSize b \<Longrightarrow> bi_ok b \<Longrightarrow> bi_ok c"
  by (simp add: bi_ok_def)

lemma bi_register_keeps:
  assumes E: "bi_env_ok E" and b: "bi_ok b" and p: "\<forall>p \<in> set (mBufInd b). fst p \<le> t \<and> snd p \<le> n" 
    and t: "unat t < 2 ^ 63" "unat n < 2 ^ 63"
  shows "bi_ok (snd (registerBufferCount E t n b))"
proof -
  have C: "circ_ok (index_ring E)" using E by (simp add: bi_env_ok_def)
  have "bi_ok (b\<lparr>mBufferCount := m, mBufInd := circ_push_back (index_ring E) (bi_capacity b) (mBufInd b) (t, n)\<rparr>)" for m
  proof (cases "length (mBufInd b) < bi_capacity b")
    case True
    then show ?thesis using b p t C by (auto simp: bi_ok_def sorted_append)
  next
    case False
    with b obtain y ys where "mBufInd b = y # ys" "bi_capacity b = Suc (length ys)"
      by (cases "mBufInd b") (auto simp: bi_ok_def)
    then show ?thesis using b p t circ_push_full [OF C, of ys y] by (auto simp: bi_ok_def sorted_append)
  qed
  moreover have "bi_ok (b\<lparr>mBufferCount := m\<rparr>)" for m using b by (simp add: bi_ok_def)
  ultimately show ?thesis by (simp add: registerBufferCount_def Let_def)
qed

lemma bi_queries_keep:
  "getByteOffsetFromTimeUs E time byteOffset b = Some (r, byteOffset', b') \<Longrightarrow> bi_ok b \<Longrightarrow> bi_ok b'"
  "getTimeUsFromByteOffset E byteOffset time b = Some (r, time', b') \<Longrightarrow> bi_ok b \<Longrightarrow> bi_ok b'"
  unfolding getByteOffsetFromTimeUs_def getTimeUsFromByteOffset_def Let_def
  by (auto split: if_splits Option.bind_splits elim!: bi_ok_cong [rotated -1])

lemma bi_clear_keeps: "bi_ok b \<Longrightarrow> bi_ok (bi_clear b)"
  by (simp add: bi_ok_def bi_clear_def)

interpretation bi_run: inductive_invariant bi_init "bi_step E" bi_ok for E
proof unfold_locales
  show "bi_ok s" if "bi_init s" for s
    using that by (auto simp: bi_init_def bi_ok_def BufferIndexer_new_def split: if_splits)
  show "bi_ok t" if "bi_ok s" "bi_step E s t" for s t
    using that(2, 1) by cases (blast intro: bi_register_keeps bi_queries_keep bi_clear_keeps)+
qed

section \<open>Queries, proved\<close>

lemma upper_bound_sorted:
  fixes f :: "'a \<Rightarrow> 'b :: linorder"
  assumes "sorted (map f xs)" and "F < length xs"
  shows "splits_at (\<lambda>k. target < f (xs ! k)) F (length xs) (upper_bound (\<lambda>p. target < f p) xs F (length xs - F))"
proof -
  have "f (xs ! i) \<le> f (xs ! j)" if "i \<le> j" "j < length xs" for i j
    using sorted_nth_mono [OF assms(1), of i j] that by simp
  then show ?thesis using upper_bound_splits [of F "length xs - F" "\<lambda>p. target < f p" xs] assms(2)
    by (simp add: order_less_le_trans)
qed

lemma bi_window:
  assumes "bi_ok b" and "mBufInd b \<noteq> []"
  shows "getFrontIndex b < length (mBufInd b)" and "getFront b = Some (mBufInd b ! getFrontIndex b)"
    and "bi_back b = Some (mBufInd b ! (length (mBufInd b) - 1))"
proof -
  have "0 < unat (mTsbSize b)" using assms(1) by (simp add: bi_ok_def word_greater_zero_iff unat_gt_0)
  then have "0 < getIndexSize b" using assms(2) by (simp add: getIndexSize_def Let_def)
  then show "getFrontIndex b < length (mBufInd b)" using assms(2) by (simp add: getFrontIndex_def)
  then show "getFront b = Some (mBufInd b ! getFrontIndex b)" by (simp add: getFront_def getFrontIndex_def)
  show "bi_back b = Some (mBufInd b ! (length (mBufInd b) - 1))" using assms(2) by (simp add: bi_back_def)
qed

lemma time_target:
  fixes front bk time :: u64
  assumes "unat front < 2 ^ 63" and "unat bk < 2 ^ 63" and "front + time \<le> bk"
  shows "front \<le> bk - time \<or> bk < bk - time"
proof (cases "time \<le> bk")
  case True
  then have t: "unat time \<le> unat bk" by (simp add: word_le_nat_alt)
  then have "unat (front + time) = unat front + unat time" using assms(1, 2) by (subst unat_plus_simple [symmetric]) (simp add: no_olen_add_nat)
  moreover have "unat (bk - time) = unat bk - unat time" using True by (rule unat_sub)
  ultimately have "front \<le> bk - time" using assms(3) t by (simp add: word_le_nat_alt)
  then show ?thesis ..
next
  case False
  then have "uint bk < uint time" by (simp add: word_less_alt not_le)
  moreover have "uint time < 2 ^ 64" using uint_lt2p [of time] by simp
  moreover have "0 \<le> uint bk" by simp
  ultimately have "(uint bk - uint time + 2 ^ 64) mod 2 ^ 64 = uint bk - uint time + 2 ^ 64" by (intro mod_pos_pos_trivial) linarith+
  then have "uint (bk - time) = uint bk - uint time + 2 ^ 64" by (simp add: uint_word_ariths mod_add_self2)
  then have "bk < bk - time" using \<open>uint time < 2 ^ 64\<close> unfolding word_less_alt by linarith
  then show ?thesis ..
qed

lemma sint_minus_small:
  fixes a c :: u64
  assumes "a < c" and "unat c < 2 ^ 63"
  shows "sint (a - c) = - int (unat c - unat a)"
proof -
  have l: "unat a < unat c" using assms(1) by (simp add: word_less_nat_alt)
  then have "a - c = word_of_int (- int (unat c - unat a))" by (simp add: of_nat_diff)
  moreover have "signed_take_bit 63 (- int (unat c - unat a)) = - int (unat c - unat a)"
    using assms(2) by (intro signed_take_bit_int_eq_self) simp_all
  moreover have "sint (word_of_int k :: u64) = signed_take_bit 63 k" for k using sint_sbintrunc' [where 'a = 64, of k] by simp
  ultimately show ?thesis by (simp only:)
qed

lemma bi_bounds:
  assumes "bi_ok b" and "i < length (mBufInd b)"
  shows "unat (fst (mBufInd b ! i)) < 2 ^ 63" and "unat (snd (mBufInd b ! i)) < 2 ^ 63"
  using assms by (auto simp: bi_ok_def)

lemma bi_sorted:
  assumes "bi_ok b" and "i \<le> j" and "j < length (mBufInd b)"
  shows "fst (mBufInd b ! i) \<le> fst (mBufInd b ! j)" and "snd (mBufInd b ! i) \<le> snd (mBufInd b ! j)"
  using assms sorted_nth_mono [of "map fst (mBufInd b)" i j] sorted_nth_mono [of "map snd (mBufInd b)" i j]
  by (auto simp: bi_ok_def)

text \<open>Where the search stops, for a target taken back from the newest entry.\<close>

lemma search_stops:
  fixes f :: "index_pair \<Rightarrow> u64"
  assumes "sorted (map f xs)" and "F < length xs" and "\<And>k. k < length xs \<Longrightarrow> unat (f (xs ! k)) < 2 ^ 63"
    and "\<not> f (xs ! (length xs - 1)) < f (xs ! F) + d" and "u = upper_bound (\<lambda>p. f (xs ! (length xs - 1)) - d < f p) xs F (length xs - F)"
    and "u \<noteq> length xs"
  shows "F < u" and "u < length xs" and "f (xs ! (u - 1)) \<le> f (xs ! (length xs - 1)) - d"
    and "f (xs ! (length xs - 1)) - d < f (xs ! u)"
proof -
  let ?l = "length xs - 1" and ?t = "f (xs ! (length xs - 1)) - d"
  have u: "splits_at (\<lambda>k. ?t < f (xs ! k)) F (length xs) u" unfolding assms(5) by (rule upper_bound_sorted [OF assms(1, 2)])
  then show r: "u < length xs" and c: "?t < f (xs ! u)" using assms(6) by (auto simp: splits_at_def)
  have l: "?l < length xs" using assms(2) by simp
  have "f (xs ! F) \<le> ?t \<or> f (xs ! ?l) < ?t"
    by (rule time_target) (use assms(3) [OF assms(2)] assms(3) [OF l] assms(4) in \<open>simp_all add: not_less\<close>)
  moreover have "f (xs ! u) \<le> f (xs ! ?l)" using sorted_nth_mono [OF assms(1), of u ?l] r by simp
  ultimately have "f (xs ! F) \<le> ?t" using c by (meson less_asym order_less_le_trans)
  then have "u \<noteq> F" using c by (auto simp: not_less)
  then show s: "F < u" using u by (simp add: splits_at_def)
  then have "F \<le> u - 1" "u - 1 < u" by simp_all
  then have "\<not> ?t < f (xs ! (u - 1))" using u unfolding splits_at_def by blast
  then show "f (xs ! (u - 1)) \<le> ?t" by simp
qed

lemma offset_interpolates:
  assumes E: "bi_env_ok E" and b: "bi_ok b" and u: "0 < u" "u < length (mBufInd b)"
    and lo: "fst (mBufInd b ! (u - 1)) \<le> bk - time" and hi: "bk - time < fst (mBufInd b ! u)"
  shows "\<exists>w. u64_of_f (fl E (f_of_u64 E (word_of_nat u) + fl E (fl E (dbl E (1 / of_int (sint (fst (mBufInd b ! (u - 1)) - fst (mBufInd b ! u))))) *
            f_of_u64 E (time - (bk - fst (mBufInd b ! u)))))) = Some w \<and> u - 2 \<le> unat w \<and> unat w \<le> u"
    and "sint (fst (mBufInd b ! (u - 1)) - fst (mBufInd b ! u)) \<noteq> 0"
proof -
  let ?p = "fst (mBufInd b ! (u - 1))" and ?c = "fst (mBufInd b ! u)" and ?x = "time - (bk - fst (mBufInd b ! u))"
  have e: "rounds 24 (fl E)" "rounds 53 (dbl E)" using E by (simp_all add: bi_env_ok_def)
  have c: "unat ?c < 2 ^ 63" using bi_bounds [OF b u(2)] by simp
  have s: "sint (?p - ?c) = - int (unat ?c - unat ?p)" by (rule sint_minus_small) (use lo hi c in simp_all)
  have l: "unat ?p \<le> unat (bk - time)" "unat (bk - time) < unat ?c" using lo hi by (simp_all add: word_le_nat_alt word_less_nat_alt)
  have "?x = ?c - (bk - time)" by simp
  then have x: "unat ?x = unat ?c - unat (bk - time)" using hi by (metis less_imp_le unat_sub)
  have n: "u \<le> 2 ^ 24" "unat (word_of_nat u :: u64) = u" using b u(2) unat_of_nat_small [where 'a = 64, of u] by (auto simp: bi_ok_def)
  have D: "(of_nat (unat ?c - unat ?p) :: rat) \<le> 2 ^ 64"
  proof -
    have "unat ?c - unat ?p \<le> 2 ^ 64" using c by simp
    then have "(of_nat (unat ?c - unat ?p) :: rat) \<le> of_nat (2 ^ 64)" by (rule of_nat_mono)
    then show ?thesis by simp
  qed
  have "1 \<le> unat ?x" using l(2) unfolding x by simp
  then have "1 \<le> (of_nat (unat ?x) :: rat)" using of_nat_mono [of 1 "unat ?x"] by simp
  moreover have "(of_nat (unat ?x) :: rat) \<le> of_nat (unat ?c - unat ?p)" using l unfolding x by (intro of_nat_mono) linarith
  ultimately have "\<exists>w. u64_of_f (fl E (fl E (of_nat u) + fl E (fl E (dbl E (1 / - of_nat (unat ?c - unat ?p))) * fl E (of_nat (unat ?x))))) = Some w \<and>
      u - 2 \<le> unat w \<and> unat w \<le> u"
    using interpolated_index [OF e _ _ D u(1) n(1)] by blast
  then show "\<exists>w. u64_of_f (fl E (f_of_u64 E (word_of_nat u) + fl E (fl E (dbl E (1 / of_int (sint (?p - ?c)))) * f_of_u64 E ?x))) = Some w \<and>
      u - 2 \<le> unat w \<and> unat w \<le> u"
    unfolding s f_of_u64_def n(2) by simp
  show "sint (?p - ?c) \<noteq> 0" unfolding s using l by linarith
qed

text \<open>The relative error of one rounding, for a value that is zero or at least a power of a half.\<close>

lemma rounds_up:
  assumes "rounds 24 f" and "y = 0 \<or> 1 / 2 ^ k \<le> y" and "k < 126"
  shows "f y \<le> (1 + 1 / 2 ^ 24) * y" and "f y = 0 \<and> y = 0 \<or> 1 / 2 ^ Suc k \<le> f y" and "(1 - 1 / 2 ^ 24) * y \<le> f y"
proof -
  have "(1 :: rat) / 2 ^ 126 \<le> 1 / 2 ^ k" using assms(3) by (intro divide_left_mono power_increasing) simp_all
  moreover have z: "y = 0 \<or> 0 < y" using assms(2) by (metis less_le_trans zero_less_divide_1_iff zero_less_numeral zero_less_power)
  ultimately have "normal_range y" using assms(2) unfolding normal_range_def by (metis abs_of_pos order_trans)
  with assms(1) have e: "\<bar>f y - y\<bar> \<le> \<bar>y\<bar> / 2 ^ 24" by (simp add: rounds_def)
  then have d: "\<bar>f y - y\<bar> \<le> y / 2 ^ 24" using z by auto
  show "f y \<le> (1 + 1 / 2 ^ 24) * y" and l: "(1 - 1 / 2 ^ 24) * y \<le> f y"
    using abs_le_D1 [OF d] abs_le_D2 [OF d] by (simp_all add: algebra_simps)
  show "f y = 0 \<and> y = 0 \<or> 1 / 2 ^ Suc k \<le> f y"
  proof (cases "y = 0")
    case True
    then show ?thesis using e by simp
  next
    case False
    then have "1 / 2 ^ k \<le> y" using assms(2) by simp
    then have "1 / 2 * (1 / 2 ^ k) \<le> 1 / 2 * y" by (intro mult_left_mono) simp_all
    moreover have "1 / 2 * y \<le> (1 - 1 / 2 ^ 24) * y" using z by (intro mult_right_mono) auto
    ultimately show ?thesis using l by simp
  qed
qed

lemma time_interpolates:
  assumes E: "rounds 24 (fl E)" and "x \<le> db" and "0 < db" and "db < 2 ^ 63" and "dt < 2 ^ 63"
  shows "\<exists>g w. f_div E (fl E (of_nat dt)) (fl E (of_nat db)) = Some g \<and> u64_of_f (fl E (g * fl E (of_nat x))) = Some w \<and>
    unat w \<le> dt + dt div 2 ^ 21"
proof -
  define X T B :: rat where "X = of_nat x" and "T = of_nat dt" and "B = of_nat db"
  define e :: rat where "e = 1 / 2 ^ 24"
  define q where "q = fl E T / fl E B"
  define g where "g = fl E q"
  define p where "p = g * fl E X"
  have N: "(of_nat k :: rat) = 0 \<or> 1 / 2 ^ 0 \<le> (of_nat k :: rat)" for k by (cases k) simp_all
  note rX = rounds_up [OF E N [of x], folded X_def e_def, simplified] and rT = rounds_up [OF E N [of dt], folded T_def e_def, simplified]
    and rB = rounds_up [OF E N [of db], folded B_def e_def, simplified]
  have pos: "0 \<le> X" "0 \<le> T" "1 \<le> B" "X \<le> B" "T \<le> 2 ^ 63" "B \<le> 2 ^ 63"
    using assms(2 - 5) of_nat_mono [of dt "2 ^ 63", where 'a = rat] of_nat_mono [of db "2 ^ 63", where 'a = rat] by (simp_all add: X_def T_def B_def)
  have Bp: "1 / 2 \<le> fl E B" "fl E B \<le> 2 ^ 64" using rB pos by (auto simp: e_def)
  have q: "q = 0 \<or> 1 / 2 ^ 65 \<le> q"
  proof (cases "fl E T = 0")
    case False
    then have "1 / 2 \<le> fl E T" using rT by auto
    then have "1 / 2 / 2 ^ 64 \<le> q" unfolding q_def using Bp by (intro frac_le) simp_all
    then show ?thesis by simp
  qed (simp add: q_def)
  note rq = rounds_up [OF E q, folded g_def e_def, simplified]
  then have gp: "0 \<le> g" "g = 0 \<or> 1 / 2 ^ 66 \<le> g" by auto
  have Xp: "0 \<le> fl E X" "fl E X = 0 \<or> 1 / 2 \<le> fl E X" using rX pos by auto
  have p: "p = 0 \<or> 1 / 2 ^ 67 \<le> p"
  proof (cases "g = 0 \<or> fl E X = 0")
    case False
    then have "1 / 2 ^ 66 * (1 / 2) \<le> p" unfolding p_def using gp Xp by (intro mult_mono) auto
    then show ?thesis by simp
  qed (auto simp: p_def)
  have "fl E p \<le> (1 + e) * p" using rounds_up(1) [OF E p] by (simp add: e_def)
  also have "\<dots> \<le> (1 + e) * ((1 + e) * ((1 + e) * T / ((1 - e) * B)) * ((1 + e) * X))"
  proof -
    have "q \<le> (1 + e) * T / ((1 - e) * B)" unfolding q_def using rT rB pos by (intro frac_le) (auto simp: e_def)
    then have "g \<le> (1 + e) * ((1 + e) * T / ((1 - e) * B))" using rq(1) by (auto simp: e_def intro: order_trans mult_left_mono)
    then have "p \<le> (1 + e) * ((1 + e) * T / ((1 - e) * B)) * ((1 + e) * X)" unfolding p_def using rX gp Xp
      by (intro mult_mono) (auto simp: e_def)
    then show ?thesis by (intro mult_left_mono) (simp_all add: e_def)
  qed
  also have "\<dots> = (1 + e) ^ 4 / (1 - e) * T * (X / B)" using pos by (simp add: field_simps power4_eq_xxxx)
  also have "\<dots> \<le> (1 + e) ^ 4 / (1 - e) * T * 1" using pos by (intro mult_left_mono) (simp_all add: e_def)
  also have "\<dots> \<le> (1 + 1 / 2 ^ 21) * T * 1" using pos by (intro mult_right_mono) (simp_all add: e_def power4_eq_xxxx)
  finally have up: "fl E p \<le> T + T / 2 ^ 21" by (simp add: algebra_simps)
  have fdiv: "f_div E (fl E (of_nat dt)) (fl E (of_nat db)) = Some g"
    using Bp by (simp add: f_div_def g_def q_def T_def B_def)
  let ?n = "dt + dt div 2 ^ 21"
  have "\<exists>w. u64_of_f (fl E p) = Some w \<and> 0 \<le> unat w \<and> unat w \<le> ?n"
  proof (rule u64_of_f_range)
    have "0 \<le> p" using gp Xp by (simp add: p_def)
    then show "-1 < fl E p" using rounds_sign(2) [OF E, of p] by linarith
    have "dt < (dt div 2 ^ 21 + 1) * 2 ^ 21" by (metis add.commute dividend_less_div_times mult.commute mult_Suc plus_1_eq_Suc zero_less_numeral zero_less_power)
    then have "(of_nat dt :: rat) < of_nat ((dt div 2 ^ 21 + 1) * 2 ^ 21)" by (simp only: of_nat_less_iff)
    then have "T / 2 ^ 21 < of_nat (dt div 2 ^ 21) + 1" by (simp add: T_def field_simps)
    then show "fl E p < of_nat ?n + 1" using up by (simp add: T_def)
    have "dt div 2 ^ 21 \<le> dt" by (rule div_le_dividend)
    moreover have "dt + k < 2 ^ 64" if "k \<le> dt" for k using assms(5) that by simp
    ultimately show "?n < 2 ^ 64" by blast
  qed simp
  then show ?thesis using fdiv by (auto simp: p_def X_def)
qed

text \<open>The interpolating branch.\<close>

lemma getByteOffsetFromTimeUs_hit:
  assumes "mBufInd b \<noteq> []" and "time \<noteq> fst (mLastByteOffsetFromTimeUs b)" and "time \<noteq> 0"
    and "getFront b = Some front" and "bi_back b = Some newest" and "\<not> fst newest < fst front + time"
    and "upper_bound (byteOffsetSearch (fst newest - time)) (mBufInd b) (getFrontIndex b) (length (mBufInd b) - getFrontIndex b) = u"
    and "u \<noteq> length (mBufInd b)" and "u \<noteq> 0" and "rd (mBufInd b) (u - 1) = Some prev" and "rd (mBufInd b) u = Some cur"
    and "sint (fst prev - fst cur) \<noteq> 0"
    and "u64_of_f (fl E (f_of_u64 E (word_of_nat u) + fl E (fl E (dbl E (1 / of_int (sint (fst prev - fst cur)))) *
           f_of_u64 E (time - (fst newest - fst cur))))) = Some w"
    and "rd (mBufInd b) (unat w) = Some sample"
  shows "getByteOffsetFromTimeUs E time byteOffset b =
    Some (BUF_OK, snd newest - snd sample, b\<lparr>mLastByteOffsetFromTimeUs := (time, snd newest - snd sample)\<rparr>)"
  unfolding getByteOffsetFromTimeUs_def Let_def by (simp only: assms if_False simp_thms bind.bind_lunit)

lemma byte_offset_ok:
  assumes "bi_env_ok E" and ok: "bi_ok b"
  shows "\<exists>r off b'. getByteOffsetFromTimeUs E time byteOffset b = Some (r, off, b') \<and>
    (r = BUF_OK \<and> time \<noteq> fst (mLastByteOffsetFromTimeUs b) \<and> time \<noteq> 0 \<longrightarrow>
      (\<exists>i k. 0 < i \<and> i < length (mBufInd b) \<and> i - 2 \<le> k \<and> k \<le> i \<and>
         fst (mBufInd b ! (i - 1)) \<le> fst (last (mBufInd b)) - time \<and> fst (last (mBufInd b)) - time < fst (mBufInd b ! i) \<and>
         off = snd (last (mBufInd b)) - snd (mBufInd b ! k)))"
proof (cases "mBufInd b = [] \<or> time = fst (mLastByteOffsetFromTimeUs b) \<or> time = 0")
  case True
  then show ?thesis by (auto simp: getByteOffsetFromTimeUs_def)
next
  case False
  let ?n = "length (mBufInd b)" and ?F = "getFrontIndex b"
  let ?bk = "mBufInd b ! (length (mBufInd b) - 1)"
  let ?u = "upper_bound (\<lambda>p. fst ?bk - time < fst p) (mBufInd b) ?F (?n - ?F)"
  have ne: "mBufInd b \<noteq> []" using False by simp
  note w = bi_window [OF ok ne]
  have q: "byteOffsetSearch t = (\<lambda>p. t < fst p)" for t by (simp add: byteOffsetSearch_def fun_eq_iff)
  note g = getByteOffsetFromTimeUs_def [of E time byteOffset b] w(2, 3) q
  show ?thesis
  proof (cases "fst ?bk < fst (mBufInd b ! ?F) + time \<or> ?u = ?n")
    case True
    then obtain off b' where "getByteOffsetFromTimeUs E time byteOffset b = Some (BUF_OUT_OF_RANGE, off, b')"
      using False by (cases "fst ?bk < fst (mBufInd b ! ?F) + time") (simp_all add: g Let_def)
    then show ?thesis by simp
  next
    case f: False
    have s: "sorted (map fst (mBufInd b))" using ok by (simp add: bi_ok_def)
    have u: "?F < ?u" "?u < ?n" "fst (mBufInd b ! (?u - 1)) \<le> fst ?bk - time" "fst ?bk - time < fst (mBufInd b ! ?u)"
      using search_stops [OF s w(1) bi_bounds(1) [OF ok], of time ?u] f by blast+
    have "0 < ?u" using u(1) by simp
    from offset_interpolates [OF assms(1) ok this u(2, 3, 4)] obtain w' where
      w': "u64_of_f (fl E (f_of_u64 E (word_of_nat ?u) + fl E (fl E (dbl E (1 / of_int (sint (fst (mBufInd b ! (?u - 1)) - fst (mBufInd b ! ?u))))) *
            f_of_u64 E (time - (fst ?bk - fst (mBufInd b ! ?u)))))) = Some w'" "?u - 2 \<le> unat w'" "unat w' \<le> ?u"
      and nz: "sint (fst (mBufInd b ! (?u - 1)) - fst (mBufInd b ! ?u)) \<noteq> 0" by blast
    have i: "unat w' < ?n" "?u - 1 < ?n" using u(2) w'(3) by simp_all
    have G: "getByteOffsetFromTimeUs E time byteOffset b =
        Some (BUF_OK, snd ?bk - snd (mBufInd b ! unat w'), b\<lparr>mLastByteOffsetFromTimeUs := (time, snd ?bk - snd (mBufInd b ! unat w'))\<rparr>)"
      by (rule getByteOffsetFromTimeUs_hit [where u = ?u and sample = "mBufInd b ! unat w'", OF _ _ _ w(2, 3) _ _ _ _ _ _ nz w'(1)])
        (use False f u(2) \<open>0 < ?u\<close> i in \<open>simp_all add: q\<close>)
    have l: "last (mBufInd b) = ?bk" using ne by (simp add: last_conv_nth)
    have R: "\<exists>i k. 0 < i \<and> i < ?n \<and> i - 2 \<le> k \<and> k \<le> i \<and> fst (mBufInd b ! (i - 1)) \<le> fst (last (mBufInd b)) - time \<and>
        fst (last (mBufInd b)) - time < fst (mBufInd b ! i) \<and> snd ?bk - snd (mBufInd b ! unat w') = snd (last (mBufInd b)) - snd (mBufInd b ! k)"
      unfolding l by (intro exI conjI) (rule \<open>0 < ?u\<close> u(2) w'(2, 3) u(3, 4) refl)+
    show ?thesis by (rule exI, rule exI, rule exI, rule conjI, rule G, rule impI, rule R)
  qed
qed

text \<open>
  C14: While entries are registered with a clock and a byte count that do not go back, asking for the byte
  offset of a time never leaves the index or divides by zero. An answer that is not remembered is the byte
  distance from the newest entry to one of the three entries around the point where the searched time lies.
\<close>

theorem byte_offset_interpolates:
  assumes "bi_env_ok E" and "reach bi_init (bi_step E) b"
  shows "\<exists>r off b'. getByteOffsetFromTimeUs E time byteOffset b = Some (r, off, b') \<and>
    (r = BUF_OK \<and> time \<noteq> fst (mLastByteOffsetFromTimeUs b) \<and> time \<noteq> 0 \<longrightarrow>
      (\<exists>i k. 0 < i \<and> i < length (mBufInd b) \<and> i - 2 \<le> k \<and> k \<le> i \<and>
         fst (mBufInd b ! (i - 1)) \<le> fst (last (mBufInd b)) - time \<and> fst (last (mBufInd b)) - time < fst (mBufInd b ! i) \<and>
         off = snd (last (mBufInd b)) - snd (mBufInd b ! k)))"
  using assms(1) bi_run.reach_inv [OF assms(2)] by (rule byte_offset_ok)

lemma getTimeUsFromByteOffset_hit:
  assumes "mBufInd b \<noteq> []" and "byteOffset \<noteq> fst (mLastTimeUsFromByteOffset b)" and "byteOffset \<noteq> 0"
    and "getFront b = Some front" and "bi_back b = Some newest" and "\<not> snd newest < snd front + byteOffset"
    and "upper_bound (timeSearch (snd newest - byteOffset)) (mBufInd b) (getFrontIndex b) (length (mBufInd b) - getFrontIndex b) = u"
    and "u \<noteq> length (mBufInd b)" and "u \<noteq> 0" and "rd (mBufInd b) (u - 1) = Some prev" and "rd (mBufInd b) u = Some cur"
    and "f_div E (f_of_u64 E (fst cur - fst prev)) (f_of_u64 E (snd cur - snd prev)) = Some g"
    and "u64_of_f (fl E (g * f_of_u64 E (snd newest - byteOffset - snd prev))) = Some w"
  shows "getTimeUsFromByteOffset E byteOffset time b =
    Some (BUF_OK, fst newest - (fst prev + w), b\<lparr>mLastTimeUsFromByteOffset := (byteOffset, fst newest - (fst prev + w))\<rparr>)"
  unfolding getTimeUsFromByteOffset_def Let_def by (simp only: assms if_False simp_thms bind.bind_lunit)

text \<open>Both interpolations of a time between two neighbouring entries.\<close>

lemma entries_interpolate:
  assumes E: "bi_env_ok E" and ok: "bi_ok b" and u: "0 < u" "u < length (mBufInd b)"
    and lo: "snd (mBufInd b ! (u - 1)) \<le> target" and hi: "target < snd (mBufInd b ! u)"
  shows "\<exists>g w. f_div E (f_of_u64 E (fst (mBufInd b ! u) - fst (mBufInd b ! (u - 1)))) (f_of_u64 E (snd (mBufInd b ! u) - snd (mBufInd b ! (u - 1)))) = Some g \<and>
    u64_of_f (fl E (g * f_of_u64 E (target - snd (mBufInd b ! (u - 1))))) = Some w \<and>
    unat w \<le> (unat (fst (mBufInd b ! u)) - unat (fst (mBufInd b ! (u - 1)))) +
      (unat (fst (mBufInd b ! u)) - unat (fst (mBufInd b ! (u - 1)))) div 2 ^ 21"
proof -
  let ?p = "mBufInd b ! (u - 1)" and ?c = "mBufInd b ! u"
  have o: "fst ?p \<le> fst ?c" "snd ?p \<le> snd ?c" using bi_sorted [OF ok, of "u - 1" u] u(2) by simp_all
  have v: "unat (fst ?c - fst ?p) = unat (fst ?c) - unat (fst ?p)" "unat (snd ?c - snd ?p) = unat (snd ?c) - unat (snd ?p)"
      "unat (target - snd ?p) = unat target - unat (snd ?p)"
    using o lo by (simp_all add: unat_sub)
  have l: "unat (snd ?p) \<le> unat target" "unat target < unat (snd ?c)"
    using lo hi by (simp_all add: word_le_nat_alt word_less_nat_alt)
  note B = bi_bounds [OF ok u(2)]
  have R: "rounds 24 (fl E)" using E by (simp add: bi_env_ok_def)
  have D: "unat target - unat (snd ?p) \<le> unat (snd ?c) - unat (snd ?p)" "0 < unat (snd ?c) - unat (snd ?p)"
      "unat (snd ?c) - unat (snd ?p) < 2 ^ 63" "unat (fst ?c) - unat (fst ?p) < 2 ^ 63"
    using l B by linarith+
  show ?thesis using time_interpolates [OF R D] unfolding f_of_u64_def v .
qed

lemma time_us_ok:
  assumes E: "bi_env_ok E" and ok: "bi_ok b"
  shows "\<exists>r t b'. getTimeUsFromByteOffset E byteOffset time b = Some (r, t, b')"
proof (cases "mBufInd b = [] \<or> byteOffset = fst (mLastTimeUsFromByteOffset b) \<or> byteOffset = 0")
  case True
  then show ?thesis by (auto simp: getTimeUsFromByteOffset_def)
next
  case False
  let ?n = "length (mBufInd b)" and ?F = "getFrontIndex b"
  let ?bk = "mBufInd b ! (length (mBufInd b) - 1)"
  let ?u = "upper_bound (\<lambda>p. snd ?bk - byteOffset < snd p) (mBufInd b) ?F (?n - ?F)"
  have ne: "mBufInd b \<noteq> []" using False by simp
  note w = bi_window [OF ok ne]
  have q: "timeSearch t = (\<lambda>p. t < snd p)" for t by (simp add: timeSearch_def fun_eq_iff)
  note g = getTimeUsFromByteOffset_def [of E byteOffset time b] w(2, 3) q
  show ?thesis
  proof (cases "snd ?bk < snd (mBufInd b ! ?F) + byteOffset \<or> ?u = ?n")
    case True
    then show ?thesis using False by (cases "snd ?bk < snd (mBufInd b ! ?F) + byteOffset") (simp_all add: g Let_def)
  next
    case f: False
    have s: "sorted (map snd (mBufInd b))" using ok by (simp add: bi_ok_def)
    have u: "?F < ?u" "?u < ?n" "snd (mBufInd b ! (?u - 1)) \<le> snd ?bk - byteOffset" "snd ?bk - byteOffset < snd (mBufInd b ! ?u)"
      using search_stops [OF s w(1) bi_bounds(2) [OF ok], of byteOffset ?u] f by blast+
    have z: "0 < ?u" "?u - 1 < ?n" using u(1, 2) by simp_all
    obtain d w' where i: "f_div E (f_of_u64 E (fst (mBufInd b ! ?u) - fst (mBufInd b ! (?u - 1)))) (f_of_u64 E (snd (mBufInd b ! ?u) - snd (mBufInd b ! (?u - 1)))) = Some d"
        "u64_of_f (fl E (d * f_of_u64 E (snd ?bk - byteOffset - snd (mBufInd b ! (?u - 1))))) = Some w'"
      using entries_interpolate [OF E ok z(1) u(2 - 4)] by blast
    have "getTimeUsFromByteOffset E byteOffset time b = Some (BUF_OK, fst ?bk - (fst (mBufInd b ! (?u - 1)) + w'),
        b\<lparr>mLastTimeUsFromByteOffset := (byteOffset, fst ?bk - (fst (mBufInd b ! (?u - 1)) + w'))\<rparr>)"
      by (rule getTimeUsFromByteOffset_hit [where u = ?u, OF _ _ _ w(2, 3) _ _ _ _ _ _ i])
        (use False f u(2) z in \<open>simp_all add: q\<close>)
    then show ?thesis by blast
  qed
qed

text \<open>An environment with exact arithmetic, and an indexer with three entries.\<close>

definition exact_env :: bi_env where
  "exact_env = \<lparr>index_ring = circ_list, fl = (\<lambda>x. x), dbl = (\<lambda>x. x)\<rparr>"

definition sample_index :: BufferIndexer where
  "sample_index = \<lparr>mSamplingRatio = 1, mBufferCount = 3, mTsbSize = 10, bi_capacity = 10,
     mBufInd = [(100, 1000), (200, 2000), (300, 3000)], mLastByteOffsetFromTimeUs = (0, 0), mLastTimeUsFromByteOffset = (0, 0)\<rparr>"

lemma exact_env_ok: "bi_env_ok exact_env"
  by (simp add: bi_env_ok_def exact_env_def rounds_def monoI)

lemma sample_index_reach: "reach bi_init (bi_step exact_env) sample_index"
proof -
  let ?b = "\<lambda>n es. \<lparr>mSamplingRatio = 1, mBufferCount = n, mTsbSize = 10, bi_capacity = 10, mBufInd = es,
     mLastByteOffsetFromTimeUs = (0, 0), mLastTimeUsFromByteOffset = (0, 0)\<rparr>"
  have "BufferIndexer_new 10 0 1 = Some (?b 0 [])" by (simp add: BufferIndexer_new_def)
  then have 0: "reach bi_init (bi_step exact_env) (?b 0 [])" by (intro reach_init) (force simp: bi_init_def)
  have r: "snd (registerBufferCount exact_env t n (?b m es)) = ?b (m + 1) (es @ [(t, n)])" if "length es < 10" for t n m es
    using that by (simp add: registerBufferCount_def exact_env_def circ_list_def Let_def)
  have s: "reach bi_init (bi_step exact_env) (?b (m + 1) (es @ [(t, n)]))" if "reach bi_init (bi_step exact_env) (?b m es)"
      "\<forall>p \<in> set es. fst p \<le> t \<and> snd p \<le> n" "unat t < 2 ^ 63" "unat n < 2 ^ 63" "length es < 10" for t n m es
    using reach_step [where step = "bi_step exact_env", OF that(1) bi_register [OF exact_env_ok _ that(3, 4)]] that(2) by (simp add: r [OF that(5)])
  show ?thesis using s [OF s [OF s [OF 0, of 100 1000], of 200 2000], of 300 3000] by (simp add: sample_index_def)
qed

theorem byte_offset_interpolates_witness:
  "bi_env_ok exact_env \<and> reach bi_init (bi_step exact_env) sample_index \<and>
   (\<exists>r off b'. getByteOffsetFromTimeUs exact_env 150 0 sample_index = Some (r, off, b') \<and>
    (r = BUF_OK \<longrightarrow> (\<exists>i k. 0 < i \<and> i < 3 \<and> i - 2 \<le> k \<and> k \<le> i \<and> off = 3000 - snd (mBufInd sample_index ! k))))"
proof -
  have "fst (mLastByteOffsetFromTimeUs sample_index) = 0" "length (mBufInd sample_index) = 3" "snd (last (mBufInd sample_index)) = 3000"
    by (simp_all add: sample_index_def)
  moreover have "(150 :: u64) \<noteq> 0" by simp
  ultimately show ?thesis using byte_offset_interpolates [OF exact_env_ok sample_index_reach, of 150 0] exact_env_ok sample_index_reach
    by metis
qed

definition interpolation_bound :: "BufferIndexer \<Rightarrow> nat \<Rightarrow> nat \<Rightarrow> bool" where
  "interpolation_bound b i d \<longleftrightarrow> (let dt = unat (fst (mBufInd b ! i)) - unat (fst (mBufInd b ! (i - 1))) in d \<le> dt + dt div 2 ^ 21)"

lemma getTimestampUsForByteIndex_hit:
  assumes "mBufInd b \<noteq> []" and "rd (mBufInd b) 0 = Some front" and "bi_back b = Some newest"
    and "\<not> byteIndex \<le> snd front" and "\<not> snd newest \<le> byteIndex"
    and "upper_bound (timeSearch byteIndex) (mBufInd b) 0 (length (mBufInd b)) = u"
    and "u \<noteq> length (mBufInd b)" and "u \<noteq> 0" and "rd (mBufInd b) (u - 1) = Some prev" and "rd (mBufInd b) u = Some cur"
    and "f_div E (f_of_u64 E (fst cur - fst prev)) (f_of_u64 E (snd cur - snd prev)) = Some g"
    and "u64_of_f (fl E (g * f_of_u64 E (byteIndex - snd prev))) = Some w"
  shows "getTimestampUsForByteIndex E byteIndex time b = Some (BUF_OK, fst prev + w)"
  unfolding getTimestampUsForByteIndex_def Let_def by (simp only: assms if_False simp_thms bind.bind_lunit)

lemma unat_add_small: "unat (x :: u64) + unat y < 2 ^ 64 \<Longrightarrow> unat (x + y) = unat x + unat y"
  by (subst unat_plus_simple [symmetric]) (simp add: no_olen_add_nat)

text \<open>
  C17: In the same states the timestamp of a byte position is always computed, and for a position strictly
  inside the index it lies between the times of the two entries around it, up to the rounding error of
  single-precision arithmetic.
\<close>

theorem timestamp_between_entries:
  assumes "bi_env_ok E" and "reach bi_init (bi_step E) b" and "mBufInd b \<noteq> []"
  shows "\<exists>r t. getTimestampUsForByteIndex E byteIndex time b = Some (r, t) \<and>
    (snd (hd (mBufInd b)) < byteIndex \<and> byteIndex < snd (last (mBufInd b)) \<longrightarrow> r = BUF_OK \<and>
      (\<exists>i d. 0 < i \<and> i < length (mBufInd b) \<and> snd (mBufInd b ! (i - 1)) \<le> byteIndex \<and> byteIndex < snd (mBufInd b ! i) \<and>
         unat t = unat (fst (mBufInd b ! (i - 1))) + d \<and> interpolation_bound b i d))"
proof -
  let ?n = "length (mBufInd b)"
  let ?u = "upper_bound (\<lambda>p. byteIndex < snd p) (mBufInd b) 0 ?n"
  have ok: "bi_ok b" using assms(2) by (rule bi_run.reach_inv)
  have ne: "0 < ?n" using assms(3) by simp
  have q: "timeSearch t = (\<lambda>p. t < snd p)" for t by (simp add: timeSearch_def fun_eq_iff)
  have h: "hd (mBufInd b) = mBufInd b ! 0" "last (mBufInd b) = mBufInd b ! (?n - 1)" using assms(3) by (simp_all add: hd_conv_nth last_conv_nth)
  show ?thesis
  proof (cases "snd (mBufInd b ! 0) < byteIndex \<and> byteIndex < snd (mBufInd b ! (?n - 1))")
    case False
    then have "\<exists>r t. getTimestampUsForByteIndex E byteIndex time b = Some (r, t)"
      using assms(3) ne by (auto simp: getTimestampUsForByteIndex_def bi_back_def not_less)
    then show ?thesis using False unfolding h by blast
  next
    case True
    have "splits_at (\<lambda>k. byteIndex < snd (mBufInd b ! k)) 0 ?n ?u"
      using upper_bound_sorted [of snd "mBufInd b" 0 byteIndex] ok ne by (simp add: bi_ok_def)
    then have s: "?u \<le> ?n" "\<And>k. k < ?u \<Longrightarrow> \<not> byteIndex < snd (mBufInd b ! k)" "?u < ?n \<Longrightarrow> byteIndex < snd (mBufInd b ! ?u)"
      by (simp_all add: splits_at_def)
    have "?u \<noteq> 0" using s(3) ne True by (metis less_asym)
    moreover have "?u \<noteq> ?n" using s(2) [of "?n - 1"] ne True by auto
    ultimately have u: "0 < ?u" "?u < ?n" "?u - 1 < ?n" "snd (mBufInd b ! (?u - 1)) \<le> byteIndex" "byteIndex < snd (mBufInd b ! ?u)"
      using s(1) s(2) [of "?u - 1"] s(3) by (simp_all add: not_less)
    let ?p = "mBufInd b ! (?u - 1)" and ?c = "mBufInd b ! ?u"
    have l: "unat (fst ?p) \<le> unat (fst ?c)" using bi_sorted [OF ok, of "?u - 1" ?u] u(2) by (simp add: word_le_nat_alt)
    note B = bi_bounds [OF ok u(2)]
    obtain g w where g: "f_div E (f_of_u64 E (fst ?c - fst ?p)) (f_of_u64 E (snd ?c - snd ?p)) = Some g"
        "u64_of_f (fl E (g * f_of_u64 E (byteIndex - snd ?p))) = Some w"
        "unat w \<le> (unat (fst ?c) - unat (fst ?p)) + (unat (fst ?c) - unat (fst ?p)) div 2 ^ 21"
      using entries_interpolate [OF assms(1) ok u(1, 2, 4, 5)] by blast
    have G: "getTimestampUsForByteIndex E byteIndex time b = Some (BUF_OK, fst ?p + w)"
      by (rule getTimestampUsForByteIndex_hit [where front = "mBufInd b ! 0" and newest = "mBufInd b ! (?n - 1)" and u = ?u, OF assms(3) _ _ _ _ _ _ _ _ _ g(1, 2)])
        (use ne True u in \<open>simp_all add: q bi_back_def not_le\<close>)
    have a: "unat (fst ?p + w) = unat (fst ?p) + unat w"
    proof (rule unat_add_small)
      have "unat (fst ?p) + unat w \<le> unat (fst ?c) + (unat (fst ?c) - unat (fst ?p)) div 2 ^ 21" using g(3) l by linarith
      also have "\<dots> \<le> unat (fst ?c) + unat (fst ?c)" by (intro add_left_mono) (rule order_trans [OF div_le_dividend diff_le_self])
      also have "\<dots> < 2 ^ 64" using B(1) by simp
      finally show "unat (fst ?p) + unat w < 2 ^ 64" .
    qed
    have "interpolation_bound b ?u (unat w)" unfolding interpolation_bound_def Let_def by (rule g(3))
    with u(1, 2, 4, 5) a have R: "\<exists>i d. 0 < i \<and> i < ?n \<and> snd (mBufInd b ! (i - 1)) \<le> byteIndex \<and> byteIndex < snd (mBufInd b ! i) \<and>
         unat (fst ?p + w) = unat (fst (mBufInd b ! (i - 1))) + d \<and> interpolation_bound b i d" by (intro exI conjI)
    show ?thesis by (rule exI, rule exI, rule conjI, rule G, rule impI, rule conjI, rule refl, rule R)
  qed
qed

theorem timestamp_between_entries_witness:
  "bi_env_ok exact_env \<and> reach bi_init (bi_step exact_env) sample_index \<and>
   (\<exists>t i d. getTimestampUsForByteIndex exact_env 1500 0 sample_index = Some (BUF_OK, t) \<and>
      0 < i \<and> i < 3 \<and> unat t = unat (fst (mBufInd sample_index ! (i - 1))) + d \<and> interpolation_bound sample_index i d)"
proof -
  have "mBufInd sample_index \<noteq> []" "length (mBufInd sample_index) = 3" "snd (hd (mBufInd sample_index)) = 1000" "snd (last (mBufInd sample_index)) = 3000"
    by (simp_all add: sample_index_def)
  moreover have "(1000 :: u64) < 1500 \<and> (1500 :: u64) < 3000" by simp
  ultimately show ?thesis using timestamp_between_entries [OF exact_env_ok sample_index_reach, of 1500 0] exact_env_ok sample_index_reach
    by metis
qed

lemma getByteOffsetFromTimeUs_remembers:
  "getByteOffsetFromTimeUs E time byteOffset b = Some (BUF_OK, off, b') \<Longrightarrow> mBufInd b \<noteq> [] \<Longrightarrow>
     mLastByteOffsetFromTimeUs b' = (time, off)"
  unfolding getByteOffsetFromTimeUs_def Let_def
  by (simp split: if_splits Option.bind_splits) auto

text \<open>
  C28: The remembered query survives \<open>clear\<close>: once the index has been cleared and one buffer has been
  registered, it covers no bytes, but the last time that was asked for still yields the offset into the old
  contents, reported as valid.
\<close>

theorem clear_keeps_last_offset:
  assumes "bi_env_ok E" and "reach bi_init (bi_step E) b" and "getByteOffsetFromTimeUs E time byteOffset b = Some (BUF_OK, off, b')"
    and "mBufInd b \<noteq> []"
  shows "let c = snd (registerBufferCount E t n (bi_clear b'))
         in getIndexSizeInBytes c = Some 0 \<and> getByteOffsetFromTimeUs E time byteOffset' c = Some (BUF_OK, off, c)"
proof -
  have m: "mLastByteOffsetFromTimeUs b' = (time, off)" using assms(3, 4) by (rule getByteOffsetFromTimeUs_remembers)
  have ok: "bi_ok b'" using bi_queries_keep(1) [OF assms(3)] bi_run.reach_inv [OF assms(2)] by blast
  have C: "circ_ok (index_ring E)" using assms(1) by (simp add: bi_env_ok_def)
  define c where "c = snd (registerBufferCount E t n (bi_clear b'))"
  have c: "mBufInd c = [(t, n)]" "mLastByteOffsetFromTimeUs c = (time, off)" "mTsbSize c = mTsbSize b'"
    using ok C m by (simp_all add: c_def registerBufferCount_def bi_clear_def Let_def bi_ok_def)
  have "getIndexSize c = 1" using ok by (simp add: getIndexSize_def c bi_ok_def Let_def word_greater_zero_iff unat_gt_0)
  then have "getIndexSizeInBytes c = Some 0" by (simp add: getIndexSizeInBytes_def bi_back_def getFront_def c(1))
  moreover have "getByteOffsetFromTimeUs E time byteOffset' c = Some (BUF_OK, off, c)" by (simp add: getByteOffsetFromTimeUs_def c)
  ultimately show ?thesis by (simp only: Let_def c_def [symmetric])
qed

theorem clear_keeps_last_offset_witness:
  "\<exists>b'. getByteOffsetFromTimeUs exact_env 150 0 sample_index = Some (BUF_OK, 2000, b') \<and>
    (let c = snd (registerBufferCount exact_env 900 10 (bi_clear b'))
     in getIndexSizeInBytes c = Some 0 \<and> getByteOffsetFromTimeUs exact_env 150 0 c = Some (BUF_OK, 2000, c))"
proof -
  let ?b = "sample_index\<lparr>mLastByteOffsetFromTimeUs := (150, 2000)\<rparr>"
  have u: "upper_bound (byteOffsetSearch 150) (mBufInd sample_index) 0 (Suc (Suc (Suc 0))) = Suc 0"
    by (simp add: upper_bound.simps sample_index_def byteOffsetSearch_def)
  have "getByteOffsetFromTimeUs exact_env 150 0 sample_index = Some (BUF_OK, 2000, ?b)"
  proof -
    let ?front = "(100, 1000) :: index_pair" and ?newest = "(300, 3000) :: index_pair" and ?cur = "(200, 2000) :: index_pair"
    have i: "sint (fst ?front - fst ?cur) = - 100" using sint_minus_small [of 100 200] by simp
    have w: "u64_of_f (fl exact_env (f_of_u64 exact_env (word_of_nat 1) + fl exact_env (fl exact_env (dbl exact_env
       (1 / of_int (sint (fst ?front - fst ?cur)))) * f_of_u64 exact_env (150 - (fst ?newest - fst ?cur))))) = Some 0" unfolding i
      by (simp add: exact_env_def f_of_u64_def u64_of_f_def floor_unique [of 0 "1 / 2"])
    show ?thesis
      using getByteOffsetFromTimeUs_hit [OF _ _ _ _ _ _ _ _ _ _ _ _ w, of sample_index ?front ?front 0] u i
      by (simp add: sample_index_def getFrontIndex_def getIndexSize_def getFront_def bi_back_def)
  qed
  from clear_keeps_last_offset [OF exact_env_ok sample_index_reach this, of 900 10 0] this show ?thesis
    by (auto simp: sample_index_def)
qed

end
