(* ===== verification/Socket_Server.thy ===== *)
theory Socket_Server
  imports Prelude "HOL-Library.Sublist"
begin

text \<open>
  The TCP server that copies stream data to its clients (\<open>SocketServer\<close>): its methods as functions,
  its two threads as steps between the points where they wait. What the operating system answers to a
  call (a descriptor, a status, whether a descriptor is valid) is an argument. Descriptors that have been
  closed and data that has been written are recorded in the order of the calls.
\<close>

section \<open>State\<close>

datatype accept_pc = SA_none | SA_loop | SA_accept | SA_gone
datatype write_pc = SW_none | SW_loop | SW_pop | SW_have bytes | SW_gone

text \<open>How far a call of \<open>stop\<close> that holds \<open>mStartStopMtx\<close> has come.\<close>

datatype stop_phase = S_idle | S_flagged | S_joining

record SocketServer =
  mServerFd :: int
  mClientFd :: "int list"
  mIsRunning :: bool
  mQueue :: "bytes list"
  ss_accept :: accept_pc
  ss_write :: write_pc
  ss_phase :: stop_phase
  ss_closed :: "int list"
  ss_written :: "(int \<times> bytes) list"
  ss_pushed :: "bytes list"
  ss_popped :: "bytes list"

record socket_answers =
  ans_socket :: int
  ans_setsockopt :: int
  ans_bind :: int
  ans_listen :: int

definition SocketServer_new :: SocketServer where
  "SocketServer_new = \<lparr>mServerFd = -1, mClientFd = [], mIsRunning = False, mQueue = [], ss_accept = SA_none,
     ss_write = SW_none, ss_phase = S_idle, ss_closed = [], ss_written = [], ss_pushed = [], ss_popped = []\<rparr>"

section \<open>Methods\<close>

definition ss_start :: "socket_answers \<Rightarrow> SocketServer \<Rightarrow> bool \<times> SocketServer" where
  "ss_start a s =
     (if mIsRunning s then (False, s)
      else let s = s\<lparr>mServerFd := ans_socket a\<rparr>
           in if mServerFd s < 0 then (False, s)
              else if ans_setsockopt a < 0 then (False, s)
              else if ans_bind a < 0 then (False, s)
              else if ans_listen a < 0 then (False, s)
              else (True, s\<lparr>mIsRunning := True, ss_accept := SA_loop, ss_write := SW_loop\<rparr>))"

definition ss_pushBuffer :: "bytes \<Rightarrow> SocketServer \<Rightarrow> SocketServer" where
  "ss_pushBuffer buf s = s\<lparr>mQueue := mQueue s @ [buf], ss_pushed := ss_pushed s @ [buf]\<rparr>"

text \<open>
  \<open>stop\<close> up to the write of the flag, up to the joins, and its return; \<open>None\<close> is a join that waits.
\<close>

definition ss_stop_flag :: "SocketServer \<Rightarrow> bool \<times> SocketServer" where
  "ss_stop_flag s = (if \<not> mIsRunning s then (False, s) else (True, s\<lparr>mIsRunning := False, ss_phase := S_flagged\<rparr>))"

definition ss_stop_close :: "SocketServer \<Rightarrow> SocketServer" where
  "ss_stop_close s =
     (let s = ss_pushBuffer [] s
      in s\<lparr>ss_closed := ss_closed s @ mClientFd s @ [mServerFd s], ss_phase := S_joining\<rparr>)"

definition ss_stop_join :: "SocketServer \<Rightarrow> SocketServer option" where
  "ss_stop_join s = (if ss_accept s = SA_gone \<and> ss_write s = SW_gone then Some (s\<lparr>ss_phase := S_idle\<rparr>) else None)"

definition ss_send :: "bytes \<Rightarrow> SocketServer \<Rightarrow> bool \<times> SocketServer" where
  "ss_send buf s = (if \<not> mIsRunning s then (False, s) else (True, ss_pushBuffer buf s))"

text \<open>\<open>popBuffer\<close>; \<open>None\<close> is a wait for a buffer.\<close>

definition ss_popBuffer :: "SocketServer \<Rightarrow> (bytes \<times> SocketServer) option" where
  "ss_popBuffer s = (case mQueue s of
     [] \<Rightarrow> None
   | buf # q \<Rightarrow> Some (buf, s\<lparr>mQueue := q, ss_popped := ss_popped s @ [buf]\<rparr>))"

section \<open>Threads\<close>

text \<open>The loop of \<open>writeLoop\<close> over the descriptors, which are in ascending order.\<close>

fun write_clients :: "(int \<Rightarrow> bool) \<Rightarrow> (int \<Rightarrow> int) \<Rightarrow> bytes \<Rightarrow> int list \<Rightarrow> int list \<times> int list \<times> (int \<times> bytes) list" where
  "write_clients valid status buf [] = ([], [], [])"
| "write_clients valid status buf (fd # fds) =
     (let (keep, closed, written) = write_clients valid status buf fds
      in if valid fd then
           if status fd < 0 then (keep, fd # closed, (fd, buf) # written)
           else (fd # keep, closed, (fd, buf) # written)
         else (keep, fd # closed, written))"

definition write_buffer :: "(int \<Rightarrow> bool) \<Rightarrow> (int \<Rightarrow> int) \<Rightarrow> bytes \<Rightarrow> SocketServer \<Rightarrow> SocketServer" where
  "write_buffer valid status buf s =
     (if mIsRunning s \<and> buf \<noteq> []
      then let (keep, closed, written) = write_clients valid status buf (mClientFd s)
           in s\<lparr>mClientFd := keep, ss_closed := ss_closed s @ closed, ss_written := ss_written s @ written\<rparr>
      else s)"

definition writeLoop_test :: "SocketServer \<Rightarrow> SocketServer" where
  "writeLoop_test s = s\<lparr>ss_write := if mIsRunning s then SW_pop else SW_gone\<rparr>"

definition acceptLoop_test :: "SocketServer \<Rightarrow> SocketServer" where
  "acceptLoop_test s = s\<lparr>ss_accept := if mIsRunning s then SA_accept else SA_gone\<rparr>"

definition accepted :: "int \<Rightarrow> SocketServer \<Rightarrow> SocketServer" where
  "accepted fd s = (if fd < 0 then s else s\<lparr>mClientFd := insort fd (remove1 fd (mClientFd s))\<rparr>)"

inductive ss_thread :: "SocketServer \<Rightarrow> SocketServer \<Rightarrow> bool" where
  ss_write_test: "ss_write s = SW_loop \<Longrightarrow> ss_thread s (writeLoop_test s)"
| ss_write_pop: "ss_write s = SW_pop \<Longrightarrow> ss_popBuffer s = Some (buf, t) \<Longrightarrow> ss_thread s (t\<lparr>ss_write := SW_have buf\<rparr>)"
| ss_write_out: "ss_write s = SW_have buf \<Longrightarrow> ss_thread s ((write_buffer valid status buf s)\<lparr>ss_write := SW_loop\<rparr>)"
| ss_accept_test: "ss_accept s = SA_loop \<Longrightarrow> ss_thread s (acceptLoop_test s)"
| ss_accept_done: "ss_accept s = SA_accept \<Longrightarrow> ss_thread s ((accepted fd s)\<lparr>ss_accept := SA_loop\<rparr>)"

text \<open>
  The threads and the callers. A sender may have read \<open>mIsRunning\<close> before a \<open>stop\<close> and push after it.
\<close>

inductive ss_step :: "SocketServer \<Rightarrow> SocketServer \<Rightarrow> bool" where
  ss_by_thread: "ss_thread s t \<Longrightarrow> ss_step s t"
| ss_user_start: "ss_phase s = S_idle \<Longrightarrow> ss_step s (snd (ss_start a s))"
| ss_user_stop: "ss_phase s = S_idle \<Longrightarrow> ss_step s (snd (ss_stop_flag s))"
| ss_user_close: "ss_phase s = S_flagged \<Longrightarrow> ss_step s (ss_stop_close s)"
| ss_user_join: "ss_phase s = S_joining \<Longrightarrow> ss_stop_join s = Some t \<Longrightarrow> ss_step s t"
| ss_user_send: "ss_step s (snd (ss_send buf s))"
| ss_late_send: "ss_step s (ss_pushBuffer buf s)"

lemmas ss_defs = ss_start_def ss_pushBuffer_def ss_stop_flag_def ss_stop_close_def ss_stop_join_def ss_send_def
  ss_popBuffer_def write_buffer_def writeLoop_test_def acceptLoop_test_def accepted_def

section \<open>Invariant\<close>

definition ss_inv :: "SocketServer \<Rightarrow> bool" where
  "ss_inv s \<longleftrightarrow> ss_pushed s = ss_popped s @ mQueue s \<and>
     (ss_phase s \<noteq> S_idle \<longrightarrow> \<not> mIsRunning s) \<and>
     (ss_phase s = S_idle \<longrightarrow> (if mIsRunning s then ss_accept s \<in> {SA_loop, SA_accept} \<and> ss_write s \<notin> {SW_none, SW_gone}
                               else ss_accept s \<in> {SA_none, SA_gone} \<and> ss_write s \<in> {SW_none, SW_gone})) \<and>
     (ss_phase s \<noteq> S_idle \<longrightarrow> ss_accept s \<noteq> SA_none \<and> ss_write s \<noteq> SW_none) \<and>
     (ss_phase s = S_joining \<and> ss_write s = SW_pop \<longrightarrow> mQueue s \<noteq> [])"

lemma write_buffer_keeps [simp]:
  "mQueue (write_buffer valid status buf s) = mQueue s" "ss_pushed (write_buffer valid status buf s) = ss_pushed s"
  "ss_popped (write_buffer valid status buf s) = ss_popped s" "ss_phase (write_buffer valid status buf s) = ss_phase s"
  "mIsRunning (write_buffer valid status buf s) = mIsRunning s" "ss_accept (write_buffer valid status buf s) = ss_accept s"
  by (simp_all add: write_buffer_def Let_def case_prod_beta)

lemma accepted_keeps [simp]:
  "mQueue (accepted fd s) = mQueue s" "ss_pushed (accepted fd s) = ss_pushed s" "ss_popped (accepted fd s) = ss_popped s"
  "ss_phase (accepted fd s) = ss_phase s" "mIsRunning (accepted fd s) = mIsRunning s" "ss_write (accepted fd s) = ss_write s"
  by (simp_all add: accepted_def)

lemma ss_thread_inv: "ss_thread s t \<Longrightarrow> ss_inv s \<Longrightarrow> ss_inv t"
proof (induction rule: ss_thread.induct)
  case (ss_write_test s)
  then show ?case by (auto simp: ss_inv_def writeLoop_test_def)
next
  case (ss_write_pop s buf t)
  from ss_write_pop(2) obtain q where "mQueue s = buf # q" "t = s\<lparr>mQueue := q, ss_popped := ss_popped s @ [buf]\<rparr>"
    by (auto simp: ss_popBuffer_def split: list.splits)
  then show ?case using ss_write_pop(1, 3) by (auto simp: ss_inv_def)
next
  case (ss_write_out s buf valid status)
  then show ?case by (auto simp: ss_inv_def)
next
  case (ss_accept_test s)
  then show ?case by (auto simp: ss_inv_def acceptLoop_test_def)
next
  case (ss_accept_done s fd)
  then show ?case by (auto simp: ss_inv_def)
qed

interpretation ss_run: inductive_invariant "\<lambda>s. s = SocketServer_new" ss_step ss_inv
proof unfold_locales
  show "ss_inv s" if "s = SocketServer_new" for s using that by (simp add: ss_inv_def SocketServer_new_def)
  show "ss_inv t" if "ss_inv s" "ss_step s t" for s t
    using that(2, 1)
  proof cases
    case ss_by_thread
    then show ?thesis using that(1) by (rule ss_thread_inv)
  next
    case (ss_user_start a)
    then show ?thesis using that(1) by (auto simp: ss_inv_def ss_start_def Let_def)
  next
    case ss_user_stop
    then show ?thesis using that(1) by (auto simp: ss_inv_def ss_stop_flag_def split: if_splits)
  next
    case ss_user_close
    then show ?thesis using that(1) by (simp add: ss_inv_def ss_stop_close_def ss_pushBuffer_def Let_def)
  next
    case ss_user_join
    then show ?thesis using that(1) by (auto simp: ss_inv_def ss_stop_join_def split: if_splits)
  next
    case (ss_user_send buf)
    then show ?thesis using that(1) by (auto simp: ss_inv_def ss_send_def ss_pushBuffer_def)
  next
    case (ss_late_send buf)
    then show ?thesis using that(1) by (auto simp: ss_inv_def ss_pushBuffer_def)
  qed
qed

section \<open>Writing\<close>

lemma write_clients_spec:
  "write_clients valid status buf fds =
     (filter (\<lambda>fd. valid fd \<and> 0 \<le> status fd) fds, filter (\<lambda>fd. \<not> (valid fd \<and> 0 \<le> status fd)) fds,
      map (\<lambda>fd. (fd, buf)) (filter valid fds))"
  by (induction fds) (auto simp: not_le)

text \<open>What a client has received, and the invariant that relates it to what was taken from the queue.\<close>

definition received :: "int \<Rightarrow> SocketServer \<Rightarrow> bytes list" where
  "received fd s = map snd (filter (\<lambda>w. fst w = fd) (ss_written s))"

definition ss_order_inv :: "SocketServer \<Rightarrow> bool" where
  "ss_order_inv s \<longleftrightarrow> ss_inv s \<and> distinct (mClientFd s) \<and>
     (case ss_write s of
        SW_have buf \<Rightarrow> (\<exists>p. ss_popped s = p @ [buf] \<and> (\<forall>fd. subseq (received fd s) p))
      | _ \<Rightarrow> (\<forall>fd. subseq (received fd s) (ss_popped s)))"

lemma filter_write_clients:
  "distinct fds \<Longrightarrow> filter (\<lambda>w. fst w = fd) (map (\<lambda>fd. (fd, buf)) (filter P fds)) = (if fd \<in> set fds \<and> P fd then [(fd, buf)] else [])"
  by (induction fds) auto

lemma received_write_buffer:
  "distinct (mClientFd s) \<Longrightarrow> received fd (write_buffer valid status buf s) = received fd s \<or>
     received fd (write_buffer valid status buf s) = received fd s @ [buf]"
  by (auto simp: received_def write_buffer_def write_clients_spec filter_write_clients simp del: filter_map)

lemma write_buffer_distinct: "distinct (mClientFd s) \<Longrightarrow> distinct (mClientFd (write_buffer valid status buf s))"
  by (simp add: write_buffer_def write_clients_spec)

lemma received_keeps [simp]:
  "received fd (s\<lparr>ss_write := w\<rparr>) = received fd s" "received fd (s\<lparr>ss_accept := x\<rparr>) = received fd s"
  "received fd (accepted fd' s) = received fd s" "received fd (s\<lparr>mQueue := q, ss_popped := ps\<rparr>) = received fd s"
  by (simp_all add: received_def accepted_def)

lemma ss_thread_order: "ss_thread s t \<Longrightarrow> ss_order_inv s \<Longrightarrow> ss_order_inv t"
proof (induction rule: ss_thread.induct)
  case (ss_write_test s)
  then have "ss_inv (writeLoop_test s)" using ss_thread_inv [OF ss_thread.ss_write_test] by (simp add: ss_order_inv_def)
  then show ?case using ss_write_test by (simp add: ss_order_inv_def writeLoop_test_def)
next
  case (ss_write_pop s buf t)
  from ss_write_pop(2) obtain q where t: "t = s\<lparr>mQueue := q, ss_popped := ss_popped s @ [buf]\<rparr>"
    by (auto simp: ss_popBuffer_def split: list.splits)
  have "ss_inv (t\<lparr>ss_write := SW_have buf\<rparr>)"
    using ss_thread_inv [OF ss_thread.ss_write_pop [OF ss_write_pop(1, 2)]] ss_write_pop(3) by (simp add: ss_order_inv_def)
  then show ?case using ss_write_pop(1, 3) unfolding t by (simp add: ss_order_inv_def received_def)
next
  case (ss_write_out s buf valid status)
  from ss_write_out obtain p where p: "ss_popped s = p @ [buf]" "\<forall>fd. subseq (received fd s) p" and d: "distinct (mClientFd s)"
    by (auto simp: ss_order_inv_def)
  have "subseq (received fd (write_buffer valid status buf s)) (p @ [buf])" for fd
    using received_write_buffer [OF d, of fd valid status buf] p(2)
    by (auto intro: list_emb_append_mono list_emb_prefix)
  moreover have "ss_inv ((write_buffer valid status buf s)\<lparr>ss_write := SW_loop\<rparr>)"
    using ss_thread_inv [OF ss_thread.ss_write_out] ss_write_out by (simp add: ss_order_inv_def)
  ultimately show ?case using write_buffer_distinct [OF d] p(1) by (simp add: ss_order_inv_def)
next
  case (ss_accept_test s)
  then have "ss_inv (acceptLoop_test s)" using ss_thread_inv [OF ss_thread.ss_accept_test] by (simp add: ss_order_inv_def)
  then show ?case using ss_accept_test by (simp add: ss_order_inv_def acceptLoop_test_def split: write_pc.splits)
next
  case (ss_accept_done s fd)
  then have "ss_inv ((accepted fd s)\<lparr>ss_accept := SA_loop\<rparr>)" using ss_thread_inv [OF ss_thread.ss_accept_done] by (simp add: ss_order_inv_def)
  moreover have "distinct (mClientFd (accepted fd s))" using ss_accept_done
    by (simp add: ss_order_inv_def accepted_def distinct_insort distinct_remove1)
  ultimately show ?case using ss_accept_done by (simp add: ss_order_inv_def split: write_pc.splits)
qed

lemma ss_user_keeps:
  assumes "ss_step s t" and "\<not> ss_thread s t" and "ss_inv s"
  shows "received fd t = received fd s \<and> mClientFd t = mClientFd s \<and> ss_popped t = ss_popped s \<and>
         (ss_write t = ss_write s \<or> ss_write s \<in> {SW_none, SW_gone} \<and> ss_write t = SW_loop)"
  using assms by cases (auto simp: received_def ss_inv_def ss_start_def ss_stop_flag_def ss_stop_close_def ss_stop_join_def ss_send_def
      ss_pushBuffer_def Let_def split: if_splits)

interpretation ss_order: inductive_invariant "\<lambda>s. s = SocketServer_new" ss_step ss_order_inv
proof unfold_locales
  show "ss_order_inv s" if "s = SocketServer_new" for s
    using that by (simp add: ss_order_inv_def ss_inv_def SocketServer_new_def received_def)
  show "ss_order_inv t" if "ss_order_inv s" "ss_step s t" for s t
  proof (cases "ss_thread s t")
    case True
    then show ?thesis using that(1) by (rule ss_thread_order)
  next
    case False
    have i: "ss_inv s" using that(1) by (simp add: ss_order_inv_def)
    have "ss_inv t" using i that(2) by (rule ss_run.inv_step)
    then show ?thesis using ss_user_keeps [OF that(2) False i] that(1)
      by (auto simp: ss_order_inv_def split: write_pc.splits)
  qed
qed


text \<open>How many steps the two threads can still make once \<open>mIsRunning\<close> is false.\<close>

fun accept_left :: "accept_pc \<Rightarrow> nat" where
  "accept_left SA_accept = 2" | "accept_left SA_loop = 1" | "accept_left _ = 0"

fun write_left :: "write_pc \<Rightarrow> nat" where
  "write_left SW_pop = 3" | "write_left (SW_have _) = 2" | "write_left SW_loop = 1" | "write_left _ = 0"

lemma ss_pop_step: "ss_write s = SW_pop \<Longrightarrow> mQueue s = buf # q \<Longrightarrow> \<exists>t. ss_thread s t"
  by (rule exI, rule ss_write_pop) (simp_all add: ss_popBuffer_def)


text \<open>
  C29: \<open>stop\<close> closes the clients' descriptors but keeps them in \<open>mClientFd\<close>: after the next \<open>start\<close>,
  a descriptor number that the system has meanwhile given to another file is valid again, and the next
  buffer is written to that file.
\<close>

theorem restart_writes_closed:
  assumes "mIsRunning s" and "fd \<in> set (mClientFd s)" and "buf \<noteq> []" and "valid fd"
    and "s1 = ss_stop_close (snd (ss_stop_flag s))"
    and "ss_stop_join (s1\<lparr>ss_accept := SA_gone, ss_write := SW_gone\<rparr>) = Some s2" and "ss_start a s2 = (True, s3)"
  shows "fd \<in> set (ss_closed s2) \<and> (fd, buf) \<in> set (ss_written (write_buffer valid status buf s3))"
proof -
  have 2: "mClientFd s2 = mClientFd s" "set (ss_closed s2) \<supseteq> set (mClientFd s)"
    using assms(1, 5, 6) by (auto simp: ss_stop_join_def ss_stop_close_def ss_stop_flag_def ss_pushBuffer_def Let_def)
  have 3: "mClientFd s3 = mClientFd s2" "mIsRunning s3" using assms(7) by (auto simp: ss_start_def Let_def split: if_splits)
  show ?thesis using assms(2 - 4) 2 3 by (auto simp: write_buffer_def write_clients_spec)
qed

definition answers_ok :: socket_answers where
  "answers_ok = \<lparr>ans_socket = 3, ans_setsockopt = 0, ans_bind = 0, ans_listen = 0\<rparr>"

definition server_started :: SocketServer where
  "server_started = snd (ss_start answers_ok SocketServer_new)"

definition server_joining :: SocketServer where
  "server_joining = ss_stop_close (snd (ss_stop_flag server_started))"

lemma server_reach:
  "reach (\<lambda>s. s = SocketServer_new) ss_step server_started" "reach (\<lambda>s. s = SocketServer_new) ss_step server_joining"
proof -
  note st = reach_step [where step = ss_step and init = "\<lambda>s. s = SocketServer_new"]
  have 0: "reach (\<lambda>s. s = SocketServer_new) ss_step SocketServer_new" by (rule reach_init) simp
  show 1: "reach (\<lambda>s. s = SocketServer_new) ss_step server_started"
    unfolding server_started_def by (rule st [OF 0 ss_user_start]) (simp add: SocketServer_new_def)
  have 2: "reach (\<lambda>s. s = SocketServer_new) ss_step (snd (ss_stop_flag server_started))"
    by (rule st [OF 1 ss_user_stop]) (simp add: server_started_def SocketServer_new_def ss_start_def answers_ok_def)
  show "reach (\<lambda>s. s = SocketServer_new) ss_step server_joining"
    unfolding server_joining_def
    by (rule st [OF 2 ss_user_close]) (simp add: server_started_def SocketServer_new_def ss_start_def answers_ok_def ss_stop_flag_def)
qed



theorem restart_writes_closed_witness:
  "\<exists>s2 s3. ss_stop_join ((ss_stop_close (snd (ss_stop_flag (accepted 5 server_started))))\<lparr>ss_accept := SA_gone, ss_write := SW_gone\<rparr>) = Some s2 \<and>
     ss_start answers_ok s2 = (True, s3) \<and> 5 \<in> set (ss_closed s2) \<and>
     (5, [1]) \<in> set (ss_written (write_buffer (\<lambda>fd. True) (\<lambda>fd. 0) [1] s3))"
proof -
  let ?s = "accepted 5 server_started"
  let ?g = "(ss_stop_close (snd (ss_stop_flag ?s)))\<lparr>ss_accept := SA_gone, ss_write := SW_gone\<rparr>"
  have r: "mIsRunning ?s" "5 \<in> set (mClientFd ?s)"
    by (simp_all add: accepted_def server_started_def SocketServer_new_def ss_start_def answers_ok_def)
  have j: "ss_stop_join ?g = Some (?g\<lparr>ss_phase := S_idle\<rparr>)" by (simp add: ss_stop_join_def)
  have "\<not> mIsRunning (?g\<lparr>ss_phase := S_idle\<rparr>)" by (simp add: ss_stop_close_def ss_stop_flag_def ss_pushBuffer_def Let_def)
  then obtain s3 where st: "ss_start answers_ok (?g\<lparr>ss_phase := S_idle\<rparr>) = (True, s3)"
    by (simp add: ss_start_def answers_ok_def)
  show ?thesis using restart_writes_closed [where valid = "\<lambda>fd. True" and status = "\<lambda>fd. 0" and buf = "[1]", OF r _ _ refl j st] j st by auto
qed

end
