(* ===== verification/Player_State.thy ===== *)
theory Player_State
  imports Prelude
begin

text \<open>
  The state of the player as an enumeration and as text (\<open>PlayerStateEnum.h\<close>). Trimming and upper-casing
  are \<open>boost\<close> functions, a parameter \<open>norm\<close> of the definitions that use them. A member that the
  constructor leaves unset is \<open>None\<close>.
\<close>

datatype PlayerState = UNDEF | READY | PLAYING | PAUSED

definition player_states :: "(PlayerState \<times> string) list" where
  "player_states = [(UNDEF, ''UNDEF''), (READY, ''READY''), (PLAYING, ''PLAYING''), (PAUSED, ''PAUSED'')]"

record PlayerStateEnum =
  pse_valid :: bool
  mEnumValue :: "PlayerState option"
  mStringValue :: string

definition pse_init :: "(PlayerState \<times> string \<Rightarrow> bool) \<Rightarrow> PlayerStateEnum" where
  "pse_init pred = (case find pred player_states of
     None \<Rightarrow> \<lparr>pse_valid = False, mEnumValue = None, mStringValue = []\<rparr>
   | Some (e, str) \<Rightarrow> \<lparr>pse_valid = True, mEnumValue = Some e, mStringValue = str\<rparr>)"

definition PlayerStateEnum_of_string :: "(string \<Rightarrow> string) \<Rightarrow> string \<Rightarrow> PlayerStateEnum" where
  "PlayerStateEnum_of_string norm enumString = pse_init (\<lambda>obj. snd obj = norm enumString)"

definition PlayerStateEnum_of_enum :: "PlayerState \<Rightarrow> PlayerStateEnum" where
  "PlayerStateEnum_of_enum enumValue = pse_init (\<lambda>obj. fst obj = enumValue)"

definition pse_isValid :: "PlayerStateEnum \<Rightarrow> bool" where
  "pse_isValid p = pse_valid p"

definition pse_enumValue :: "PlayerStateEnum \<Rightarrow> PlayerState option" where
  "pse_enumValue p = mEnumValue p"

definition pse_stringValue :: "PlayerStateEnum \<Rightarrow> string" where
  "pse_stringValue p = mStringValue p"

lemmas pse_defs = player_states_def pse_init_def PlayerStateEnum_of_string_def PlayerStateEnum_of_enum_def
  pse_isValid_def pse_enumValue_def pse_stringValue_def

lemma pse_of_enum_valid: "pse_isValid (PlayerStateEnum_of_enum e)"
  by (cases e) (simp_all add: pse_defs)

lemma pse_roundtrip:
  "norm (pse_stringValue (PlayerStateEnum_of_enum e)) = pse_stringValue (PlayerStateEnum_of_enum e) \<Longrightarrow>
     pse_enumValue (PlayerStateEnum_of_string norm (pse_stringValue (PlayerStateEnum_of_enum e))) = Some e"
  by (cases e) (simp_all add: pse_defs)

lemma pse_valid_iff:
  "pse_isValid (PlayerStateEnum_of_string norm s) \<longleftrightarrow> norm s \<in> {''UNDEF'', ''READY'', ''PLAYING'', ''PAUSED''}"
  by (auto simp: pse_defs)

lemma pse_valid_enum: "pse_isValid (PlayerStateEnum_of_string norm s) \<Longrightarrow> \<exists>e. pse_enumValue (PlayerStateEnum_of_string norm s) = Some e"
  by (auto simp: PlayerStateEnum_of_string_def pse_init_def pse_isValid_def pse_enumValue_def split: option.splits)

end
