(* ===== verification/Time_Shift_Buffer.thy ===== *)
theory Time_Shift_Buffer
  imports Buffer_Indexer Timers Monitored_Variable Json_Value Player_State
begin

text \<open>
  The time-shift buffer (\<open>TimeShiftBufferConsumer\<close>, \<open>HandleContext\<close>): stream chunks go into the byte
  pool of \<open>streamfs\<close>, every fourth chunk is registered with the indexer, and every open handle reads
  at its own position minus the seek offset. The pool is a parameter with the operations that the code
  calls; the two monitored variables are assigned as in \<open>Monitored_Variable\<close>; calls of the TCP server are
  recorded. \<open>None\<close> is undefined behaviour or a call that does not return.
\<close>

section \<open>Environment\<close>

record 'p pool_ops =
  queueBuffer :: "bytes \<Rightarrow> 'p \<Rightarrow> 'p"
  getTotalBufferCount :: "'p \<Rightarrow> u64"
  readRandomAccess :: "nat \<Rightarrow> u64 \<Rightarrow> 'p \<Rightarrow> bytes \<times> 'p"
  clearToLastRead :: "'p \<Rightarrow> 'p"
  enableReadThrottling :: "bool \<Rightarrow> 'p \<Rightarrow> 'p"
  abortAllOperations :: "'p \<Rightarrow> 'p"

record 'p tsb_env =
  tsb_bi :: bi_env
  tsb_pool :: "'p pool_ops"
  chunk_bytes :: u64
  w_expired :: "watcher \<Rightarrow> bool"
  w_callable :: "watcher \<Rightarrow> bool"

text \<open>What the pool documents: queueing counts one buffer more, the other operations count none, and a read
  returns at most the bytes asked for.\<close>

definition pool_ok :: "'p pool_ops \<Rightarrow> bool" where
  "pool_ok P \<longleftrightarrow> (\<forall>c p. getTotalBufferCount P (queueBuffer P c p) = getTotalBufferCount P p + 1) \<and>
     (\<forall>n off p. length (fst (readRandomAccess P n off p)) \<le> n \<and>
        getTotalBufferCount P (snd (readRandomAccess P n off p)) = getTotalBufferCount P p) \<and>
     (\<forall>p. getTotalBufferCount P (clearToLastRead P p) = getTotalBufferCount P p) \<and>
     (\<forall>f p. getTotalBufferCount P (enableReadThrottling P f p) = getTotalBufferCount P p) \<and>
     (\<forall>p. getTotalBufferCount P (abortAllOperations P p) = getTotalBufferCount P p)"

section \<open>State\<close>

record HandleContext =
  mReadOffset :: u64

definition HandleContext_new :: HandleContext where "HandleContext_new = \<lparr>mReadOffset = 0\<rparr>"

definition getCurrentReadOffset :: "HandleContext \<Rightarrow> u64" where
  "getCurrentReadOffset c = mReadOffset c"

definition incReadOffset :: "u64 \<Rightarrow> HandleContext \<Rightarrow> HandleContext" where
  "incReadOffset increment c = c\<lparr>mReadOffset := mReadOffset c + increment\<rparr>"

definition initReadOffset :: "u64 \<Rightarrow> HandleContext \<Rightarrow> HandleContext" where
  "initReadOffset readOffset c = c\<lparr>mReadOffset := readOffset\<rparr>"

datatype dump_call = Dump_start | Dump_stop | Dump_send bytes

definition PAUSE_POST_READ_RATE_TIMEOUT_MS :: u16 where "PAUSE_POST_READ_RATE_TIMEOUT_MS = 1000"
definition TRICK_PLAY_RATE_MS :: u16 where "TRICK_PLAY_RATE_MS = 350"

record 'p TimeShiftBufferConsumer =
  mTsDumpEnable :: "bool option"
  mSeekByteOffset :: u64
  mIsStreaming :: bool
  mIsPaused :: bool
  mPlayerState :: PlayerState
  mTrickPlaySpeed :: u16
  mRingBufferPool :: 'p
  mBufIndexer :: BufferIndexer
  mBufferReadWatchdog :: TimeoutWatchdog
  mTrickPlayTimer :: CyclicEventTimer
  mHandles :: "(u64 \<times> HandleContext) list"
  mPauseTimeMonitor :: TimeIntervalMonitor
  mFlush :: "bytes MVar"
  mTrickPlayFile :: "bytes MVar"
  mSocketCalls :: "dump_call list"

text \<open>\<open>allocateBufferQueue\<close> constructs the pool, whose first state is the argument \<open>p0\<close>.\<close>

definition TimeShiftBufferConsumer_new ::
    "bool option \<Rightarrow> int \<Rightarrow> 'p \<Rightarrow> bytes MVar \<Rightarrow> bytes MVar \<Rightarrow> 'p TimeShiftBufferConsumer option" where
  "TimeShiftBufferConsumer_new tsDumpEnable now p0 flush trickPlay = do {
     bi \<leftarrow> BufferIndexer_new BUFFER_POOL_SIZE (word_of_nat BUFFER_POOL_TAIL_SIZE) (word_of_nat BUFFER_SAMPLING_RATIO);
     Some \<lparr>mTsDumpEnable = tsDumpEnable, mSeekByteOffset = 0, mIsStreaming = False, mIsPaused = False,
           mPlayerState = UNDEF, mTrickPlaySpeed = 1, mRingBufferPool = p0, mBufIndexer = bi,
           mBufferReadWatchdog = TimeoutWatchdog_new,
           mTrickPlayTimer = cet_setPeriodInMilliseconds TRICK_PLAY_RATE_MS (CyclicEventTimer_new True),
           mHandles = [], mPauseTimeMonitor = tim_reset now, mFlush = flush, mTrickPlayFile = trickPlay,
           mSocketCalls = []\<rparr>
   }"

text \<open>A call of the watchdog, whose callback writes its argument to \<open>mIsPaused\<close>.\<close>

definition on_watchdog :: "(TimeoutWatchdog \<Rightarrow> TimeoutWatchdog) \<Rightarrow> 'p TimeShiftBufferConsumer \<Rightarrow> 'p TimeShiftBufferConsumer" where
  "on_watchdog f s =
     (let w = mBufferReadWatchdog s; w' = f w
      in s\<lparr>mBufferReadWatchdog := w',
           mIsPaused := if wd_calls w' = wd_calls w then mIsPaused s else last (wd_calls w')\<rparr>)"

text \<open>An assignment to a monitored variable.\<close>

definition tsb_assign :: "'p tsb_env \<Rightarrow> bytes \<Rightarrow> bytes MVar \<Rightarrow> bytes MVar option" where
  "tsb_assign E rhs v = (case mvar_assign (w_expired E) (w_callable E) rhs v of
     Some (Inr (calls, v')) \<Rightarrow> Some v' | _ \<Rightarrow> None)"

section \<open>Conversions\<close>

text \<open>A time in microseconds divided by \<open>1e3\<close>, a \<open>double\<close>, and converted to an integer.\<close>

definition ms_of_us :: "'p tsb_env \<Rightarrow> u64 \<Rightarrow> rat" where
  "ms_of_us E us = dbl (tsb_bi E) (dbl (tsb_bi E) (of_nat (unat us)) / 1000)"

definition time_t_of_f :: "rat \<Rightarrow> u64 option" where
  "time_t_of_f x =
     (if - (2 ^ 63) - 1 < x \<and> x < 2 ^ 63 then Some (word_of_int (if x < 0 then - \<lfloor>- x\<rfloor> else \<lfloor>x\<rfloor>)) else None)"

section \<open>Queries\<close>

definition getTotalBufferByteCount :: "'p tsb_env \<Rightarrow> 'p TimeShiftBufferConsumer \<Rightarrow> u64" where
  "getTotalBufferByteCount E s = getTotalBufferCount (tsb_pool E) (mRingBufferPool s) * chunk_bytes E"

definition getSeekOffset :: "'p TimeShiftBufferConsumer \<Rightarrow> u64" where
  "getSeekOffset s = mSeekByteOffset s"

definition getActualBufferByteSize :: "'p TimeShiftBufferConsumer \<Rightarrow> u64 option" where
  "getActualBufferByteSize s = getIndexSizeInBytes (mBufIndexer s)"

definition getBufferCapacityByteSize :: "'p tsb_env \<Rightarrow> 'p TimeShiftBufferConsumer \<Rightarrow> u64" where
  "getBufferCapacityByteSize E s = (getBufferCapacity (mBufIndexer s) - 1) * chunk_bytes E * word_of_nat BUFFER_SAMPLING_RATIO"

definition getPlayerState :: "'p TimeShiftBufferConsumer \<Rightarrow> PlayerState" where
  "getPlayerState s = mPlayerState s"

definition getTrickPlaySpeed :: "'p TimeShiftBufferConsumer \<Rightarrow> u16" where
  "getTrickPlaySpeed s = mTrickPlaySpeed s"

definition getMaxSeekTime :: "'p tsb_env \<Rightarrow> 'p TimeShiftBufferConsumer \<Rightarrow> u64 option" where
  "getMaxSeekTime E s = do { us \<leftarrow> getIndexSizeInTimeUs (mBufIndexer s); time_t_of_f (ms_of_us E us) }"

definition getTimestampUsForCurrentByteReadIndex :: "'p tsb_env \<Rightarrow> 'p TimeShiftBufferConsumer \<Rightarrow> u64 option" where
  "getTimestampUsForCurrentByteReadIndex E s = (case mHandles s of
     [] \<Rightarrow> None
   | (h, ctx) # _ \<Rightarrow>
       map_option snd (getTimestampUsForByteIndex (tsb_bi E) (getCurrentReadOffset ctx - mSeekByteOffset s) 0 (mBufIndexer s)))"

definition getSeekTime :: "'p tsb_env \<Rightarrow> 'p TimeShiftBufferConsumer \<Rightarrow> (u64 \<times> 'p TimeShiftBufferConsumer) option" where
  "getSeekTime E s = do {
     (r, t, bi) \<leftarrow> getTimeUsFromByteOffset (tsb_bi E) (mSeekByteOffset s) 0 (mBufIndexer s);
     let seekTime = t + getAccumulatedTimeInMicroSeconds (mPauseTimeMonitor s);
     ms \<leftarrow> time_t_of_f (ms_of_us E seekTime);
     Some (ms, s\<lparr>mBufIndexer := bi\<rparr>)
   }"

section \<open>Stream\<close>

definition tsb_post :: "'p tsb_env \<Rightarrow> u64 \<Rightarrow> int \<Rightarrow> bytes \<Rightarrow> 'p TimeShiftBufferConsumer \<Rightarrow> 'p TimeShiftBufferConsumer option" where
  "tsb_post E nowUs now chunk s =
     (if \<not> mIsStreaming s then Some s
      else let s = s\<lparr>mRingBufferPool := queueBuffer (tsb_pool E) chunk (mRingBufferPool s)\<rparr>;
               (ret, bi) = registerBufferCount (tsb_bi E) nowUs (getTotalBufferByteCount E s) (mBufIndexer s);
               s = s\<lparr>mBufIndexer := bi\<rparr>
           in if mPlayerState s \<noteq> PAUSED then Some s
              else let s = (if fst ret \<and> snd ret = 1 then on_watchdog wd_start s else s)
                   in if mIsPaused s then
                        (case mHandles s of
                           [] \<Rightarrow> None
                         | (h, ctx) # rest \<Rightarrow>
                             let livePos = getTotalBufferByteCount E s; actualPos = getCurrentReadOffset ctx;
                                 deltaBytes = (if livePos > actualPos then livePos - actualPos else 0);
                                 mon = (if livePos > actualPos then stopTimeInterval (mPauseTimeMonitor s)
                                        else updateTimeInterval now (mPauseTimeMonitor s));
                                 s = s\<lparr>mPauseTimeMonitor := mon, mHandles := (h, incReadOffset deltaBytes ctx) # rest,
                                       mSeekByteOffset := mSeekByteOffset s + deltaBytes\<rparr>
                             in do {
                               maxSize \<leftarrow> getIndexSizeInBytes (mBufIndexer s);
                               Some (if maxSize < mSeekByteOffset s then s\<lparr>mSeekByteOffset := maxSize\<rparr> else s)
                             })
                      else Some (s\<lparr>mPauseTimeMonitor := updateTimeInterval now (mPauseTimeMonitor s)\<rparr>))"

definition tsb_readData ::
    "'p tsb_env \<Rightarrow> u64 \<Rightarrow> bytes \<Rightarrow> 'p TimeShiftBufferConsumer \<Rightarrow> nat \<times> bytes \<times> 'p TimeShiftBufferConsumer" where
  "tsb_readData E handle data s =
     (let s = (if map_of (mHandles s) handle = None
               then s\<lparr>mHandles := map_put handle (initReadOffset (getTotalBufferByteCount E s) HandleContext_new) (mHandles s)\<rparr>
               else s);
          hCtx = the (map_of (mHandles s) handle);
          bufferPoolOffset = getCurrentReadOffset hCtx - mSeekByteOffset s;
          (got, pool) = readRandomAccess (tsb_pool E) (length data) bufferPoolOffset (mRingBufferPool s);
          readSize = length got;
          data = got @ drop readSize data;
          s = s\<lparr>mRingBufferPool := pool\<rparr>;
          s = (if readSize > 0 then s\<lparr>mHandles := map_put handle (incReadOffset (word_of_nat readSize) hCtx) (mHandles s)\<rparr> else s);
          s = (if mPlayerState s = PAUSED then on_watchdog wd_restart s else s);
          s = s\<lparr>mSocketCalls := mSocketCalls s @ [Dump_send data]\<rparr>
      in (readSize, data, s))"

definition tsb_release :: "u64 \<Rightarrow> 'p TimeShiftBufferConsumer \<Rightarrow> 'p TimeShiftBufferConsumer" where
  "tsb_release handle s = s\<lparr>mHandles := filter (\<lambda>(h, ctx). h \<noteq> handle) (mHandles s)\<rparr>"

definition tsb_onOpen :: "'p TimeShiftBufferConsumer \<Rightarrow> 'p TimeShiftBufferConsumer" where
  "tsb_onOpen s =
     (let s = s\<lparr>mIsStreaming := True\<rparr>
      in case mTsDumpEnable s of
           None \<Rightarrow> s
         | Some on \<Rightarrow> s\<lparr>mSocketCalls := mSocketCalls s @ [if on then Dump_start else Dump_stop]\<rparr>)"

definition updateTrickPlayFile :: "'p tsb_env \<Rightarrow> 'p TimeShiftBufferConsumer \<Rightarrow> 'p TimeShiftBufferConsumer option" where
  "updateTrickPlayFile E s = do {
     v \<leftarrow> tsb_assign E (str_bytes (int_dec (sint (mTrickPlaySpeed s)))) (mTrickPlayFile s);
     Some (s\<lparr>mTrickPlayFile := v\<rparr>)
   }"

definition tsb_reset :: "'p tsb_env \<Rightarrow> int \<Rightarrow> 'p TimeShiftBufferConsumer \<Rightarrow> 'p TimeShiftBufferConsumer option" where
  "tsb_reset E now s = do {
     let s = (if mSeekByteOffset s \<noteq> 0
              then s\<lparr>mHandles := map (\<lambda>(h, ctx). (h, initReadOffset (getTotalBufferByteCount E s) ctx)) (mHandles s)\<rparr> else s);
     s \<leftarrow> updateTrickPlayFile E (s\<lparr>mSeekByteOffset := 0, mTrickPlaySpeed := 1\<rparr>);
     let s = s\<lparr>mRingBufferPool := enableReadThrottling (tsb_pool E) True (mRingBufferPool s),
               mTrickPlayTimer := cet_stop (mTrickPlayTimer s), mBufIndexer := bi_clear (mBufIndexer s)\<rparr>;
     Some ((on_watchdog wd_clear s)\<lparr>mPauseTimeMonitor := tim_reset now, mIsPaused := False\<rparr>)
   }"

definition tsb_onEndOfStream :: "'p tsb_env \<Rightarrow> int \<Rightarrow> 'p TimeShiftBufferConsumer \<Rightarrow> 'p TimeShiftBufferConsumer option" where
  "tsb_onEndOfStream E now s =
     tsb_reset E now (s\<lparr>mIsStreaming := False, mRingBufferPool := clearToLastRead (tsb_pool E) (mRingBufferPool s)\<rparr>)"

definition interruptReads :: "'p tsb_env \<Rightarrow> 'p TimeShiftBufferConsumer \<Rightarrow> 'p TimeShiftBufferConsumer" where
  "interruptReads E s = s\<lparr>mRingBufferPool := abortAllOperations (tsb_pool E) (mRingBufferPool s)\<rparr>"

section \<open>Seek and trick play\<close>

text \<open>The variable \<open>byteOffset\<close> is not initialised; the indexer writes it in every case in which it is read.\<close>

definition seek_done :: "'p tsb_env \<Rightarrow> int \<Rightarrow> u64 \<Rightarrow> 'p TimeShiftBufferConsumer \<Rightarrow> 'p TimeShiftBufferConsumer" where
  "seek_done E now byteOffset s =
     (let s = (on_watchdog wd_clear (s\<lparr>mSeekByteOffset := byteOffset\<rparr>))\<lparr>mPauseTimeMonitor := tim_reset now\<rparr>;
          s = s\<lparr>mHandles := map (\<lambda>(h, ctx). (h, initReadOffset (getTotalBufferByteCount E s) ctx)) (mHandles s)\<rparr>
      in if mPlayerState s = PAUSED then on_watchdog wd_start s else s)"

definition setSeekTime :: "'p tsb_env \<Rightarrow> int \<Rightarrow> u64 \<Rightarrow> 'p TimeShiftBufferConsumer \<Rightarrow> (bool \<times> 'p TimeShiftBufferConsumer) option" where
  "setSeekTime E now seekTime s = do {
     us \<leftarrow> getIndexSizeInTimeUs (mBufIndexer s);
     maxSeekTime \<leftarrow> u64_of_f (ms_of_us E us);
     let seekTime = (if seekTime > maxSeekTime then maxSeekTime else seekTime);
     target \<leftarrow> u64_of_f (dbl (tsb_bi E) (dbl (tsb_bi E) (of_int (sint seekTime)) * 1000));
     (r, byteOffset, bi) \<leftarrow> getByteOffsetFromTimeUs (tsb_bi E) target 0 (mBufIndexer s);
     let s = s\<lparr>mBufIndexer := bi\<rparr>;
     (case r of
        BUF_OUT_OF_RANGE \<Rightarrow> Some (False, s)
      | BUF_EMPTY \<Rightarrow> Some (False, s)
      | BUF_OK \<Rightarrow> Some (True, seek_done E now byteOffset s))
   }"

definition setPlayerState :: "PlayerState \<Rightarrow> 'p TimeShiftBufferConsumer \<Rightarrow> 'p TimeShiftBufferConsumer option" where
  "setPlayerState state s = (case state of
     PLAYING \<Rightarrow>
       let s = on_watchdog wd_stop s
       in Some (s\<lparr>mPauseTimeMonitor := stopTimeInterval (mPauseTimeMonitor s), mIsPaused := False, mPlayerState := state\<rparr>)
   | PAUSED \<Rightarrow> do {
       n \<leftarrow> getIndexSizeInBytes (mBufIndexer s);
       Some ((if n \<noteq> 0 then on_watchdog wd_start s else s)\<lparr>mPlayerState := state\<rparr>)
     }
   | _ \<Rightarrow> Some s)"

definition setTrickPlaySpeed :: "'p tsb_env \<Rightarrow> u16 \<Rightarrow> 'p TimeShiftBufferConsumer \<Rightarrow> (bool \<times> 'p TimeShiftBufferConsumer) option" where
  "setTrickPlaySpeed E speed s =
     (if speed \<noteq> 0 \<and> speed \<noteq> mTrickPlaySpeed s
      then do {
        s \<leftarrow> updateTrickPlayFile E (s\<lparr>mTrickPlaySpeed := speed, mTrickPlayTimer := snd (cet_start (mTrickPlayTimer s))\<rparr>);
        Some (True, s)
      }
      else Some (False, s))"

text \<open>
  \<open>updateTrickPlayPosition\<close>: whether to stop, the new position and the new speed; the end of the buffer
  is needed, and read, only for a rewind.
\<close>

definition trick_position :: "int \<Rightarrow> int \<Rightarrow> int \<Rightarrow> bool \<times> int \<times> int" where
  "trick_position speed currentSeek maxSeek =
     (if speed = 1 then (True, currentSeek, speed)
      else let deltaSeek = uint TRICK_PLAY_RATE_MS * speed
           in if deltaSeek < 0
              then let newSeek = currentSeek - deltaSeek + uint TRICK_PLAY_RATE_MS
                   in if newSeek < maxSeek then (False, newSeek, speed) else (True, newSeek, 1)
              else let newSeek = currentSeek - deltaSeek - uint TRICK_PLAY_RATE_MS
                   in if newSeek > 0 then (False, newSeek, speed) else (True, 0, 1))"

definition updateTrickPlayPosition ::
    "'p tsb_env \<Rightarrow> int \<Rightarrow> 'p TimeShiftBufferConsumer \<Rightarrow> (bool \<times> 'p TimeShiftBufferConsumer) option" where
  "updateTrickPlayPosition E now s = do {
     (currentSeek, s) \<leftarrow> getSeekTime E s;
     maxSeek \<leftarrow> (if sint (mTrickPlaySpeed s) < 0 then getMaxSeekTime E s else Some 0);
     let (stopTrickPlay, newSeek, speed) = trick_position (sint (mTrickPlaySpeed s)) (sint currentSeek) (sint maxSeek);
     let s = s\<lparr>mTrickPlaySpeed := word_of_int speed,
               mRingBufferPool := enableReadThrottling (tsb_pool E) stopTrickPlay (mRingBufferPool s)\<rparr>;
     (r, s) \<leftarrow> setSeekTime E now (word_of_int newSeek) s;
     v \<leftarrow> tsb_assign E (str_bytes ''seek change'') (mFlush s);
     let s = s\<lparr>mFlush := v\<rparr>;
     s \<leftarrow> (if mTrickPlaySpeed s = 1 then updateTrickPlayFile E s else Some s);
     Some (stopTrickPlay, s)
   }"

end
