(* ===== verification/Channel_Config.thy ===== *)
theory Channel_Config
  imports Cpp_Strings
begin

text \<open>
  Channel addresses (\<open>include/ChannelConfig.h\<close>): a URI such as \<open>234.80.160.204:5900/?sourceIp=2.3.4.5\<close> gives
  the destination address and port and the source address. The two regular expressions of \<open>boost\<close> are parameters
  that return the matched groups; \<open>inet_aton\<close> is a parameter whose value is in host order, \<open>None\<close> when
  it fails. Its result is not checked: after a failure the address is read without having been set, which is
  \<open>None\<close> here too.
\<close>

record cc_env =
  match_uri :: "string \<Rightarrow> (string \<times> string \<times> string) option"
  match_source :: "string \<Rightarrow> (string \<times> string) option"
  to_lower :: "string \<Rightarrow> string"
  inet_aton :: "string \<Rightarrow> u32 option"

record ChannelConfig =
  cc_mIsValid :: bool
  destinationIp :: u32
  destIPDotDecimal :: string
  cc_port :: u16
  sourceIp :: u32
  srcIPDotDecimal :: string

definition ChannelConfig_default :: ChannelConfig where
  "ChannelConfig_default = \<lparr>cc_mIsValid = False, destinationIp = 0, destIPDotDecimal = '''', cc_port = 0,
     sourceIp = 0, srcIPDotDecimal = ''''\<rparr>"

definition SOURCE_IP_STR :: string where "SOURCE_IP_STR = ''sourceip''"
definition DEFAULT_SOCKET_PORT :: u16 where "DEFAULT_SOCKET_PORT = 8433"
definition USHRT_MAX :: int where "USHRT_MAX = 65535"

text \<open>The address, the port and the source address; each stays empty when its part does not match.\<close>

definition cc_extract :: "cc_env \<Rightarrow> string \<Rightarrow> string \<times> string \<times> string" where
  "cc_extract E URI =
     (let (address, p, srcS) = (case match_uri E URI of
        None \<Rightarrow> ('''', '''', '''')
      | Some (a, tmp, s) \<Rightarrow> (a, if length tmp > 1 then drop 1 tmp else '''', s));
          sIp = (case match_source E srcS of
        None \<Rightarrow> ''''
      | Some (sip, addr) \<Rightarrow> if to_lower E sip = SOURCE_IP_STR then addr else '''')
      in (address, p, sIp))"

definition parseIPV4string :: "cc_env \<Rightarrow> string \<Rightarrow> u32 option" where
  "parseIPV4string E ipAddress = inet_aton E ipAddress"

definition cc_portIn :: "string \<Rightarrow> u16 \<Rightarrow> int" where
  "cc_portIn dstPort defaultPort =
     (if dstPort \<noteq> '''' then (case stoi dstPort of Inl e \<Rightarrow> uint defaultPort | Inr i \<Rightarrow> i) else uint defaultPort)"

definition ChannelConfig_new :: "cc_env \<Rightarrow> string \<Rightarrow> u16 \<Rightarrow> ChannelConfig option" where
  "ChannelConfig_new E uri defaultPort =
     (let (dstIp, dstPort, srcIp) = cc_extract E uri
      in if dstIp = '''' then Some ChannelConfig_default
         else
           let portIn = cc_portIn dstPort defaultPort
           in if portIn \<le> 0 \<or> portIn \<ge> USHRT_MAX then Some ChannelConfig_default
              else do {
                dst \<leftarrow> parseIPV4string E dstIp;
                let c = ChannelConfig_default\<lparr>cc_mIsValid := True, cc_port := word_of_int portIn, destinationIp := dst,
                          destIPDotDecimal := dstIp\<rparr>;
                if srcIp \<noteq> '''' then do {
                  src \<leftarrow> parseIPV4string E srcIp;
                  Some (c\<lparr>sourceIp := src, srcIPDotDecimal := srcIp\<rparr>)
                } else Some (c\<lparr>sourceIp := 0\<rparr>)
              })"

definition cc_IsValid :: "ChannelConfig \<Rightarrow> bool" where
  "cc_IsValid c = cc_mIsValid c"

section \<open>Ports\<close>

lemma config_port_range:
  assumes "ChannelConfig_new E uri dp = Some c" and "cc_IsValid c"
  shows "0 < cc_port c \<and> cc_port c < 65535"
proof -
  obtain dst p src where x: "cc_extract E uri = (dst, p, src)" by (cases "cc_extract E uri")
  define i where "i = cc_portIn p dp"
  have i: "0 < i" "i < 65535" "cc_port c = word_of_int i"
    using assms unfolding ChannelConfig_new_def x i_def
    by (auto simp: cc_IsValid_def ChannelConfig_default_def USHRT_MAX_def Let_def
        split: if_splits Option.bind_splits)
  then have "uint (word_of_int i :: u16) = i" by (simp add: uint_word_of_int)
  then show ?thesis using i by (simp add: word_less_def)
qed

text \<open>The highest port number of all is refused: the comparison with \<open>USHRT_MAX\<close> is not strict.\<close>

theorem port_65535_rejected:
  assumes "match_uri E uri = Some (ip, '':65535'', srcS)"
  shows "ChannelConfig_new E uri dp = Some ChannelConfig_default"
proof -
  have "stoi ''65535'' = Inr 65535" by (simp add: stoi_def sto_int_def sto_number_def isspace_def isdigit_def dec_val_def digit_val_def)
  then show ?thesis using assms by (auto simp: ChannelConfig_new_def cc_extract_def Let_def USHRT_MAX_def cc_portIn_def split: option.split)
qed

text \<open>An address that the expression accepts and \<open>inet_aton\<close> does not: the constructor reads an address that nobody set.\<close>

theorem bad_address_read_unset:
  assumes "match_uri E uri = Some (ip, '''', srcS)" "ip \<noteq> ''''" "inet_aton E ip = None" "0 < dp" "dp < 65535"
  shows "ChannelConfig_new E uri dp = None"
proof -
  have "0 < uint dp" "uint dp < 65535" using assms(4,5) by (simp_all add: word_less_def)
  then show ?thesis using assms
    by (auto simp: ChannelConfig_new_def cc_extract_def Let_def USHRT_MAX_def cc_portIn_def parseIPV4string_def split: option.split)
qed

end
