(* ===== verification/Network_Route.thy ===== *)
theory Network_Route
  imports Prelude "HOL-Library.Multiset"
begin

text \<open>
  The monitor of the default route (\<open>NetworkRouteMonitor\<close>) and the observer that turns a change of the route
  into a message for the media source (\<open>NetworkRouteObserver\<close>). A buffer received from the netlink socket is
  the list of the messages that the macros of the kernel headers find in it; \<open>inet_ntop\<close>,
  \<open>if_indextoname\<close> and the order in which \<open>std::sort\<close> leaves equal elements are parameters.
\<close>

section \<open>Routes\<close>

record routeInfo =
  ri_interface :: string
  ri_gateway :: string
  ri_metric :: u32

datatype rtattr = RTA_GATEWAY bytes | RTA_OIF u32 | RTA_PRIORITY u32 | RTA_OTHER

datatype nlmsg = RTM_NEWROUTE "rtattr list" | RTM_DELROUTE "rtattr list" | RTM_OTHER

text \<open>\<open>inet_ntop\<close> and \<open>if_indextoname\<close> leave the output buffer alone when they fail.\<close>

record route_env =
  inet_ntop :: "bytes \<Rightarrow> string option"
  if_indextoname :: "u32 \<Rightarrow> string option"
  sort_routes :: "routeInfo list \<Rightarrow> routeInfo list"

text \<open>What the standard says of \<open>std::sort\<close> with the comparison of the metrics.\<close>

definition sort_ok :: "(routeInfo list \<Rightarrow> routeInfo list) \<Rightarrow> bool" where
  "sort_ok srt \<longleftrightarrow> (\<forall>rs. mset (srt rs) = mset rs \<and> sorted (map ri_metric (srt rs)))"

fun route_attrs :: "route_env \<Rightarrow> rtattr list \<Rightarrow> string \<Rightarrow> string \<Rightarrow> routeInfo \<Rightarrow> routeInfo" where
  "route_attrs E [] gateway_address ifc route = route"
| "route_attrs E (a # as) gateway_address ifc route = (case a of
     RTA_GATEWAY d \<Rightarrow>
       (let g = (case inet_ntop E d of None \<Rightarrow> gateway_address | Some s \<Rightarrow> s)
        in route_attrs E as g ifc (route\<lparr>ri_gateway := g\<rparr>))
   | RTA_OIF n \<Rightarrow>
       (let i = (case if_indextoname E n of None \<Rightarrow> ifc | Some s \<Rightarrow> s)
        in route_attrs E as gateway_address i (route\<lparr>ri_interface := i\<rparr>))
   | RTA_PRIORITY m \<Rightarrow> route_attrs E as gateway_address ifc (route\<lparr>ri_metric := m\<rparr>)
   | RTA_OTHER \<Rightarrow> route_attrs E as gateway_address ifc route)"

definition getRouteInfo :: "route_env \<Rightarrow> rtattr list \<Rightarrow> routeInfo" where
  "getRouteInfo E rth = route_attrs E rth '''' '''' \<lparr>ri_interface = '''', ri_gateway = '''', ri_metric = 0\<rparr>"

section \<open>Messages\<close>

datatype MessageType = UNDEFINED_MESSAGE | NO_GATEWAY | NEW_GATEWAY | NO_MULTICAST

record NetworkMessage =
  msg_what :: MessageType
  msg_interface :: string

definition NetworkMessage_of :: "MessageType \<Rightarrow> NetworkMessage" where
  "NetworkMessage_of what = \<lparr>msg_what = what, msg_interface = ''''\<rparr>"

definition NetworkMessage_new :: "MessageType \<Rightarrow> string \<Rightarrow> NetworkMessage" where
  "NetworkMessage_new what ifc = \<lparr>msg_what = what, msg_interface = ifc\<rparr>"

text \<open>The message that the observer pushes.\<close>

definition defaultRouteChanged :: "routeInfo \<Rightarrow> NetworkMessage" where
  "defaultRouteChanged route =
     (if ri_interface route = '''' then NetworkMessage_of NO_GATEWAY
      else NetworkMessage_new NEW_GATEWAY (ri_interface route))"

section \<open>The monitor\<close>

text \<open>
  A callback is a number. The list \<open>nr_sent\<close> has the messages that each callback has pushed so far.
\<close>

record NetworkRouteMonitor =
  nStateCbs :: "nat list"
  mRMonThread :: bool
  mRequestExit :: bool
  mRoute :: routeInfo
  mDefaultRoutes :: "routeInfo list"
  nr_sent :: "(nat \<times> NetworkMessage) list"

definition NO_ROUTE :: routeInfo where
  "NO_ROUTE = \<lparr>ri_interface = '''', ri_gateway = '''', ri_metric = 65535\<rparr>"

definition NetworkRouteMonitor_new :: NetworkRouteMonitor where
  "NetworkRouteMonitor_new = \<lparr>nStateCbs = [], mRMonThread = False, mRequestExit = False, mRoute = NO_ROUTE,
     mDefaultRoutes = [], nr_sent = []\<rparr>"

definition registerCallback :: "nat \<Rightarrow> NetworkRouteMonitor \<Rightarrow> NetworkRouteMonitor" where
  "registerCallback cb m = m\<lparr>nStateCbs := nStateCbs m @ [cb]\<rparr>"

definition nrm_start :: "NetworkRouteMonitor \<Rightarrow> NetworkRouteMonitor" where
  "nrm_start m = (if \<not> mRMonThread m then m\<lparr>mRMonThread := True\<rparr> else m)"

text \<open>
  The dump request. The header is as long as the two structures of the kernel headers, and the flags are
  \<open>NLM_F_DUMP | NLM_F_REQUEST\<close>; \<open>send\<close> is the socket call; the counter is a static variable.
\<close>

record nlmsghdr =
  nlmsg_len :: u32
  nlmsg_type :: u16
  nlmsg_flags :: u16
  nlmsg_seq :: u32
  nlmsg_pid :: u32

definition sendRouteDumpRequest :: "(nlmsghdr \<Rightarrow> int) \<Rightarrow> u64 \<Rightarrow> u64 \<Rightarrow> u32 \<Rightarrow> bool \<times> u32" where
  "sendRouteDumpRequest send pthread_self getpid msgSeq =
     (let nlMsg = \<lparr>nlmsg_len = 16 + 12, nlmsg_type = 26, nlmsg_flags = 0x300 OR 1, nlmsg_seq = msgSeq,
                   nlmsg_pid = ucast (push_bit 16 pthread_self OR getpid)\<rparr>
      in (\<not> send nlMsg < 0, msgSeq + 1))"

text \<open>
  \<open>stop\<close> joins the thread, which has to receive the answer to the dump request first: \<open>sent\<close> is the result of
  \<open>sendRouteDumpRequest\<close>, and without it the call does not return.
\<close>

definition nrm_stop :: "bool \<Rightarrow> NetworkRouteMonitor \<Rightarrow> NetworkRouteMonitor option" where
  "nrm_stop sent m =
     (let m = m\<lparr>mRequestExit := True\<rparr>
      in if mRMonThread m then (if sent then Some m else None) else Some m)"

text \<open>
  The loop over the callbacks. \<open>expired\<close> is the answer of the weak pointer, \<open>locked\<close> tells whether \<open>lock\<close>
  finds the object still there a moment later. The loop does not advance over an expired pointer. Erasing from the
  vector invalidates the iterator that was advanced before, which the loop uses next: undefined behaviour.
\<close>

partial_function (option) dispatch_loop ::
    "(nat \<Rightarrow> bool) \<Rightarrow> (nat \<Rightarrow> bool) \<Rightarrow> routeInfo \<Rightarrow> nat list \<Rightarrow> nat \<Rightarrow> (nat \<times> NetworkMessage) list \<Rightarrow>
     (nat \<times> NetworkMessage) list option" where
  "dispatch_loop expired locked route cbs it sent =
     (if it < length cbs then
        if expired (cbs ! it) then dispatch_loop expired locked route cbs it sent
        else if locked (cbs ! it) then
          dispatch_loop expired locked route cbs (Suc it) (sent @ [(cbs ! it, defaultRouteChanged route)])
        else None
      else Some sent)"

definition dispatchDefaultRouteChange ::
    "(nat \<Rightarrow> bool) \<Rightarrow> (nat \<Rightarrow> bool) \<Rightarrow> NetworkRouteMonitor \<Rightarrow> NetworkRouteMonitor option" where
  "dispatchDefaultRouteChange expired locked m =
     (let route = (case mDefaultRoutes m of [] \<Rightarrow> NO_ROUTE | r # rs \<Rightarrow> r)
      in if ri_interface route \<noteq> ri_interface (mRoute m) then do {
           sent \<leftarrow> dispatch_loop expired locked route (nStateCbs m) 0 (nr_sent m);
           Some (m\<lparr>mRoute := route, nr_sent := sent\<rparr>)
         } else Some m)"

text \<open>One message of a received buffer: whether the gateways have changed, and the new state.\<close>

definition route_message :: "route_env \<Rightarrow> nlmsg \<Rightarrow> bool \<times> NetworkRouteMonitor \<Rightarrow> bool \<times> NetworkRouteMonitor" where
  "route_message E msg = (\<lambda>(gatewayUpdated, m). case msg of
     RTM_NEWROUTE rth \<Rightarrow>
       (let route = getRouteInfo E rth
        in if ri_gateway route \<noteq> ''''
           then (True, m\<lparr>mDefaultRoutes := sort_routes E (mDefaultRoutes m @ [route])\<rparr>) else (gatewayUpdated, m))
   | RTM_DELROUTE rth \<Rightarrow>
       (let route = getRouteInfo E rth
        in if ri_interface route \<noteq> ''''
           then (True, m\<lparr>mDefaultRoutes :=
                   filter (\<lambda>vw. \<not> (ri_interface vw = ri_interface route \<and>
                                   (ri_metric vw = ri_metric route \<or> ri_metric route = 0))) (mDefaultRoutes m)\<rparr>)
           else (gatewayUpdated, m))
   | RTM_OTHER \<Rightarrow> (gatewayUpdated, m))"

text \<open>One pass of the receiving loop.\<close>

definition route_recv ::
    "route_env \<Rightarrow> (nat \<Rightarrow> bool) \<Rightarrow> (nat \<Rightarrow> bool) \<Rightarrow> nlmsg list \<Rightarrow> NetworkRouteMonitor \<Rightarrow> NetworkRouteMonitor option" where
  "route_recv E expired locked msgs m =
     (if mRequestExit m then Some m
      else let (gatewayUpdated, m') = fold (route_message E) msgs (False, m)
           in if gatewayUpdated then dispatchDefaultRouteChange expired locked m' else Some m')"

text \<open>
  The thread as a step relation. Every buffer comes with the callbacks that are expired at that time; \<open>lock\<close>
  succeeds for the others. Buffers are no longer received once the exit is requested.
\<close>

inductive route_step :: "route_env \<Rightarrow> NetworkRouteMonitor \<Rightarrow> NetworkRouteMonitor \<Rightarrow> bool" for E where
  step_register: "route_step E m (registerCallback cb m)"
| step_start: "route_step E m (nrm_start m)"
| step_recv: "mRMonThread m \<Longrightarrow> route_recv E expired (\<lambda>cb. \<not> expired cb) msgs m = Some m' \<Longrightarrow> route_step E m m'"
| step_stop: "nrm_stop sent m = Some m' \<Longrightarrow> route_step E m m'"

section \<open>The loop over the callbacks\<close>

lemma dispatch_loop_all:
  assumes "\<forall>cb\<in>set (drop it cbs). \<not> expired cb \<and> locked cb"
  shows "dispatch_loop expired locked route cbs it sent =
         Some (sent @ map (\<lambda>cb. (cb, defaultRouteChanged route)) (drop it cbs))"
  using assms
proof (induction "length cbs - it" arbitrary: it sent)
  case 0
  then show ?case by (simp add: dispatch_loop.simps)
next
  case (Suc n)
  then have lt: "it < length cbs" by simp
  then have d: "drop it cbs = cbs ! it # drop (Suc it) cbs" by (simp add: Cons_nth_drop_Suc)
  have "dispatch_loop expired locked route cbs (Suc it) (sent @ [(cbs ! it, defaultRouteChanged route)]) =
        Some ((sent @ [(cbs ! it, defaultRouteChanged route)]) @ map (\<lambda>cb. (cb, defaultRouteChanged route)) (drop (Suc it) cbs))"
    using Suc d by (intro Suc.hyps(1)) auto
  then show ?case using lt d Suc.prems by (subst dispatch_loop.simps) simp
qed

lemma dispatch_loop_Some:
  "dispatch_loop expired locked route cbs it sent = Some r \<Longrightarrow>
     \<forall>cb\<in>set (drop it cbs). \<not> expired cb \<and> locked cb"
proof (erule dispatch_loop.raw_induct [rotated,
    where P = "\<lambda>expired locked route cbs it sent r. \<forall>cb\<in>set (drop it cbs). \<not> expired cb \<and> locked cb"])
  fix f :: "(nat \<Rightarrow> bool) \<Rightarrow> (nat \<Rightarrow> bool) \<Rightarrow> routeInfo \<Rightarrow> nat list \<Rightarrow> nat \<Rightarrow> (nat \<times> NetworkMessage) list \<Rightarrow>
     (nat \<times> NetworkMessage) list option"
  fix expired locked :: "nat \<Rightarrow> bool" and route cbs it sent r
  assume IH: "\<And>expired locked route cbs it sent r. f expired locked route cbs it sent = Some r \<Longrightarrow>
      \<forall>cb\<in>set (drop it cbs). \<not> expired cb \<and> locked cb"
    and eq: "(if it < length cbs then
        if expired (cbs ! it) then f expired locked route cbs it sent
        else if locked (cbs ! it) then f expired locked route cbs (Suc it) (sent @ [(cbs ! it, defaultRouteChanged route)])
        else None
      else Some sent) = Some r"
  show "\<forall>cb\<in>set (drop it cbs). \<not> expired cb \<and> locked cb"
  proof (cases "it < length cbs")
    case True
    then have "drop it cbs = cbs ! it # drop (Suc it) cbs" by (simp add: Cons_nth_drop_Suc)
    then show ?thesis using eq True IH[of expired locked route cbs it sent r]
        IH[of expired locked route cbs "Suc it" "sent @ [(cbs ! it, defaultRouteChanged route)]" r]
      by (auto split: if_splits)
  qed simp
qed

text \<open>
  When the interface of the default route changes and a registered callback has expired, the dispatch never
  returns: the monitor thread spins with the mutex held.
\<close>

theorem expired_callback_never_returns:
  assumes "cb \<in> set (nStateCbs m)" and "expired cb"
    and "ri_interface (case mDefaultRoutes m of [] \<Rightarrow> NO_ROUTE | r # rs \<Rightarrow> r) \<noteq> ri_interface (mRoute m)"
  shows "dispatchDefaultRouteChange expired locked m = None"
proof (cases "dispatch_loop expired locked (case mDefaultRoutes m of [] \<Rightarrow> NO_ROUTE | r # rs \<Rightarrow> r) (nStateCbs m) 0 (nr_sent m)")
  case None
  then show ?thesis using assms(3) by (simp add: dispatchDefaultRouteChange_def Let_def)
next
  case (Some r)
  then show ?thesis using dispatch_loop_Some[OF Some] assms by auto
qed

section \<open>The route in use\<close>

definition routes_sorted :: "NetworkRouteMonitor \<Rightarrow> bool" where
  "routes_sorted m \<longleftrightarrow> sorted (map ri_metric (mDefaultRoutes m)) \<and> (\<forall>r\<in>set (mDefaultRoutes m). ri_gateway r \<noteq> '''')"

text \<open>The messages of one callback, in order.\<close>

definition sent_by :: "nat \<Rightarrow> NetworkRouteMonitor \<Rightarrow> NetworkMessage list" where
  "sent_by cb m = map snd (filter (\<lambda>p. fst p = cb) (nr_sent m))"

text \<open>
  The routes stay sorted, the route in use is the first one, and the last message of every callback names it.
\<close>

definition route_told :: "NetworkRouteMonitor \<Rightarrow> bool" where
  "route_told m \<longleftrightarrow> fst ` set (nr_sent m) \<subseteq> set (nStateCbs m) \<and>
     (\<forall>cb. sent_by cb m \<noteq> [] \<longrightarrow> last (sent_by cb m) = defaultRouteChanged (mRoute m))"

definition route_ok :: "NetworkRouteMonitor \<Rightarrow> bool" where
  "route_ok m \<longleftrightarrow> routes_sorted m \<and> route_told m \<and>
     ri_interface (mRoute m) = ri_interface (case mDefaultRoutes m of [] \<Rightarrow> NO_ROUTE | r # rs \<Rightarrow> r)"

lemma sort_ok_set: "sort_ok srt \<Longrightarrow> set (srt rs) = set rs"
  unfolding sort_ok_def by (metis set_mset_mset)

lemma route_message_ok:
  assumes "sort_ok (sort_routes E)" "routes_sorted (snd gm)"
  shows "routes_sorted (snd (route_message E msg gm))"
    and "mRoute (snd (route_message E msg gm)) = mRoute (snd gm)"
    and "nr_sent (snd (route_message E msg gm)) = nr_sent (snd gm)"
    and "nStateCbs (snd (route_message E msg gm)) = nStateCbs (snd gm)"
    and "fst gm \<Longrightarrow> fst (route_message E msg gm)"
    and "\<not> fst (route_message E msg gm) \<Longrightarrow> mDefaultRoutes (snd (route_message E msg gm)) = mDefaultRoutes (snd gm)"
  using assms sort_ok_set[OF assms(1)]
  by (auto simp: route_message_def routes_sorted_def sort_ok_def Let_def sorted_filter split: nlmsg.split prod.split)

lemma route_messages_ok:
  assumes "sort_ok (sort_routes E)" "routes_sorted (snd gm)"
  shows "routes_sorted (snd (fold (route_message E) msgs gm)) \<and>
     mRoute (snd (fold (route_message E) msgs gm)) = mRoute (snd gm) \<and>
     nr_sent (snd (fold (route_message E) msgs gm)) = nr_sent (snd gm) \<and>
     nStateCbs (snd (fold (route_message E) msgs gm)) = nStateCbs (snd gm) \<and>
     (fst gm \<longrightarrow> fst (fold (route_message E) msgs gm)) \<and>
     (\<not> fst (fold (route_message E) msgs gm) \<longrightarrow> mDefaultRoutes (snd (fold (route_message E) msgs gm)) = mDefaultRoutes (snd gm))"
  using assms(2)
proof (induction msgs arbitrary: gm)
  case (Cons msg msgs)
  note m = route_message_ok[OF assms(1) Cons.prems, of msg]
  show ?case using Cons.IH[OF m(1)] m(2-6) by auto
qed simp

lemma sent_by_append:
  assumes "nr_sent m' = nr_sent m @ map (\<lambda>c. (c, x)) cs"
  shows "sent_by cb m' = sent_by cb m @ replicate (length (filter ((=) cb) cs)) x"
proof -
  have "map snd (filter (\<lambda>p. fst p = cb) (map (\<lambda>c. (c, x)) cs)) = replicate (length (filter ((=) cb) cs)) x"
    by (induction cs) auto
  then show ?thesis using assms by (simp add: sent_by_def)
qed

text \<open>What a dispatch that returns does, and that it returns while every callback is alive.\<close>

lemma dispatch_ok:
  assumes m: "routes_sorted m" "route_told m" and ret: "dispatchDefaultRouteChange expired locked m = Some m'"
  shows "route_ok m' \<and> nStateCbs m' = nStateCbs m"
proof (cases "ri_interface (case mDefaultRoutes m of [] \<Rightarrow> NO_ROUTE | r # rs \<Rightarrow> r) = ri_interface (mRoute m)")
  case True
  then show ?thesis using assms by (auto simp: dispatchDefaultRouteChange_def route_ok_def)
next
  case False
  define r where "r = (case mDefaultRoutes m of [] \<Rightarrow> NO_ROUTE | r # rs \<Rightarrow> r)"
  obtain sent where d: "dispatch_loop expired locked r (nStateCbs m) 0 (nr_sent m) = Some sent"
    and m': "m' = m\<lparr>mRoute := r, nr_sent := sent\<rparr>"
    using ret False by (auto simp: dispatchDefaultRouteChange_def r_def Let_def split: Option.bind_splits)
  have sent: "sent = nr_sent m @ map (\<lambda>cb. (cb, defaultRouteChanged r)) (nStateCbs m)"
    using dispatch_loop_all[OF dispatch_loop_Some[OF d]] d by simp
  have "last (sent_by cb m') = defaultRouteChanged (mRoute m')" if ne: "sent_by cb m' \<noteq> []" for cb
  proof -
    have s: "sent_by cb m' = sent_by cb m @ replicate (length (filter ((=) cb) (nStateCbs m))) (defaultRouteChanged r)"
      by (rule sent_by_append) (simp add: m' sent)
    have "cb \<in> set (nStateCbs m)"
      using ne m(2) by (auto simp: route_told_def sent_by_def m' sent filter_empty_conv)
    then have "length (filter ((=) cb) (nStateCbs m)) \<noteq> 0" by (auto simp: filter_empty_conv)
    then show ?thesis using s by (simp add: m' last_append)
  qed
  then show ?thesis using m
    by (auto simp: route_ok_def route_told_def routes_sorted_def m' sent r_def)
qed

lemma dispatch_returns:
  assumes "\<forall>cb\<in>set (nStateCbs m). \<not> expired cb \<and> locked cb"
  shows "dispatchDefaultRouteChange expired locked m \<noteq> None"
  using assms by (simp add: dispatchDefaultRouteChange_def dispatch_loop_all Let_def)

lemma route_recv_ok:
  assumes srt: "sort_ok (sort_routes E)" and ok: "route_ok m"
  shows "route_recv E expired locked msgs m = Some m' \<Longrightarrow> route_ok m'"
    and "\<forall>cb\<in>set (nStateCbs m). \<not> expired cb \<and> locked cb \<Longrightarrow> route_recv E expired locked msgs m \<noteq> None"
proof -
  obtain g n where f: "fold (route_message E) msgs (False, m) = (g, n)" by fastforce
  have rs: "routes_sorted (snd (False, m))" using ok by (simp add: route_ok_def)
  note k = route_messages_ok[OF srt rs, of msgs, unfolded f, simplified]
  have n: "routes_sorted n" "route_told n" "\<not> g \<Longrightarrow> route_ok n"
    using k ok by (simp_all add: route_ok_def route_told_def sent_by_def)
  show "route_recv E expired locked msgs m = Some m' \<Longrightarrow> route_ok m'"
    using n ok dispatch_ok[OF n(1,2)] f by (auto simp: route_recv_def split: if_splits)
  show "\<forall>cb\<in>set (nStateCbs m). \<not> expired cb \<and> locked cb \<Longrightarrow> route_recv E expired locked msgs m \<noteq> None"
    using dispatch_returns[of n expired locked] k f by (auto simp: route_recv_def)
qed

lemma route_ok_new: "route_ok NetworkRouteMonitor_new"
  by (simp add: NetworkRouteMonitor_new_def route_ok_def route_told_def routes_sorted_def sent_by_def)

lemma route_ok_step:
  assumes "sort_ok (sort_routes E)" "route_ok m" "route_step E m m'"
  shows "route_ok m'"
  using assms(3)
proof cases
  case (step_register cb)
  then show ?thesis using assms(2) by (auto simp: registerCallback_def route_ok_def route_told_def routes_sorted_def sent_by_def)
next
  case step_start
  then show ?thesis using assms(2) by (auto simp: nrm_start_def route_ok_def route_told_def routes_sorted_def sent_by_def)
next
  case (step_recv expired msgs)
  then show ?thesis using route_recv_ok(1)[OF assms(1,2)] by blast
next
  case (step_stop sent)
  then have "m' = m\<lparr>mRequestExit := True\<rparr>" by (auto simp: nrm_stop_def Let_def split: if_splits)
  then show ?thesis using assms(2) by (auto simp: route_ok_def route_told_def routes_sorted_def sent_by_def)
qed

interpretation route: inductive_invariant "\<lambda>m. m = NetworkRouteMonitor_new" "route_step E"
  "\<lambda>m. sort_ok (sort_routes E) \<longrightarrow> route_ok m" for E
  by unfold_locales (auto intro: route_ok_new route_ok_step)


text \<open>Two routes: the cheaper one is in use, and the callback was told.\<close>

definition sample_route_env :: route_env where
  "sample_route_env = \<lparr>inet_ntop = (\<lambda>d. Some ''10.0.0.1''),
     if_indextoname = (\<lambda>n. Some (if n = 1 then ''eth0'' else ''wlan0'')), sort_routes = sort_key ri_metric\<rparr>"

definition sample_buffer :: "nlmsg list" where
  "sample_buffer = [RTM_NEWROUTE [RTA_OIF 2, RTA_GATEWAY [10, 0, 0, 1], RTA_PRIORITY 20],
                    RTM_NEWROUTE [RTA_OIF 1, RTA_GATEWAY [10, 0, 0, 1], RTA_PRIORITY 10]]"

definition sample_monitor :: NetworkRouteMonitor where
  "sample_monitor = \<lparr>nStateCbs = [7], mRMonThread = True, mRequestExit = False,
     mRoute = \<lparr>ri_interface = ''eth0'', ri_gateway = ''10.0.0.1'', ri_metric = 10\<rparr>,
     mDefaultRoutes = [\<lparr>ri_interface = ''eth0'', ri_gateway = ''10.0.0.1'', ri_metric = 10\<rparr>,
                       \<lparr>ri_interface = ''wlan0'', ri_gateway = ''10.0.0.1'', ri_metric = 20\<rparr>],
     nr_sent = [(7, \<lparr>msg_what = NEW_GATEWAY, msg_interface = ''eth0''\<rparr>)]\<rparr>"

lemma sample_sort_ok: "sort_ok (sort_routes sample_route_env)"
  by (simp add: sort_ok_def sample_route_env_def)

lemma sample_recv:
  "route_recv sample_route_env (\<lambda>cb. False) (\<lambda>cb. \<not> False) sample_buffer (nrm_start (registerCallback 7 NetworkRouteMonitor_new))
     = Some sample_monitor"
  by (simp add: route_recv_def sample_buffer_def route_message_def getRouteInfo_def sample_route_env_def nrm_start_def
      registerCallback_def NetworkRouteMonitor_new_def dispatchDefaultRouteChange_def NO_ROUTE_def dispatch_loop_all
      defaultRouteChanged_def NetworkMessage_new_def sample_monitor_def Let_def)

lemma sample_reach: "reach (\<lambda>m. m = NetworkRouteMonitor_new) (route_step sample_route_env) sample_monitor"
proof -
  let ?i = "\<lambda>m. m = NetworkRouteMonitor_new" and ?s = "route_step sample_route_env"
  have "reach ?i ?s NetworkRouteMonitor_new" by (rule reach_init) simp
  then have "reach ?i ?s (registerCallback 7 NetworkRouteMonitor_new)" by (rule reach_step) (rule route_step.step_register)
  then have "reach ?i ?s (nrm_start (registerCallback 7 NetworkRouteMonitor_new))" by (rule reach_step) (rule route_step.step_start)
  then show ?thesis
    by (rule reach_step) (rule route_step.step_recv [OF _ sample_recv], simp add: nrm_start_def registerCallback_def NetworkRouteMonitor_new_def)
qed


end
