(* ===== verification/Media_Source.thy ===== *)
theory Media_Source
  imports Buffer_Queue Monitored_Variable Timers Channel_Config Network_Route
begin

text \<open>
  The media source (\<open>MediaSourceHandler\<close>), the stream processor it feeds (\<open>StreamProcessor\<close>,
  \<open>StreamSource\<close>) and the buffers it shares with the demuxers (\<open>externals.h\<close>, \<open>externals.cpp\<close>). Demuxers,
  consumers and the TCP server are reached through calls that the log \<open>ms_log\<close> records in their order; what a
  demuxer answers is a parameter that may depend on the whole log. \<open>None\<close> is undefined behaviour, a call that
  does not return, or the exit of the process.
\<close>

section \<open>Buffers\<close>

text \<open>
  A C string: up to the first null character. A pointer read before it is set is \<open>Wild_ptr\<close>.
\<close>

definition c_str :: "string \<Rightarrow> string" where
  "c_str s = takeWhile (\<lambda>c. c \<noteq> CHR 0x00) s"

datatype char_ptr = Null_ptr | Str_ptr string | Wild_ptr

definition FEIP_CONNECTION_UNINITIALIZED :: int where "FEIP_CONNECTION_UNINITIALIZED = - 255"
definition NO_BUFFER_RECEIVED_THRESHOLD_MS :: int where "NO_BUFFER_RECEIVED_THRESHOLD_MS = 2000"
definition NO_BUFFER_RECEIVED_RECONFIGURE_THRESHOLD_MS :: int where
  "NO_BUFFER_RECEIVED_RECONFIGURE_THRESHOLD_MS = 5000"
definition NO_CHANNEL_URL :: string where "NO_CHANNEL_URL = ''0.0.0.0:5900''"
definition NOKIA_BUFFER_MAGIC :: string where "NOKIA_BUFFER_MAGIC = ''nkia''"

record bq_buffer =
  bq_magic :: string
  bq_channelInfo :: char_ptr
  bq_id :: u64
  bq_size :: u32
  bq_capacity :: u32
  bq_data :: bytes

text \<open>
  \<open>malloc\<close> returns memory with some contents, of which the channel information and the data stay as they are;
  the second component is the static counter.
\<close>

definition alloc_bq_buffer :: "(char_ptr \<times> bytes) option \<Rightarrow> nat \<Rightarrow> u64 \<Rightarrow> bq_buffer option \<times> u64" where
  "alloc_bq_buffer mem sz counter =
     (let counter = counter + 1
      in (case mem of
            None \<Rightarrow> None
          | Some (info, data) \<Rightarrow> Some \<lparr>bq_magic = NOKIA_BUFFER_MAGIC, bq_channelInfo = info, bq_id = counter,
                                      bq_size = word_of_nat sz, bq_capacity = word_of_nat sz, bq_data = data\<rparr>,
          counter))"

text \<open>Memory: addresses of buffers, 0 is the null pointer.\<close>

type_synonym bq_heap = "nat \<rightharpoonup> bq_buffer"

definition free_bq_buffer :: "nat \<Rightarrow> bq_heap \<Rightarrow> bq_heap option" where
  "free_bq_buffer p m = (if p = 0 then Some m else if m p = None then None else Some (m(p := None)))"

section \<open>Stream processor\<close>

record Buffer =
  buf_channelInfo :: char_ptr
  buf_chunk :: bytes

datatype consumer_call = Post Buffer | Join | OnEndOfStream string | OnOpen string

type_synonym StreamProcessor = "nat list"

definition sp_post :: "Buffer \<Rightarrow> StreamProcessor \<Rightarrow> (nat \<times> consumer_call) list" where
  "sp_post buf mSCons = map (\<lambda>s. (s, Post buf)) mSCons @ map (\<lambda>s. (s, Join)) mSCons"

definition sp_onEndOfStream :: "string \<Rightarrow> StreamProcessor \<Rightarrow> (nat \<times> consumer_call) list" where
  "sp_onEndOfStream channelId mSCons = map (\<lambda>s. (s, OnEndOfStream channelId)) mSCons"

definition sp_onOpen :: "string \<Rightarrow> StreamProcessor \<Rightarrow> (nat \<times> consumer_call) list" where
  "sp_onOpen channelId mSCons = map (\<lambda>s. (s, OnOpen channelId)) mSCons"

section \<open>State\<close>

datatype demux_call =
  D_attach | D_init | D_getChannelStats bool | D_getGlobalStats | D_disconnect int | D_connect
| D_open string string | D_start int | D_informFirstFrameReceived

datatype ms_event =
  Ev_demux u32 demux_call
| Ev_consumer nat consumer_call
| Ev_setCallbackHandler
| Ev_registerCallback
| Ev_notifyStreamSwitched string
| Ev_signal DefferSignalTypes
| Ev_pushMessage NetworkMessage
| Ev_dump_start
| Ev_dump_stop
| Ev_dump_send bytes
| Ev_fwrite bytes

record ms_env =
  ms_packet_size :: nat
  ms_cc :: cc_env
  dmx_connect :: "u32 \<Rightarrow> ms_event list \<Rightarrow> int"
  dmx_globalStats :: "u32 \<Rightarrow> ms_event list \<Rightarrow> string"
  dmx_channelStats :: "u32 \<Rightarrow> bool \<Rightarrow> ms_event list \<Rightarrow> string"
  ms_expired :: "watcher \<Rightarrow> bool"
  ms_callable :: "watcher \<Rightarrow> bool"

record FeipSession =
  connectionId :: int
  firstBufferDisplayed :: bool

definition FeipSession_new :: FeipSession where
  "FeipSession_new = \<lparr>connectionId = 0, firstBufferDisplayed = False\<rparr>"

record MediaSourceHandler =
  mSPr :: StreamProcessor
  mFccBufferQueue :: "nat BufferQueue"
  mSessions :: "(u32 \<times> FeipSession) list"
  ms_exitRequested :: bool
  mDumpInputStreamEnabled :: bool
  mCurrentUri :: string
  bufferRefs :: "nat list"
  ms_tsDumpEnable :: "bool option"
  mLastValidBufferTimeMs :: int
  mBufferSrcLostMVar :: "bytes MVar"
  mCurrentChannelConfig :: ChannelConfig
  mBufferSourceLost :: bool
  mSourceLostCounter :: u32
  ms_heap :: bq_heap
  ms_log :: "ms_event list"

text \<open>Writing through the pointer to a session of the map.\<close>

definition put_session :: "u32 \<Rightarrow> FeipSession \<Rightarrow> (u32 \<times> FeipSession) list \<Rightarrow> (u32 \<times> FeipSession) list" where
  "put_session k v m = map (\<lambda>(k', v'). (k', if k' = k then v else v')) m"

definition ms_note :: "ms_event list \<Rightarrow> MediaSourceHandler \<Rightarrow> MediaSourceHandler" where
  "ms_note es s = s\<lparr>ms_log := ms_log s @ es\<rparr>"

definition src_post :: "Buffer \<Rightarrow> MediaSourceHandler \<Rightarrow> MediaSourceHandler" where
  "src_post b s = ms_note (map (\<lambda>(i, c). Ev_consumer i c) (sp_post b (mSPr s))) s"

definition src_onEndOfStream :: "string \<Rightarrow> MediaSourceHandler \<Rightarrow> MediaSourceHandler" where
  "src_onEndOfStream channelId s = ms_note (map (\<lambda>(i, c). Ev_consumer i c) (sp_onEndOfStream channelId (mSPr s))) s"

definition src_onOpen :: "string \<Rightarrow> MediaSourceHandler \<Rightarrow> MediaSourceHandler" where
  "src_onOpen channelId s = ms_note (map (\<lambda>(i, c). Ev_consumer i c) (sp_onOpen channelId (mSPr s))) s"

section \<open>Lost sources\<close>

definition srcStateToMVar :: "bool \<Rightarrow> MediaSourceHandler \<Rightarrow> bytes" where
  "srcStateToMVar state s =
     str_bytes ((if state then ''1'' else ''0'') @ '','' @ nat_dec (unat (mSourceLostCounter s)))"

definition ms_assign :: "ms_env \<Rightarrow> bytes \<Rightarrow> MediaSourceHandler \<Rightarrow> MediaSourceHandler option" where
  "ms_assign E rhs s = (case mvar_assign (ms_expired E) (ms_callable E) rhs (mBufferSrcLostMVar s) of
     Some (Inr (calls, v)) \<Rightarrow> Some (s\<lparr>mBufferSrcLostMVar := v\<rparr>) | _ \<Rightarrow> None)"

definition reportTSBufferQueued :: "ms_env \<Rightarrow> int \<Rightarrow> MediaSourceHandler \<Rightarrow> MediaSourceHandler option" where
  "reportTSBufferQueued E now s =
     (let s = s\<lparr>mLastValidBufferTimeMs := now\<rparr>
      in if mBufferSourceLost s then
           let s = s\<lparr>mBufferSourceLost := False\<rparr> in ms_assign E (srcStateToMVar (mBufferSourceLost s) s) s
         else Some s)"

section \<open>Construction\<close>

text \<open>The loop of the constructor: \<open>mem i\<close> is what \<open>malloc\<close> returns for the buffer with index \<open>i\<close>.\<close>

fun alloc_loop :: "(nat \<Rightarrow> (char_ptr \<times> bytes) option) \<Rightarrow> nat \<Rightarrow> nat \<Rightarrow> u64 \<times> MediaSourceHandler \<Rightarrow>
    (u64 \<times> MediaSourceHandler) option" where
  "alloc_loop mem i 0 (counter, s) = Some (counter, s)"
| "alloc_loop mem i (Suc n) (counter, s) =
     (let (buf, counter) = alloc_bq_buffer (mem i) FEIP_BUFFER_SIZE counter;
          p = (if buf = None then 0 else Suc i)
      in do {
        q \<leftarrow> bq_release p (mFccBufferQueue s);
        alloc_loop mem (Suc i) n
          (counter, s\<lparr>ms_heap := (if buf = None then ms_heap s else (ms_heap s)(p := buf)),
                      bufferRefs := bufferRefs s @ [p], mFccBufferQueue := q\<rparr>)
      })"

text \<open>
  The members without an initialiser start with the arguments: the variable of the dispatcher and the time of
  the last buffer, which nobody sets before the first channel is opened.
\<close>

definition MediaSourceHandler_new ::
    "ms_env \<Rightarrow> (nat \<Rightarrow> (char_ptr \<times> bytes) option) \<Rightarrow> u64 \<Rightarrow> u32 \<Rightarrow> bool \<Rightarrow> StreamProcessor \<Rightarrow> bool option \<Rightarrow>
     bytes MVar \<Rightarrow> int \<Rightarrow> (u64 \<times> MediaSourceHandler) option" where
  "MediaSourceHandler_new E mem counter dMux cbHandler sProc tsDumpEnable srcLost t0 = do {
     let s = \<lparr>mSPr = sProc, mFccBufferQueue = BufferQueue_new FEIP_DEFAULT_BUFFER_COUNT, mSessions = [],
              ms_exitRequested = False, mDumpInputStreamEnabled = False, mCurrentUri = '''', bufferRefs = [],
              ms_tsDumpEnable = tsDumpEnable, mLastValidBufferTimeMs = t0, mBufferSrcLostMVar = srcLost,
              mCurrentChannelConfig = ChannelConfig_default, mBufferSourceLost = False, mSourceLostCounter = 0,
              ms_heap = (\<lambda>_. None), ms_log = []\<rparr>;
     s \<leftarrow> ms_assign E (srcStateToMVar (mBufferSourceLost s) s) s;
     (counter, s) \<leftarrow> alloc_loop mem 0 FEIP_DEFAULT_BUFFER_COUNT (counter, s);
     let s = ms_note [Ev_demux dMux D_attach, Ev_demux dMux D_init] s;
     let s = s\<lparr>mSessions := [(dMux, FeipSession_new\<lparr>connectionId := FEIP_CONNECTION_UNINITIALIZED\<rparr>)]\<rparr>;
     if cbHandler then Some (counter, ms_note [Ev_setCallbackHandler, Ev_registerCallback] s) else None
   }"

section \<open>Buffers in circulation\<close>

definition returnBufferToBQ :: "nat \<Rightarrow> MediaSourceHandler \<Rightarrow> MediaSourceHandler option" where
  "returnBufferToBQ pBuffer s =
     (if pBuffer \<noteq> 0 then do { q \<leftarrow> bq_release pBuffer (mFccBufferQueue s); Some (s\<lparr>mFccBufferQueue := q\<rparr>) } else Some s)"

definition pushBuffertoBQ :: "nat \<Rightarrow> u32 \<Rightarrow> MediaSourceHandler \<Rightarrow> MediaSourceHandler option" where
  "pushBuffertoBQ pBuffer demuxId s = do {
     b \<leftarrow> ms_heap s pBuffer;
     d \<leftarrow> mem_read (bq_data b) 0 (unat (bq_size b));
     let s = ms_note [Ev_dump_send d] s;
     let s = (if mDumpInputStreamEnabled s then ms_note [Ev_fwrite d] s else s);
     q \<leftarrow> bq_queue pBuffer (mFccBufferQueue s);
     let s = ms_note [Ev_signal DATA_RECEIVED] (s\<lparr>mFccBufferQueue := q\<rparr>);
     session \<leftarrow> map_of (mSessions s) demuxId;
     if \<not> firstBufferDisplayed session then
       Some ((ms_note [Ev_demux demuxId D_informFirstFrameReceived] s)
         \<lparr>mSessions := put_session demuxId (session\<lparr>firstBufferDisplayed := True\<rparr>) (mSessions s)\<rparr>)
     else Some s
   }"

definition acquireBuffer :: "MediaSourceHandler \<Rightarrow> (nat \<times> MediaSourceHandler) option" where
  "acquireBuffer s = do {
     (res, q) \<leftarrow> bq_acquire (mFccBufferQueue s);
     Some (case res of None \<Rightarrow> 0 | Some p \<Rightarrow> p, s\<lparr>mFccBufferQueue := q\<rparr>)
   }"

section \<open>Channels\<close>

definition ms_disconnect :: "u32 \<Rightarrow> MediaSourceHandler \<Rightarrow> MediaSourceHandler option" where
  "ms_disconnect k s = do {
     sess \<leftarrow> map_of (mSessions s) k;
     if connectionId sess = FEIP_CONNECTION_UNINITIALIZED then Some s
     else
       let s = ms_note [Ev_demux k (D_disconnect (connectionId sess))] s;
           s = s\<lparr>mSessions := put_session k (sess\<lparr>connectionId := FEIP_CONNECTION_UNINITIALIZED\<rparr>) (mSessions s)\<rparr>
       in Some (src_onEndOfStream (c_str (mCurrentUri s)) s)
   }"

definition ms_connect :: "ms_env \<Rightarrow> u32 \<Rightarrow> MediaSourceHandler \<Rightarrow> (int \<times> MediaSourceHandler) option" where
  "ms_connect E k s = do {
     sess \<leftarrow> map_of (mSessions s) k;
     let cid = dmx_connect E k (ms_log s);
     let s = ms_note [Ev_demux k D_connect] s;
     Some (cid, if cid \<ge> 0 then s\<lparr>mSessions := put_session k (sess\<lparr>connectionId := cid\<rparr>) (mSessions s)\<rparr> else s)
   }"

definition ts_dump :: "MediaSourceHandler \<Rightarrow> MediaSourceHandler" where
  "ts_dump s = (case ms_tsDumpEnable s of
     None \<Rightarrow> s | Some on \<Rightarrow> ms_note [if on then Ev_dump_start else Ev_dump_stop] s)"

definition ms_open :: "ms_env \<Rightarrow> string \<Rightarrow> u32 \<Rightarrow> int \<Rightarrow> MediaSourceHandler \<Rightarrow> (int \<times> MediaSourceHandler) option" where
  "ms_open E uri demuxer now s =
     (let s = ts_dump s
      in if mCurrentUri s = uri then Some (-1, s)
         else if map_of (mSessions s) demuxer = None then Some (-1, s)
         else do {
           let s = ms_note [Ev_demux demuxer (D_getChannelStats True)] s;
           cc \<leftarrow> ChannelConfig_new (ms_cc E) uri DEFAULT_SOCKET_PORT;
           let s = s\<lparr>mCurrentChannelConfig := cc, mCurrentUri := uri\<rparr>;
           s \<leftarrow> ms_disconnect demuxer s;
           let s = ms_note [Ev_notifyStreamSwitched uri] s;
           if uri = '''' then Some (0, s)
           else do {
             sess \<leftarrow> map_of (mSessions s) demuxer;
             let s = s\<lparr>mSessions := put_session demuxer (sess\<lparr>firstBufferDisplayed := False\<rparr>) (mSessions s)\<rparr>;
             (cid, s) \<leftarrow> ms_connect E demuxer s;
             let s = ms_note [Ev_demux demuxer (D_open uri '''')] s;
             let s = src_onOpen (c_str uri) s;
             Some (0, s\<lparr>mLastValidBufferTimeMs := now\<rparr>)
           }
         })"

definition getCurrentUri :: "MediaSourceHandler \<Rightarrow> string" where
  "getCurrentUri s = mCurrentUri s"

definition isChannelActive :: "MediaSourceHandler \<Rightarrow> bool" where
  "isChannelActive s \<longleftrightarrow> destinationIp (mCurrentChannelConfig s) \<noteq> 0 \<or> take 4 (mCurrentUri s) = ''http''"

definition getGlobalStats :: "ms_env \<Rightarrow> u32 \<Rightarrow> MediaSourceHandler \<Rightarrow> string \<times> MediaSourceHandler" where
  "getGlobalStats E demuxerId s =
     (if map_of (mSessions s) demuxerId = None then ('''', s)
      else (dmx_globalStats E demuxerId (ms_log s), ms_note [Ev_demux demuxerId D_getGlobalStats] s))"

definition getChannelStats :: "ms_env \<Rightarrow> u32 \<Rightarrow> MediaSourceHandler \<Rightarrow> string \<times> MediaSourceHandler" where
  "getChannelStats E demuxerId s =
     (if map_of (mSessions s) demuxerId = None then ('''', s)
      else (dmx_channelStats E demuxerId False (ms_log s), ms_note [Ev_demux demuxerId (D_getChannelStats False)] s))"

datatype demuxer_status = PAT_PMT_UPDATED | OTHER_STATUS

definition notifyStatusChanged :: "demuxer_status \<Rightarrow> int \<Rightarrow> u32 \<Rightarrow> MediaSourceHandler \<Rightarrow> MediaSourceHandler" where
  "notifyStatusChanged status feipId demuxSessionId s =
     (if map_of (mSessions s) demuxSessionId = None then s
      else if status = PAT_PMT_UPDATED then ms_note [Ev_demux demuxSessionId (D_start feipId)] s else s)"

section \<open>Threads\<close>

text \<open>
  The inner loop of the consumer: \<open>pos\<close> is where \<open>buffStartPos\<close> points in the buffer.
\<close>

partial_function (option) assemble ::
    "nat \<Rightarrow> char_ptr \<Rightarrow> bytes \<Rightarrow> nat \<Rightarrow> u32 \<Rightarrow> bytes \<times> nat \<times> MediaSourceHandler \<Rightarrow> (bytes \<times> nat \<times> MediaSourceHandler) option" where
  "assemble csz info buf pos remainingInputBytes st =
     (if remainingInputBytes > 0 then (case st of (chunk, offset, s) \<Rightarrow>
        let remaining_bytes = word_of_nat (csz - offset) :: u32;
            copy_bytes = min remaining_bytes remainingInputBytes
        in Option.bind (mem_read buf pos (unat copy_bytes)) (\<lambda>d.
           Option.bind (mem_write chunk offset d) (\<lambda>chunk.
             let s = (if unat copy_bytes + offset = csz then src_post \<lparr>buf_channelInfo = info, buf_chunk = chunk\<rparr> s else s)
             in assemble csz info buf (pos + unat copy_bytes) (remainingInputBytes - copy_bytes)
                  (chunk, (offset + unat copy_bytes) mod csz, s))))
      else Some st)"

text \<open>One pass of \<open>consumerLoop\<close>; \<open>elapsed\<close> tells whether the second of waiting has passed.\<close>

definition consumer_pass :: "nat \<Rightarrow> bool \<Rightarrow> bytes \<times> nat \<times> MediaSourceHandler \<Rightarrow> (bytes \<times> nat \<times> MediaSourceHandler) option" where
  "consumer_pass csz elapsed = (\<lambda>(chunk, offset, s). do {
     (ok, tmpBuf, q) \<leftarrow> bq_consume_for elapsed (mFccBufferQueue s);
     if \<not> ok then Some (chunk, offset, s\<lparr>mFccBufferQueue := q\<rparr>)
     else do {
       p \<leftarrow> tmpBuf;
       b \<leftarrow> ms_heap s p;
       (chunk, offset, s) \<leftarrow> assemble csz (bq_channelInfo b) (bq_data b) 0 (bq_size b) (chunk, offset, s\<lparr>mFccBufferQueue := q\<rparr>);
       q \<leftarrow> bq_release p (mFccBufferQueue s);
       Some (chunk, offset, s\<lparr>mFccBufferQueue := q\<rparr>)
     }
   })"

text \<open>
  Null packets over the whole buffer: the body of the loop runs at least once. The size \<open>ts\<close> of a transport packet
  is \<open>TS_PACKAGE_SIZE\<close> of \<open>streamfs/config.h\<close>; below four bytes, the number of bytes to clear would wrap around.
\<close>

definition null_packet :: "nat \<Rightarrow> bytes" where
  "null_packet ts = [0x47, 0x00 OR 0x1f, 0xff, 0x10] @ replicate (ts - 4) 0"

function null_packets :: "nat \<Rightarrow> nat \<Rightarrow> nat \<Rightarrow> bytes \<Rightarrow> bytes option" where
  "null_packets ts b sz d =
     (if ts < 4 then None
      else do {
        d \<leftarrow> mem_write d b (null_packet ts);
        if b + ts < sz then null_packets ts (b + ts) sz d else Some d
      })"
  by pat_completeness auto
termination by (relation "measure (\<lambda>(ts, b, sz, d). sz - b)") auto

declare null_packets.simps [simp del]

definition injectNullBuffers :: "ms_env \<Rightarrow> MediaSourceHandler \<Rightarrow> MediaSourceHandler option" where
  "injectNullBuffers E s = do {
     (p, s) \<leftarrow> acquireBuffer s;
     b \<leftarrow> ms_heap s p;
     d \<leftarrow> null_packets (ms_packet_size E) 0 (unat (bq_size b)) (bq_data b);
     pushBuffertoBQ p 0 (s\<lparr>ms_heap := (ms_heap s)(p \<mapsto> b\<lparr>bq_data := d\<rparr>)\<rparr>)
   }"

text \<open>One pass of \<open>dataMonitorLoop\<close> at the time \<open>currentTime\<close>.\<close>

definition monitor_pass :: "ms_env \<Rightarrow> int \<Rightarrow> MediaSourceHandler \<Rightarrow> MediaSourceHandler option" where
  "monitor_pass E currentTime s =
     (if destinationIp (mCurrentChannelConfig s) \<noteq> 0 then
        let diff = currentTime - mLastValidBufferTimeMs s
        in if diff > NO_BUFFER_RECEIVED_RECONFIGURE_THRESHOLD_MS then
             Some (ms_note [Ev_pushMessage (NetworkMessage_of NO_MULTICAST)] s)
           else if diff > NO_BUFFER_RECEIVED_THRESHOLD_MS then do {
             s \<leftarrow> (if \<not> mBufferSourceLost s then
                    let s = s\<lparr>mBufferSourceLost := True, mSourceLostCounter := mSourceLostCounter s + 1\<rparr>
                    in ms_assign E (srcStateToMVar (mBufferSourceLost s) s) s
                  else Some s);
             injectNullBuffers E s
           } else Some s
      else Some s)"

text \<open>Reconfiguring one session after the multicast stream has stopped.\<close>

definition ms_rejoin :: "ms_env \<Rightarrow> u32 \<Rightarrow> MediaSourceHandler \<Rightarrow> MediaSourceHandler option" where
  "ms_rejoin E k s = do {
     sess \<leftarrow> map_of (mSessions s) k;
     let s = (if connectionId sess \<noteq> FEIP_CONNECTION_UNINITIALIZED then
                (ms_note [Ev_demux k (D_disconnect (connectionId sess))] s)
                  \<lparr>mSessions := put_session k (sess\<lparr>connectionId := FEIP_CONNECTION_UNINITIALIZED\<rparr>) (mSessions s)\<rparr>
              else s);
     (cid, s) \<leftarrow> ms_connect E k s;
     Some (ms_note [Ev_demux k (D_open (mCurrentUri s) '''')] s)
   }"

fun ms_rejoin_all :: "ms_env \<Rightarrow> u32 list \<Rightarrow> MediaSourceHandler \<Rightarrow> MediaSourceHandler option" where
  "ms_rejoin_all E [] s = Some s"
| "ms_rejoin_all E (k # ks) s = do { s \<leftarrow> ms_rejoin E k s; ms_rejoin_all E ks s }"

text \<open>One message of \<open>messageLoop\<close>.\<close>

definition message_pass :: "ms_env \<Rightarrow> int \<Rightarrow> NetworkMessage \<Rightarrow> MediaSourceHandler \<Rightarrow> MediaSourceHandler option" where
  "message_pass E now msg s = (case msg_what msg of
     NO_GATEWAY \<Rightarrow> Some (ms_note (map (\<lambda>k. Ev_demux k (D_open NO_CHANNEL_URL ''lo'')) (map fst (mSessions s))) s)
   | NEW_GATEWAY \<Rightarrow>
       Some (ms_note (map (\<lambda>k. Ev_demux k (D_open (mCurrentUri s) (msg_interface msg))) (map fst (mSessions s)))
         (s\<lparr>mLastValidBufferTimeMs := now\<rparr>))
   | NO_MULTICAST \<Rightarrow> ms_rejoin_all E (map fst (mSessions s)) (s\<lparr>mLastValidBufferTimeMs := now\<rparr>)
   | UNDEFINED_MESSAGE \<Rightarrow> Some s)"

section \<open>Destruction\<close>

fun free_refs :: "nat list \<Rightarrow> bq_heap \<Rightarrow> bq_heap option" where
  "free_refs [] m = Some m"
| "free_refs (p # ps) m = do { m \<leftarrow> free_bq_buffer p m; free_refs ps m }"

text \<open>
  The consumer and the monitor see the flag after a second at the latest. The message thread sees it only after
  another message, which \<open>message\<close> tells; without one, the join does not return.
\<close>

definition ms_destroy :: "bool \<Rightarrow> MediaSourceHandler \<Rightarrow> MediaSourceHandler option" where
  "ms_destroy message s =
     (let s = s\<lparr>ms_exitRequested := True\<rparr>
      in if \<not> message then None
         else do {
           m \<leftarrow> free_refs (bufferRefs s) (ms_heap s);
           Some (s\<lparr>mFccBufferQueue := bq_clear (mFccBufferQueue s), ms_heap := m\<rparr>)
         })"

end
