(* ===== verification/Config_Handlers.thy ===== *)
theory Config_Handlers
  imports Time_Shift_Buffer Media_Source Protection
begin

text \<open>
  The handlers behind the file system nodes (\<open>confighandler/\<close>) and their table (\<open>FCCConfigHandlers\<close>). All of
  them work on one state: the time-shift buffer, the media source, the variables, and what each handler keeps for
  itself. Calls of \<open>notifyUpdate\<close> are recorded. A result is \<open>None\<close> for undefined behaviour or a call
  that does not return, \<open>Inl\<close> for an exception that leaves the handler.
\<close>

section \<open>State\<close>

record ('p, 'f) fcc_env =
  fe_tsb :: "'p tsb_env"
  fe_ms :: ms_env
  fe_float :: "'f float_ops"
  fe_hex :: hex_fn
  fe_norm :: "string \<Rightarrow> string"
  fe_signed_char :: bool
  PROJECT_MAJOR_VERSION :: nat
  PROJECT_MINOR_VERSION :: nat
  PROJECT_REVISION :: string
  getpid :: u64

text \<open>The clocks at the time of a call: monotonic time (unless it fails), milliseconds, and the time-shift buffer's times.\<close>

record fcc_clock =
  ck_monotonic :: "(int \<times> int) option"
  ck_ms :: int
  ck_us :: u64
  ck_now :: int

datatype ConfigHandler = ChannelSelector | PlayerStateRequestHandler | SeekRequestHandler | TrickPlayRequestHandler
  | StatsRequestHandler | StreamInfoRequestHandler | ProtectionInfoHandler | CdmStatusHandler

record 'p fcc =
  fc_tsb :: "'p TimeShiftBufferConsumer"
  fc_media :: MediaSourceHandler
  fc_protection :: ProtectionInfoRequestHandler
  fc_vars :: "bytes vmd"
  mIsCdmSetupDone :: "bool MVar"
  mCdmConfigComplete :: bool
  mLastRequestTime :: "int \<times> int"
  mGlobalStats :: string
  mChannelStats :: string
  configMap :: "(u64 \<times> string) list"
  mConfigHandlers :: "(ConfigType \<times> ConfigHandler) list"
  fc_notified :: "FsNode list"

definition fcc_notify :: "FsNode \<Rightarrow> 'p fcc \<Rightarrow> 'p fcc" where
  "fcc_notify variable s = s\<lparr>fc_notified := fc_notified s @ [variable]\<rparr>"

text \<open>\<open>return size\<close>: from \<open>size_t\<close> to \<open>int\<close>.\<close>

definition ret_size :: "nat \<Rightarrow> int" where
  "ret_size n = sint (word_of_nat n :: u32)"

definition CONFIG_ITEMS_SEPARATOR :: string where "CONFIG_ITEMS_SEPARATOR = '',''"

definition node_hash :: "('p, 'f) fcc_env \<Rightarrow> string \<Rightarrow> u32" where
  "node_hash E fileName = hashStr (fe_signed_char E) (c_str fileName)"

definition bytes_str :: "bytes \<Rightarrow> string" where
  "bytes_str bs = map (\<lambda>b. char_of (unat b)) bs"

text \<open>Division by a positive number, rounding towards zero.\<close>

definition c_div :: "int \<Rightarrow> int \<Rightarrow> int" where
  "c_div a b = (if a < 0 then - ((- a) div b) else a div b)"

section \<open>The table\<close>

text \<open>\<open>strncmp\<close> over the length of the entry: a longer file name matches, too.\<close>

definition file_name_to_ConfigType :: "string \<Rightarrow> ConfigType" where
  "file_name_to_ConfigType filename =
     (case find (\<lambda>(config_file, t). take (length config_file) (c_str filename) = config_file) config_handlers_g of
        None \<Rightarrow> UNDEFINED | Some (config_file, t) \<Rightarrow> t)"

definition handler_of :: "ConfigType \<Rightarrow> ConfigHandler option" where
  "handler_of t = (case t of
     CHANNEL_SELECT \<Rightarrow> Some ChannelSelector
   | PLAYER_STATE \<Rightarrow> Some PlayerStateRequestHandler
   | SEEK_CONTROL \<Rightarrow> Some SeekRequestHandler
   | TRICK_PLAY \<Rightarrow> Some TrickPlayRequestHandler
   | STATS_CONTROL \<Rightarrow> Some StatsRequestHandler
   | STREAM_INFO \<Rightarrow> Some StreamInfoRequestHandler
   | PROTECTION_INFO \<Rightarrow> Some ProtectionInfoHandler
   | CDM_STATUS \<Rightarrow> Some CdmStatusHandler
   | UNDEFINED \<Rightarrow> None)"

text \<open>\<open>emplace\<close> does nothing when the key is there.\<close>

fun init_table :: "(FsNode \<times> ConfigType) list \<Rightarrow> (ConfigType \<times> ConfigHandler) list \<Rightarrow> (ConfigType \<times> ConfigHandler) list" where
  "init_table [] m = m"
| "init_table ((f, t) # es) m = (case handler_of t of
     None \<Rightarrow> init_table es m
   | Some h \<Rightarrow> init_table es (if map_of m t = None then m @ [(t, h)] else m))"

definition initConfigHandlers :: "'p fcc \<Rightarrow> 'p fcc" where
  "initConfigHandlers s = s\<lparr>mConfigHandlers := init_table config_handlers_g (mConfigHandlers s)\<rparr>"

definition targetToConfigHandler :: "string \<Rightarrow> 'p fcc \<Rightarrow> ConfigHandler option" where
  "targetToConfigHandler b s = map_of (mConfigHandlers s) (file_name_to_ConfigType b)"

section \<open>Seeking\<close>

definition SECONDS_TO_MILLISECONDS :: nat where "SECONDS_TO_MILLISECONDS = 1000"

definition seek_writeConfig :: "('p, 'f) fcc_env \<Rightarrow> fcc_clock \<Rightarrow> string \<Rightarrow> nat \<Rightarrow> 'p fcc \<Rightarrow> (exn + int \<times> 'p fcc) option" where
  "seek_writeConfig E ck buf sz s = (case stoull buf of
     Inl Invalid_argument \<Rightarrow> Some (Inr (-1, s))
   | Inl e \<Rightarrow> Some (Inl e)
   | Inr seekValue \<Rightarrow> do {
       (ok, tsb) \<leftarrow> setSeekTime (fe_tsb E) (ck_now ck) (seekValue * word_of_nat SECONDS_TO_MILLISECONDS) (fc_tsb s);
       if ok then do {
         v \<leftarrow> tsb_assign (fe_tsb E) (str_bytes ''seek change'') (mFlush tsb);
         Some (Inr (ret_size sz, s\<lparr>fc_tsb := tsb\<lparr>mFlush := v\<rparr>\<rparr>))
       } else Some (Inr (-1, s\<lparr>fc_tsb := tsb\<rparr>))
     })"

definition seek_getConfig :: "('p, 'f) fcc_env \<Rightarrow> 'p fcc \<Rightarrow> (string \<times> 'p fcc) option" where
  "seek_getConfig E s = do {
     (t, tsb) \<leftarrow> getSeekTime (fe_tsb E) (fc_tsb s);
     m \<leftarrow> getMaxSeekTime (fe_tsb E) tsb;
     n \<leftarrow> getActualBufferByteSize tsb;
     Some (int_dec (c_div (sint t) (int SECONDS_TO_MILLISECONDS)) @ CONFIG_ITEMS_SEPARATOR @
           int_dec (c_div (sint m) (int SECONDS_TO_MILLISECONDS)) @ CONFIG_ITEMS_SEPARATOR @
           nat_dec (unat (getSeekOffset tsb)) @ CONFIG_ITEMS_SEPARATOR @
           nat_dec (unat n) @ CONFIG_ITEMS_SEPARATOR @
           nat_dec (unat (getBufferCapacityByteSize (fe_tsb E) tsb)), s\<lparr>fc_tsb := tsb\<rparr>)
   }"

section \<open>Trick play\<close>

definition trick_writeConfig :: "('p, 'f) fcc_env \<Rightarrow> string \<Rightarrow> nat \<Rightarrow> 'p fcc \<Rightarrow> (exn + int \<times> 'p fcc) option" where
  "trick_writeConfig E buf sz s = (case stoi buf of
     Inl Invalid_argument \<Rightarrow> Some (Inr (-1, s))
   | Inl e \<Rightarrow> Some (Inl e)
   | Inr i \<Rightarrow> do {
       (ok, tsb) \<leftarrow> setTrickPlaySpeed (fe_tsb E) (word_of_int i) (fc_tsb s);
       Some (Inr (if ok then ret_size sz else -1, s\<lparr>fc_tsb := tsb\<rparr>))
     })"

definition trick_getConfig :: "'p fcc \<Rightarrow> string" where
  "trick_getConfig s = int_dec (sint (getTrickPlaySpeed (fc_tsb s)))"

section \<open>Player state\<close>

definition player_writeConfig :: "('p, 'f) fcc_env \<Rightarrow> string \<Rightarrow> nat \<Rightarrow> 'p fcc \<Rightarrow> (exn + int \<times> 'p fcc) option" where
  "player_writeConfig E buf sz s =
     (let playerState = PlayerStateEnum_of_string (fe_norm E) buf
      in if pse_isValid playerState then do {
           st \<leftarrow> pse_enumValue playerState;
           tsb \<leftarrow> setPlayerState st (fc_tsb s);
           Some (Inr (ret_size sz, s\<lparr>fc_tsb := tsb\<rparr>))
         } else Some (Inr (-1, s)))"

definition player_getPlayerState :: "'p fcc \<Rightarrow> string" where
  "player_getPlayerState s = pse_stringValue (PlayerStateEnum_of_enum (getPlayerState (fc_tsb s)))"

section \<open>Decryption status\<close>

definition cdm_writeConfig :: "('p, 'f) fcc_env \<Rightarrow> string \<Rightarrow> nat \<Rightarrow> 'p fcc \<Rightarrow> (exn + int \<times> 'p fcc) option" where
  "cdm_writeConfig E buf sz s = (case stoi buf of
     Inl Invalid_argument \<Rightarrow> Some (Inr (-1, s))
   | Inl e \<Rightarrow> Some (Inl e)
   | Inr i \<Rightarrow>
       if i = 1 then
         (case mvar_assign (ms_expired (fe_ms E)) (ms_callable (fe_ms E)) True (mIsCdmSetupDone s) of
            Some (Inr (calls, v)) \<Rightarrow> Some (Inr (ret_size sz, s\<lparr>mIsCdmSetupDone := v, mCdmConfigComplete := True\<rparr>))
          | _ \<Rightarrow> None)
       else Some (Inr (-1, s)))"

definition cdm_notifyConfigurationChanged :: "FsNode \<Rightarrow> bool \<Rightarrow> 'p fcc \<Rightarrow> 'p fcc" where
  "cdm_notifyConfigurationChanged var value s = s\<lparr>mCdmConfigComplete := value\<rparr>"

definition cdm_getConfig :: "'p fcc \<Rightarrow> string" where
  "cdm_getConfig s = (if mValue (mIsCdmSetupDone s) then ''1'' else ''0'')"

section \<open>Stream information and statistics\<close>

definition info_variable :: "('p, 'f) fcc_env \<Rightarrow> string \<Rightarrow> ConfigVariableId option" where
  "info_variable E fileName =
     (if node_hash E fileName = node_hash E CONFIG_F_FCC_STREAM_INFO_PMT then Some kPmt0
      else if node_hash E fileName = node_hash E CONFIG_F_FCC_STREAM_INFO_PAT then Some kPat0
      else if node_hash E fileName = node_hash E CONFIG_F_FCC_STREAM_INFO_ECM then Some kEcm0
      else None)"

definition info_getConfig :: "('p, 'f) fcc_env \<Rightarrow> string \<Rightarrow> 'p fcc \<Rightarrow> (string \<times> 'p fcc) option" where
  "info_getConfig E fileName s = (case info_variable E fileName of
     None \<Rightarrow> Some (''Not supported'', s)
   | Some v \<Rightarrow> do {
       (var, m) \<leftarrow> getVariable [] v (fc_vars s);
       Some (bytes_str (MVar_getValue var), s\<lparr>fc_vars := m\<rparr>)
     })"

definition info_writeConfig :: "int" where
  "info_writeConfig = -1"

definition stats_getConfig :: "('p, 'f) fcc_env \<Rightarrow> string \<Rightarrow> 'p fcc \<Rightarrow> string \<times> 'p fcc" where
  "stats_getConfig E fileName s =
     (let h = node_hash E fileName
      in if h = node_hash E CONFIG_F_STATS_SW_VERSION then
           (nat_dec (PROJECT_MAJOR_VERSION E) @ ''.'' @ nat_dec (PROJECT_MINOR_VERSION E) @ ''-'' @ PROJECT_REVISION E @ [CHR 0x0A], s)
         else if h = node_hash E CONFIG_F_STREAMFS_PID then (nat_dec (unat (getpid E)) @ [CHR 0x0A], s)
         else if h = node_hash E CONFIG_F_STAT_GLOBAL then
           (let (r, m) = getGlobalStats (fe_ms E) 0 (fc_media s) in (r, s\<lparr>mGlobalStats := r, fc_media := m\<rparr>))
         else if h = node_hash E CONFIG_F_STAT_CHANNEL then
           (let (r, m) = getChannelStats (fe_ms E) 0 (fc_media s) in (r, s\<lparr>mChannelStats := r, fc_media := m\<rparr>))
         else if h = node_hash E CONFIG_F_STREAM_STATUS then (bytes_str (mValue (mBufferSrcLostMVar (fc_media s))), s)
         else (''NOT IMPLEMENTED'', s))"

definition stats_writeConfig :: "int" where
  "stats_writeConfig = -1"

section \<open>Channels\<close>

text \<open>
  The media source calls its consumers while it opens a channel. The time-shift buffer is the consumer 0; the calls
  that the log has gained are made on it.
\<close>

fun tsb_deliver :: "('p, 'f) fcc_env \<Rightarrow> fcc_clock \<Rightarrow> ms_event list \<Rightarrow> 'p TimeShiftBufferConsumer \<Rightarrow> 'p TimeShiftBufferConsumer option" where
  "tsb_deliver E ck [] t = Some t"
| "tsb_deliver E ck (e # es) t = (case e of
     Ev_consumer i c \<Rightarrow>
       if i = 0 then (case c of
           Post b \<Rightarrow> Option.bind (tsb_post (fe_tsb E) (ck_us ck) (ck_now ck) (buf_chunk b) t) (tsb_deliver E ck es)
         | OnEndOfStream ch \<Rightarrow> Option.bind (tsb_onEndOfStream (fe_tsb E) (ck_now ck) t) (tsb_deliver E ck es)
         | OnOpen ch \<Rightarrow> tsb_deliver E ck es (tsb_onOpen t)
         | Join \<Rightarrow> tsb_deliver E ck es t)
       else tsb_deliver E ck es t
   | _ \<Rightarrow> tsb_deliver E ck es t)"

definition fcc_media_open :: "('p, 'f) fcc_env \<Rightarrow> fcc_clock \<Rightarrow> string \<Rightarrow> 'p fcc \<Rightarrow> (int \<times> 'p fcc) option" where
  "fcc_media_open E ck uri s = do {
     (rc, m) \<leftarrow> ms_open (fe_ms E) uri 0 (ck_ms ck) (fc_media s);
     tsb \<leftarrow> tsb_deliver E ck (drop (length (ms_log (fc_media s))) (ms_log m)) (fc_tsb s);
     Some (rc, s\<lparr>fc_media := m, fc_tsb := tsb\<rparr>)
   }"

definition chan_writeConfig :: "('p, 'f) fcc_env \<Rightarrow> fcc_clock \<Rightarrow> string \<Rightarrow> string \<Rightarrow> nat \<Rightarrow> 'p fcc \<Rightarrow> (exn + int \<times> 'p fcc) option" where
  "chan_writeConfig E ck fileName buf sz s = do {
     let s = (case ck_monotonic ck of None \<Rightarrow> s | Some t \<Rightarrow> s\<lparr>mLastRequestTime := t\<rparr>);
     let tmp = filter (\<lambda>c. c \<noteq> CHR 0x0A) buf;
     (rc, s) \<leftarrow> (if fileName = CONFIG_F_CHANNEL_SELECT then fcc_media_open E ck tmp s else Some (-1, s));
     let s = fcc_notify fileName s;
     if rc = 0 then
       Some (Inr (ret_size sz, if isChannelActive (fc_media s) then s else s\<lparr>fc_tsb := interruptReads (fe_tsb E) (fc_tsb s)\<rparr>))
     else Some (Inr (-1, s))
   }"

definition chan_getConfig :: "string \<Rightarrow> 'p fcc \<Rightarrow> string" where
  "chan_getConfig fileName s =
     (if fileName = CONFIG_F_CHANNEL_SELECT_TIMESTAMP then
        nat_dec (unat (word_of_int (fst (mLastRequestTime s) * 1000 + c_div (snd (mLastRequestTime s)) 1000000) :: u64))
      else getCurrentUri (fc_media s))"

section \<open>The virtual calls\<close>

definition writeConfig ::
    "('p, 'f) fcc_env \<Rightarrow> fcc_clock \<Rightarrow> ConfigHandler \<Rightarrow> string \<Rightarrow> string \<Rightarrow> nat \<Rightarrow> 'p fcc \<Rightarrow> (exn + int \<times> 'p fcc) option" where
  "writeConfig E ck h fileName buf sz s = (case h of
     ChannelSelector \<Rightarrow> chan_writeConfig E ck fileName buf sz s
   | PlayerStateRequestHandler \<Rightarrow> player_writeConfig E buf sz s
   | SeekRequestHandler \<Rightarrow> seek_writeConfig E ck buf sz s
   | TrickPlayRequestHandler \<Rightarrow> trick_writeConfig E buf sz s
   | StatsRequestHandler \<Rightarrow> Some (Inr (stats_writeConfig, s))
   | StreamInfoRequestHandler \<Rightarrow> Some (Inr (info_writeConfig, s))
   | ProtectionInfoHandler \<Rightarrow> Some (Inr (pih_writeConfig fileName buf sz, s))
   | CdmStatusHandler \<Rightarrow> cdm_writeConfig E buf sz s)"

definition readConfig :: "('p, 'f) fcc_env \<Rightarrow> ConfigHandler \<Rightarrow> string \<Rightarrow> 'p fcc \<Rightarrow> (string \<times> 'p fcc) option" where
  "readConfig E h fileName s = (case h of
     ChannelSelector \<Rightarrow> Some (chan_getConfig fileName s, s)
   | PlayerStateRequestHandler \<Rightarrow> Some (player_getPlayerState s, s)
   | SeekRequestHandler \<Rightarrow> seek_getConfig E s
   | TrickPlayRequestHandler \<Rightarrow> Some (trick_getConfig s, s)
   | StatsRequestHandler \<Rightarrow> Some (stats_getConfig E fileName s)
   | StreamInfoRequestHandler \<Rightarrow> info_getConfig E fileName s
   | ProtectionInfoHandler \<Rightarrow> Some (pih_readConfig (fe_float E) (fe_hex E) (fc_protection s), s)
   | CdmStatusHandler \<Rightarrow> Some (cdm_getConfig s, s))"

text \<open>Every handler but one returns the length of what it would return for a read.\<close>

definition handler_getSize :: "('p, 'f) fcc_env \<Rightarrow> ConfigHandler \<Rightarrow> string \<Rightarrow> 'p fcc \<Rightarrow> (u64 \<times> 'p fcc) option" where
  "handler_getSize E h fileName s = (case h of
     ProtectionInfoHandler \<Rightarrow> Some (pih_getSize (fc_protection s), s)
   | _ \<Rightarrow> map_option (\<lambda>(r, s). (word_of_nat (length r), s)) (readConfig E h fileName s))"

definition getConfigValue :: "('p, 'f) fcc_env \<Rightarrow> u64 \<Rightarrow> string \<Rightarrow> bool \<Rightarrow> 'p fcc \<Rightarrow> (string \<times> 'p fcc) option" where
  "getConfigValue E handle path useCached s = (case targetToConfigHandler path s of
     None \<Rightarrow> Some ('''', s) | Some h \<Rightarrow> readConfig E h path s)"

definition INT64_MAX :: u64 where "INT64_MAX = 2 ^ 63 - 1"

definition getConfigSize :: "('p, 'f) fcc_env \<Rightarrow> string \<Rightarrow> 'p fcc \<Rightarrow> (u64 \<times> 'p fcc) option" where
  "getConfigSize E path s = (case targetToConfigHandler path s of
     None \<Rightarrow> Some (INT64_MAX, s) | Some h \<Rightarrow> handler_getSize E h path s)"

section \<open>The cache\<close>

definition cache_hasKey :: "u64 \<Rightarrow> 'p fcc \<Rightarrow> bool" where
  "cache_hasKey handle s \<longleftrightarrow> map_of (configMap s) handle \<noteq> None"

definition cache_getValue :: "u64 \<Rightarrow> 'p fcc \<Rightarrow> string" where
  "cache_getValue handle s = (case map_of (configMap s) handle of None \<Rightarrow> '''' | Some v \<Rightarrow> v)"

definition cache_remove :: "u64 \<Rightarrow> 'p fcc \<Rightarrow> 'p fcc" where
  "cache_remove handle s = s\<lparr>configMap := filter (\<lambda>(h, v). h \<noteq> handle) (configMap s)\<rparr>"

definition releaseConfigValue :: "u64 \<Rightarrow> 'p fcc \<Rightarrow> 'p fcc" where
  "releaseConfigValue handle s = cache_remove handle s"

end
