(* ===== verification/Time_Shift_Play.thy ===== *)
theory Time_Shift_Play
  imports Time_Shift_Buffer
begin

text \<open>
  What the time-shift buffer guarantees: where handles read after a seek, that trick play returns and when it
  stops, the invariant of the operations that keep the indexer usable, and two faults of the code.
\<close>

section \<open>Reading\<close>

text \<open>Where a handle reads next, before the seek offset is subtracted.\<close>

definition read_offset :: "'p tsb_env \<Rightarrow> u64 \<Rightarrow> 'p TimeShiftBufferConsumer \<Rightarrow> u64" where
  "read_offset E h s = (case map_of (mHandles s) h of None \<Rightarrow> getTotalBufferByteCount E s | Some ctx \<Rightarrow> getCurrentReadOffset ctx)"

text \<open>A sequence of reads of one handle: the positions in the pool and the sizes read.\<close>

fun tsb_reads :: "'p tsb_env \<Rightarrow> u64 \<Rightarrow> bytes list \<Rightarrow> 'p TimeShiftBufferConsumer \<Rightarrow> (u64 \<times> nat) list" where
  "tsb_reads E h [] s = []"
| "tsb_reads E h (d # ds) s =
     (let (n, d', s') = tsb_readData E h d s in (read_offset E h s - mSeekByteOffset s, n) # tsb_reads E h ds s')"

lemma tsb_map_of_put: "map_of (map_put k v m) = (map_of m)(k \<mapsto> v)"
  by (induction k v m rule: map_put.induct) (auto simp: fun_eq_iff)

lemma map_of_map_snd: "map_of (map (\<lambda>(h, c). (h, f c)) m) h = map_option f (map_of m h)"
  by (induction m) auto

lemma on_watchdog_keeps [simp]:
  "mHandles (on_watchdog f s) = mHandles s" "mSeekByteOffset (on_watchdog f s) = mSeekByteOffset s"
  "mRingBufferPool (on_watchdog f s) = mRingBufferPool s" "mPlayerState (on_watchdog f s) = mPlayerState s"
  "mBufIndexer (on_watchdog f s) = mBufIndexer s" "mTrickPlaySpeed (on_watchdog f s) = mTrickPlaySpeed s"
  "mFlush (on_watchdog f s) = mFlush s" "mTrickPlayFile (on_watchdog f s) = mTrickPlayFile s"
  "mTrickPlayTimer (on_watchdog f s) = mTrickPlayTimer s" "mIsStreaming (on_watchdog f s) = mIsStreaming s"
  by (simp_all add: on_watchdog_def Let_def)

text \<open>One read: it is made at the handle's offset minus the seek offset, and moves that offset.\<close>

lemma readData_spec:
  assumes "pool_ok (tsb_pool E)" and "tsb_readData E h data s = (n, data', s')"
  shows "n = length (fst (readRandomAccess (tsb_pool E) (length data) (read_offset E h s - mSeekByteOffset s) (mRingBufferPool s)))"
    and "data' = fst (readRandomAccess (tsb_pool E) (length data) (read_offset E h s - mSeekByteOffset s) (mRingBufferPool s)) @ drop n data"
    and "read_offset E h s' = read_offset E h s + word_of_nat n" and "mSeekByteOffset s' = mSeekByteOffset s"
    and "getTotalBufferByteCount E s' = getTotalBufferByteCount E s"
    and "\<And>k. k \<noteq> h \<Longrightarrow> read_offset E k s' = read_offset E k s"
    and "mBufIndexer s' = mBufIndexer s" and "mFlush s' = mFlush s" and "mTrickPlayFile s' = mTrickPlayFile s"
    and "mTrickPlaySpeed s' = mTrickPlaySpeed s"
proof -
  obtain got pool where r: "readRandomAccess (tsb_pool E) (length data) (read_offset E h s - mSeekByteOffset s) (mRingBufferPool s) = (got, pool)"
    by fastforce
  have t: "getTotalBufferCount (tsb_pool E) pool = getTotalBufferCount (tsb_pool E) (mRingBufferPool s)"
    using assms(1) r unfolding pool_ok_def by (metis snd_conv)
  define s1 where "s1 = (if map_of (mHandles s) h = None
      then s\<lparr>mHandles := map_put h (initReadOffset (getTotalBufferByteCount E s) HandleContext_new) (mHandles s)\<rparr> else s)"
  have "\<exists>c. map_of (mHandles s1) h = Some c \<and> getCurrentReadOffset c = read_offset E h s"
    by (cases "map_of (mHandles s) h")
      (auto simp: s1_def read_offset_def tsb_map_of_put initReadOffset_def getCurrentReadOffset_def)
  then obtain c where c: "map_of (mHandles s1) h = Some c" "getCurrentReadOffset c = read_offset E h s" by blast
  have k: "map_of (mHandles s1) k = map_of (mHandles s) k" if "k \<noteq> h" for k using that by (simp add: s1_def tsb_map_of_put)
  have e: "mSeekByteOffset s1 = mSeekByteOffset s" "mRingBufferPool s1 = mRingBufferPool s" "mBufIndexer s1 = mBufIndexer s"
    "mFlush s1 = mFlush s" "mTrickPlayFile s1 = mTrickPlayFile s" "mTrickPlaySpeed s1 = mTrickPlaySpeed s" by (simp_all add: s1_def)
  have "tsb_readData E h data s = (let
      s = s1\<lparr>mRingBufferPool := pool\<rparr>;
      s = (if length got > 0 then s\<lparr>mHandles := map_put h (incReadOffset (word_of_nat (length got)) c) (mHandles s)\<rparr> else s);
      s = (if mPlayerState s = PAUSED then on_watchdog wd_restart s else s);
      s = s\<lparr>mSocketCalls := mSocketCalls s @ [Dump_send (got @ drop (length got) data)]\<rparr>
      in (length got, got @ drop (length got) data, s))"
    unfolding tsb_readData_def s1_def [symmetric] Let_def by (simp add: c e r)
  then have n: "n = length got" "data' = got @ drop (length got) data"
    and h: "mHandles s' = (if length got > 0 then map_put h (incReadOffset (word_of_nat (length got)) c) (mHandles s1) else mHandles s1)"
    and q: "mRingBufferPool s' = pool" "mSeekByteOffset s' = mSeekByteOffset s" "mBufIndexer s' = mBufIndexer s"
      "mFlush s' = mFlush s" "mTrickPlayFile s' = mTrickPlayFile s" "mTrickPlaySpeed s' = mTrickPlaySpeed s"
    using assms(2) e by (simp_all add: Let_def)
  show "n = length (fst (readRandomAccess (tsb_pool E) (length data) (read_offset E h s - mSeekByteOffset s) (mRingBufferPool s)))"
    and "data' = fst (readRandomAccess (tsb_pool E) (length data) (read_offset E h s - mSeekByteOffset s) (mRingBufferPool s)) @ drop n data"
    by (simp_all add: r n)
  show b: "getTotalBufferByteCount E s' = getTotalBufferByteCount E s" by (simp add: getTotalBufferByteCount_def q t)
  show "mSeekByteOffset s' = mSeekByteOffset s" "mBufIndexer s' = mBufIndexer s" "mFlush s' = mFlush s"
    "mTrickPlayFile s' = mTrickPlayFile s" "mTrickPlaySpeed s' = mTrickPlaySpeed s" by fact+
  show "read_offset E h s' = read_offset E h s + word_of_nat n"
    using c unfolding n by (auto simp: read_offset_def [of E h s'] h tsb_map_of_put incReadOffset_def getCurrentReadOffset_def)
  show "read_offset E k s' = read_offset E k s" if "k \<noteq> h" for k
    using k [OF that] that by (cases "map_of (mHandles s) k") (simp_all add: read_offset_def h tsb_map_of_put b)
qed

lemma reads_consecutive:
  assumes "pool_ok (tsb_pool E)" and "k < length ds"
  shows "k < length (tsb_reads E h ds s) \<and> fst (tsb_reads E h ds s ! k) =
           read_offset E h s - mSeekByteOffset s + word_of_nat (sum_list (map snd (take k (tsb_reads E h ds s))))"
  using assms(2)
proof (induction ds arbitrary: s k)
  case Nil
  then show ?case by simp
next
  case (Cons d ds)
  obtain n d' s' where r: "tsb_readData E h d s = (n, d', s')" by (metis prod_cases3)
  note sp = readData_spec [OF assms(1) r]
  show ?case
  proof (cases k)
    case 0
    then show ?thesis by (simp add: r)
  next
    case (Suc j)
    with Cons.prems have "j < length ds" by simp
    from Cons.IH [OF this, of s'] show ?thesis by (simp add: r Suc sp(3, 4) algebra_simps)
  qed
qed

lemma seek_done_keeps [simp]:
  "mRingBufferPool (seek_done E now off s) = mRingBufferPool s" "mTrickPlaySpeed (seek_done E now off s) = mTrickPlaySpeed s"
  "mBufIndexer (seek_done E now off s) = mBufIndexer s" "mFlush (seek_done E now off s) = mFlush s"
  "mTrickPlayFile (seek_done E now off s) = mTrickPlayFile s" "mSeekByteOffset (seek_done E now off s) = off"
  by (simp_all add: seek_done_def Let_def)

lemma seek_done_rewinds: "read_offset E h (seek_done E now off s) = getTotalBufferByteCount E (seek_done E now off s)"
proof -
  have "map_of (mHandles (seek_done E now off s)) h = map_option (initReadOffset (getTotalBufferByteCount E s)) (map_of (mHandles s) h)"
    by (simp add: seek_done_def Let_def map_of_map_snd getTotalBufferByteCount_def)
  then show ?thesis
    by (cases "map_of (mHandles s) h") (simp_all add: read_offset_def getTotalBufferByteCount_def initReadOffset_def getCurrentReadOffset_def)
qed

lemma opt_all_BuffErr:
  "opt_all P x \<Longrightarrow> opt_all P y \<Longrightarrow> opt_all P z \<Longrightarrow> opt_all P (case r of BUF_OK \<Rightarrow> x | BUF_OUT_OF_RANGE \<Rightarrow> y | BUF_EMPTY \<Rightarrow> z)"
  by (cases r) simp_all

text \<open>A query leaves the indexer as it was, apart from the remembered answers.\<close>

definition bi_queried :: "BufferIndexer \<Rightarrow> BufferIndexer \<Rightarrow> bool" where
  "bi_queried b b' \<longleftrightarrow> mBufInd b' = mBufInd b \<and> (bi_ok b \<longrightarrow> bi_ok b')"

lemma bi_queried_offset: "getByteOffsetFromTimeUs E t off b = Some (r, off', b') \<Longrightarrow> bi_queried b b'"
proof -
  have "opt_all (\<lambda>(r, off', b'). mBufInd b' = mBufInd b) (getByteOffsetFromTimeUs E t off b)"
    unfolding getByteOffsetFromTimeUs_def by (intro opt_intros) simp_all
  then show "getByteOffsetFromTimeUs E t off b = Some (r, off', b') \<Longrightarrow> bi_queried b b'"
    using bi_queries_keep(1) [of E t off b r off' b'] by (auto simp: bi_queried_def dest: opt_allD)
qed

lemma bi_queried_time: "getTimeUsFromByteOffset E off t b = Some (r, t', b') \<Longrightarrow> bi_queried b b'"
proof -
  have "opt_all (\<lambda>(r, t', b'). mBufInd b' = mBufInd b) (getTimeUsFromByteOffset E off t b)"
    unfolding getTimeUsFromByteOffset_def by (intro opt_intros) simp_all
  then show "getTimeUsFromByteOffset E off t b = Some (r, t', b') \<Longrightarrow> bi_queried b b'"
    using bi_queries_keep(2) [of E off t b r t' b'] by (auto simp: bi_queried_def dest: opt_allD)
qed

lemma setSeekTime_result:
  "opt_all (\<lambda>(r, s'). \<exists>bi. bi_queried (mBufIndexer s) bi \<and>
       (if r then \<exists>off. s' = seek_done E now off (s\<lparr>mBufIndexer := bi\<rparr>) else s' = s\<lparr>mBufIndexer := bi\<rparr>)) (setSeekTime E now t s)"
  unfolding setSeekTime_def
  by (intro opt_all_bind opt_all_Let opt_all_case_prod opt_all_BuffErr opt_all_Some) (auto dest: bi_queried_offset)


section \<open>Trick play\<close>

definition watchers_live :: "'p tsb_env \<Rightarrow> bytes MVar \<Rightarrow> bool" where
  "watchers_live E v \<longleftrightarrow> (\<forall>w \<in> set (mWatchers v). \<not> w_expired E w \<and> w_callable E w)"

lemma tsb_assign_live: "watchers_live E v \<Longrightarrow> tsb_assign E rhs v = Some (v\<lparr>mValue := rhs\<rparr>)"
  by (simp add: watchers_live_def tsb_assign_def mvar_assign_def watcher_loop_live)

lemma index_time_bound:
  assumes "bi_ok b"
  shows "\<exists>us. getIndexSizeInTimeUs b = Some us \<and> unat us < 2 ^ 63"
proof (cases "mBufInd b = []")
  case True
  then show ?thesis by (simp add: getIndexSizeInTimeUs_def)
next
  case False
  note w = bi_window [OF assms False]
  let ?l = "length (mBufInd b) - 1"
  have l: "getFrontIndex b \<le> ?l" "?l < length (mBufInd b)" using w(1) by simp_all
  have "fst (mBufInd b ! getFrontIndex b) \<le> fst (mBufInd b ! ?l)" using bi_sorted [OF assms l] by simp
  then have "unat (fst (mBufInd b ! ?l) - fst (mBufInd b ! getFrontIndex b)) < 2 ^ 63"
    using bi_bounds [OF assms l(2)] by (simp add: unat_sub)
  then show ?thesis using False by (simp add: getIndexSizeInTimeUs_def w)
qed

text \<open>Rounding a value that is zero or not tiny.\<close>

lemma double_up:
  assumes f: "rounds 53 f" and x: "x = 0 \<or> 1 / 2 ^ k \<le> x" and k: "k \<le> 100"
  shows "0 \<le> f x" and "f x \<le> 17 / 16 * x" and "f x = 0 \<or> 1 / 2 ^ (k + 1) \<le> f x"
proof -
  have t: "(1 :: rat) / 2 ^ 126 \<le> 1 / 2 ^ k" using k by (intro divide_left_mono power_increasing) simp_all
  have z: "0 \<le> x" using x by (metis order.trans order.refl zero_le_divide_1_iff zero_le_numeral zero_le_power)
  have "normal_range x" using x t z unfolding normal_range_def by (metis abs_of_nonneg order_trans)
  from rounds_coarse [OF f _ this] have d: "\<bar>f x - x\<bar> \<le> x / 16" using z by simp
  show "0 \<le> f x" using f z by (rule rounds_sign(2))
  show "f x \<le> 17 / 16 * x" using abs_le_D1 [OF d] by simp
  have "15 / 16 * x \<le> f x" using abs_le_D2 [OF d] by simp
  moreover have "1 / 2 ^ k / 2 \<le> 15 / 16 * x" if "1 / 2 ^ k \<le> x"
  proof -
    have "1 / 2 ^ k / 2 \<le> x / 2" using that by (rule divide_right_mono) simp
    also have "\<dots> \<le> 15 / 16 * x" using z by simp
    finally show ?thesis .
  qed
  moreover have "f x = 0" if "x = 0" using that rounds_0 [OF f] by simp
  ultimately show "f x = 0 \<or> 1 / 2 ^ (k + 1) \<le> f x" using x by fastforce
qed

lemma nat_not_tiny: "(of_nat n :: rat) = 0 \<or> 1 / 2 ^ 0 \<le> (of_nat n :: rat)"
  by (cases n) simp_all

text \<open>The conversions of a number of microseconds to milliseconds and back stay in range.\<close>

lemma ms_of_us_range:
  assumes "bi_env_ok (tsb_bi E)"
  shows "0 \<le> ms_of_us E us" and "ms_of_us E us \<le> 289 / 256 * of_nat (unat us) / 1000" and "ms_of_us E us < 2 ^ 63"
proof -
  have d: "rounds 53 (dbl (tsb_bi E))" using assms by (simp add: bi_env_ok_def)
  let ?a = "dbl (tsb_bi E) (of_nat (unat us))"
  note a = double_up [OF d nat_not_tiny [of "unat us"]]
  have "?a / 1000 = 0 \<or> 1 / 2 ^ 11 \<le> ?a / 1000" using a(3) by auto
  note m = double_up [OF d this]
  show "0 \<le> ms_of_us E us" using m(1) by (simp add: ms_of_us_def)
  show le: "ms_of_us E us \<le> 289 / 256 * of_nat (unat us) / 1000" using m(2) a(2) by (simp add: ms_of_us_def)
  have "unat us < 2 ^ LENGTH(64)" by (rule unsigned_less)
  then have "unat us < 2 ^ 64" by simp
  then have "(of_nat (unat us) :: rat) < of_nat (2 ^ 64)" by (simp only: of_nat_less_iff)
  then show "ms_of_us E us < 2 ^ 63" using le by simp
qed

lemma ms_of_us_time_t: "bi_env_ok (tsb_bi E) \<Longrightarrow> \<exists>m. time_t_of_f (ms_of_us E us) = Some m"
  using ms_of_us_range [of E us] by (simp add: time_t_of_f_def)

lemma getMaxSeekTime_total:
  assumes "bi_env_ok (tsb_bi E)" and "bi_ok (mBufIndexer s)"
  shows "\<exists>t. getMaxSeekTime E s = Some t"
  using index_time_bound [OF assms(2)] ms_of_us_time_t [OF assms(1)] by (auto simp: getMaxSeekTime_def)

lemma getSeekTime_total:
  assumes "bi_env_ok (tsb_bi E)" and "bi_ok (mBufIndexer s)"
  shows "\<exists>t bi. getSeekTime E s = Some (t, s\<lparr>mBufIndexer := bi\<rparr>) \<and> bi_ok bi"
proof -
  from time_us_ok [OF assms] obtain r t bi where g: "getTimeUsFromByteOffset (tsb_bi E) (mSeekByteOffset s) 0 (mBufIndexer s) = Some (r, t, bi)"
    by blast
  moreover obtain m where "time_t_of_f (ms_of_us E (t + getAccumulatedTimeInMicroSeconds (mPauseTimeMonitor s))) = Some m"
    using ms_of_us_time_t [OF assms(1)] by blast
  ultimately show ?thesis using bi_queries_keep(2) [OF g assms(2)] by (auto simp: getSeekTime_def Let_def)
qed

lemma u64_of_f_floor:
  assumes "0 \<le> x" and "x < 2 ^ 64"
  shows "\<exists>w. u64_of_f x = Some w \<and> of_nat (unat w) \<le> x"
proof -
  define n where "n = nat \<lfloor>x\<rfloor>"
  have n: "\<lfloor>x\<rfloor> = int n" using assms(1) by (simp add: n_def)
  have le: "of_nat n \<le> x" using of_int_floor_le [of x] unfolding n by simp
  have "(of_nat n :: rat) < of_nat (2 ^ 64)" using le assms(2) by simp
  then have "n < 2 ^ 64" by (simp only: of_nat_less_iff)
  then have "unat (word_of_nat n :: u64) = n" by (intro unat_of_nat_small) simp
  then have "(of_nat (unat (word_of_nat n :: u64)) :: rat) \<le> x" using le by (simp only:)
  moreover have "u64_of_f x = Some (word_of_nat n)" using assms by (simp add: u64_of_f_def n)
  ultimately show ?thesis by blast
qed

lemma sint_small: "unat (w :: u64) < 2 ^ 63 \<Longrightarrow> sint w = int (unat w)"
proof -
  assume "unat w < 2 ^ 63"
  then have "int (unat w) < int (2 ^ 63)" by (simp only: of_nat_less_iff)
  then have "uint w < 2 ^ 63" by simp
  moreover have "- (2 ^ 63) \<le> uint w" using unsigned_greater_eq [of w] by (rule order_trans [rotated]) simp
  ultimately have "signed_take_bit 63 (uint w) = uint w" by (intro signed_take_bit_int_eq_self)
  then show ?thesis by (simp add: sint_uint)
qed

lemma setSeekTime_total:
  assumes E: "bi_env_ok (tsb_bi E)" and b: "bi_ok (mBufIndexer s)"
  shows "\<exists>r s'. setSeekTime E now t s = Some (r, s') \<and> bi_ok (mBufIndexer s') \<and>
    mRingBufferPool s' = mRingBufferPool s \<and> mTrickPlaySpeed s' = mTrickPlaySpeed s \<and> mFlush s' = mFlush s \<and> mTrickPlayFile s' = mTrickPlayFile s"
proof -
  from index_time_bound [OF b] obtain us where us: "getIndexSizeInTimeUs (mBufIndexer s) = Some us" "unat us < 2 ^ 63" by blast
  have d: "rounds 53 (dbl (tsb_bi E))" using E by (simp add: bi_env_ok_def)
  note m = ms_of_us_range [OF E, of us]
  obtain mx where mx: "u64_of_f (ms_of_us E us) = Some mx" "of_nat (unat mx) \<le> ms_of_us E us"
    using u64_of_f_floor [OF m(1)] m(3) by force
  define st where "st = (if t > mx then mx else t)"
  have "unat st \<le> unat mx" by (simp add: st_def word_le_nat_alt [symmetric] not_less)
  then have n: "of_nat (unat st) \<le> 289 / 256 * (of_nat (unat us) :: rat) / 1000"
    using mx(2) m(2) of_nat_mono [of "unat st" "unat mx", where 'a = rat] by linarith
  have "(of_nat (unat us) :: rat) < of_nat (2 ^ 63)" using us(2) by (simp only: of_nat_less_iff)
  then have u: "(of_nat (unat us) :: rat) < 2 ^ 63" by simp
  have "(of_nat (unat st) :: rat) < of_nat (2 ^ 63)" using n u by simp
  then have "unat st < 2 ^ 63" by (simp only: of_nat_less_iff)
  then have i: "of_int (sint st) = (of_nat (unat st) :: rat)" using sint_small [of st] by simp
  let ?a = "dbl (tsb_bi E) (of_nat (unat st))"
  note a = double_up [OF d nat_not_tiny [of "unat st"]]
  have "?a * 1000 = 0 \<or> 1 / 2 ^ 1 \<le> ?a * 1000" using a(3) by auto
  note k = double_up [OF d this]
  have "dbl (tsb_bi E) (?a * 1000) < 2 ^ 64" using k(2) a(2) n u by simp
  then obtain target where tg: "u64_of_f (dbl (tsb_bi E) (dbl (tsb_bi E) (of_int (sint st)) * 1000)) = Some target"
    using u64_of_f_floor [OF k(1)] unfolding i by auto
  obtain r off bi where g: "getByteOffsetFromTimeUs (tsb_bi E) target 0 (mBufIndexer s) = Some (r, off, bi)"
    using byte_offset_ok [OF E b, of target 0] by blast
  have "bi_ok bi" using bi_queries_keep(1) [OF g b] .
  moreover have "setSeekTime E now t s = (case r of
        BUF_OUT_OF_RANGE \<Rightarrow> Some (False, s\<lparr>mBufIndexer := bi\<rparr>)
      | BUF_EMPTY \<Rightarrow> Some (False, s\<lparr>mBufIndexer := bi\<rparr>)
      | BUF_OK \<Rightarrow> Some (True, seek_done E now off (s\<lparr>mBufIndexer := bi\<rparr>)))"
    unfolding setSeekTime_def by (simp only: us(1) mx(1) bind.bind_lunit Let_def st_def [symmetric] tg g prod.case)
  ultimately show ?thesis by (cases r) (auto simp: Let_def)
qed

lemma sint_eq_one: "sint (v :: u16) = 1 \<longleftrightarrow> v = 1"
proof
  assume "sint v = 1"
  then have "word_of_int (sint v) = (1 :: u16)" by (simp only: word_of_int_1)
  then show "v = 1" by simp
qed simp

lemma int_dec_one: "int_dec 1 = ''1''"
  by code_simp

lemma trick_position_stop:
  "trick_position speed cur mx = (stop, new, speed') \<Longrightarrow> (stop \<longleftrightarrow> speed' = 1) \<and> (speed' = speed \<or> speed' = 1)"
  by (auto simp: trick_position_def Let_def split: if_splits)

text \<open>
  Where a step of trick play goes, as milliseconds behind the live stream: forward by one more period than the speed
  tells and not past the live stream, backward by one more period than the speed tells.
\<close>

definition trick_target :: "int \<Rightarrow> int \<Rightarrow> int" where
  "trick_target speed cur =
     (if speed = 1 then cur
      else if speed < 0 then cur + (1 - speed) * uint TRICK_PLAY_RATE_MS
      else max 0 (cur - (speed + 1) * uint TRICK_PLAY_RATE_MS))"

lemma trick_position_target:
  "trick_position speed cur mx = (stop, new, speed') \<Longrightarrow>
     new = trick_target speed cur \<and> (0 \<le> speed \<longrightarrow> speed \<noteq> 1 \<longrightarrow> (stop \<longleftrightarrow> new = 0))"
proof -
  have rate: "uint TRICK_PLAY_RATE_MS = 350" by (simp add: TRICK_PLAY_RATE_MS_def)
  assume "trick_position speed cur mx = (stop, new, speed')"
  then show ?thesis unfolding trick_position_def trick_target_def rate Let_def
    by (auto simp: max_def split: if_splits)
qed

lemma trick_play_ok:
  assumes "bi_env_ok (tsb_bi E)" and "bi_ok (mBufIndexer s)" and "watchers_live E (mFlush s)" and "watchers_live E (mTrickPlayFile s)"
  shows "\<exists>stop s'. updateTrickPlayPosition E now s = Some (stop, s') \<and> (stop \<longleftrightarrow> mTrickPlaySpeed s' = 1) \<and>
    mTrickPlaySpeed s' \<in> {mTrickPlaySpeed s, 1} \<and> mRingBufferPool s' = enableReadThrottling (tsb_pool E) stop (mRingBufferPool s) \<and>
    mValue (mFlush s') = str_bytes ''seek change'' \<and> (stop \<longrightarrow> mValue (mTrickPlayFile s') = str_bytes ''1'') \<and>
    (\<exists>cur s1 r s2. getSeekTime E s = Some (cur, s1) \<and>
       setSeekTime E now (word_of_int (trick_target (sint (mTrickPlaySpeed s)) (sint cur)))
         (s1\<lparr>mTrickPlaySpeed := mTrickPlaySpeed s', mRingBufferPool := mRingBufferPool s'\<rparr>) = Some (r, s2) \<and>
       mSeekByteOffset s' = mSeekByteOffset s2 \<and> mHandles s' = mHandles s2 \<and>
       (0 \<le> sint (mTrickPlaySpeed s) \<longrightarrow> mTrickPlaySpeed s \<noteq> 1 \<longrightarrow>
          (stop \<longleftrightarrow> trick_target (sint (mTrickPlaySpeed s)) (sint cur) = 0)))"
proof -
  from getSeekTime_total [OF assms(1, 2)] obtain cur bi where
    1: "getSeekTime E s = Some (cur, s\<lparr>mBufIndexer := bi\<rparr>)" and bi: "bi_ok bi" by blast
  let ?s1 = "s\<lparr>mBufIndexer := bi\<rparr>"
  obtain mx where 2: "(if sint (mTrickPlaySpeed ?s1) < 0 then getMaxSeekTime E ?s1 else Some 0) = Some mx"
    using getMaxSeekTime_total [OF assms(1), of ?s1] bi by (cases "sint (mTrickPlaySpeed ?s1) < 0") auto
  obtain stop new speed where 3: "trick_position (sint (mTrickPlaySpeed ?s1)) (sint cur) (sint mx) = (stop, new, speed)"
    by (metis prod_cases3)
  note tp = trick_position_stop [OF 3] and tt = trick_position_target [OF 3]
  let ?s2 = "?s1\<lparr>mTrickPlaySpeed := word_of_int speed, mRingBufferPool := enableReadThrottling (tsb_pool E) stop (mRingBufferPool ?s1)\<rparr>"
  have w: "(stop \<longleftrightarrow> (word_of_int speed :: u16) = 1) \<and> word_of_int speed \<in> {mTrickPlaySpeed s, 1}"
  proof -
    have "(word_of_int (sint (mTrickPlaySpeed s)) :: u16) = 1 \<longleftrightarrow> sint (mTrickPlaySpeed s) = 1"
      by (simp add: sint_eq_one)
    then show ?thesis using tp by auto
  qed
  from setSeekTime_total [OF assms(1), of ?s2 now "word_of_int new"] bi obtain r s3 where
    4: "setSeekTime E now (word_of_int new) ?s2 = Some (r, s3)" and
    k: "mRingBufferPool s3 = mRingBufferPool ?s2" "mTrickPlaySpeed s3 = mTrickPlaySpeed ?s2" "mFlush s3 = mFlush s" "mTrickPlayFile s3 = mTrickPlayFile s"
    by auto
  let ?v = "(mFlush s)\<lparr>mValue := str_bytes ''seek change''\<rparr>"
  have 5: "tsb_assign E (str_bytes ''seek change'') (mFlush s3) = Some ?v" using tsb_assign_live [OF assms(3)] by (simp add: k)
  let ?s4 = "s3\<lparr>mFlush := ?v\<rparr>"
  have u: "updateTrickPlayPosition E now s = Option.bind (if mTrickPlaySpeed ?s4 = 1 then updateTrickPlayFile E ?s4 else Some ?s4) (\<lambda>s. Some (stop, s))"
    unfolding updateTrickPlayPosition_def by (simp only: 1 2 3 4 5 bind.bind_lunit prod.case Let_def)
  have one: "sint (mTrickPlaySpeed s) \<noteq> 1" if "mTrickPlaySpeed s \<noteq> 1" using that by (simp add: sint_eq_one)
  have pos: "\<exists>cur s1 r s2. getSeekTime E s = Some (cur, s1) \<and>
       setSeekTime E now (word_of_int (trick_target (sint (mTrickPlaySpeed s)) (sint cur)))
         (s1\<lparr>mTrickPlaySpeed := mTrickPlaySpeed s3, mRingBufferPool := mRingBufferPool s3\<rparr>) = Some (r, s2) \<and>
       mSeekByteOffset s3 = mSeekByteOffset s2 \<and> mHandles s3 = mHandles s2 \<and>
       (0 \<le> sint (mTrickPlaySpeed s) \<longrightarrow> mTrickPlaySpeed s \<noteq> 1 \<longrightarrow>
          (stop \<longleftrightarrow> trick_target (sint (mTrickPlaySpeed s)) (sint cur) = 0))"
    using 1 4 k(1, 2) tt one by (intro exI [of _ cur] exI [of _ ?s1] exI [of _ r] exI [of _ s3]) auto
  show ?thesis
  proof (cases "mTrickPlaySpeed s3 = 1")
    case True
    have 6: "updateTrickPlayFile E ?s4 = Some (?s4\<lparr>mTrickPlayFile := (mTrickPlayFile s)\<lparr>mValue := str_bytes ''1''\<rparr>\<rparr>)"
      using tsb_assign_live [OF assms(4)] True by (simp add: updateTrickPlayFile_def k int_dec_one)
    show ?thesis using True w k(1, 2) pos unfolding u by (intro exI [of _ stop]) (simp add: 6)
  next
    case False
    then show ?thesis using w k pos unfolding u by (intro exI [of _ stop]) simp
  qed
qed

section \<open>Operations in any order\<close>

text \<open>
  A time-shift buffer in use: the calls of the stream, of the configuration nodes and of the readers, and the
  threads of the watchdog and of the timer, in any order. The clock does not go back, and fewer than \<open>2\<^sup>6\<^sup>3\<close>
  bytes have been streamed.
\<close>

definition tsb_env_ok :: "'p tsb_env \<Rightarrow> bool" where
  "tsb_env_ok E \<longleftrightarrow> bi_env_ok (tsb_bi E) \<and> pool_ok (tsb_pool E)"

definition tsb_init :: "'p tsb_env \<Rightarrow> 'p TimeShiftBufferConsumer \<Rightarrow> bool" where
  "tsb_init E s \<longleftrightarrow> tsb_env_ok E \<and> (\<exists>en now p0 flush trick. TimeShiftBufferConsumer_new en now p0 flush trick = Some s \<and>
     watchers_live E flush \<and> watchers_live E trick)"

definition post_in_range :: "'p tsb_env \<Rightarrow> u64 \<Rightarrow> 'p TimeShiftBufferConsumer \<Rightarrow> bool" where
  "post_in_range E nowUs s \<longleftrightarrow> unat nowUs < 2 ^ 63 \<and> (\<forall>p \<in> set (mBufInd (mBufIndexer s)). fst p \<le> nowUs) \<and>
     (unat (getTotalBufferCount (tsb_pool E) (mRingBufferPool s)) + 1) * unat (chunk_bytes E) < 2 ^ 63 \<and>
     unat (getTotalBufferCount (tsb_pool E) (mRingBufferPool s)) + 1 < 2 ^ 63"

inductive tsb_step :: "'p tsb_env \<Rightarrow> 'p TimeShiftBufferConsumer \<Rightarrow> 'p TimeShiftBufferConsumer \<Rightarrow> bool" for E where
  tsb_does_post: "post_in_range E nowUs s \<Longrightarrow> tsb_post E nowUs now chunk s = Some s' \<Longrightarrow> tsb_step E s s'"
| tsb_does_read: "tsb_readData E h data s = (n, data', s') \<Longrightarrow> tsb_step E s s'"
| tsb_does_release: "tsb_step E s (tsb_release h s)"
| tsb_does_open: "tsb_step E s (tsb_onOpen s)"
| tsb_does_end: "tsb_onEndOfStream E now s = Some s' \<Longrightarrow> tsb_step E s s'"
| tsb_does_seek: "setSeekTime E now t s = Some (r, s') \<Longrightarrow> tsb_step E s s'"
| tsb_does_state: "setPlayerState st s = Some s' \<Longrightarrow> tsb_step E s s'"
| tsb_does_speed: "setTrickPlaySpeed E speed s = Some (r, s') \<Longrightarrow> tsb_step E s s'"
| tsb_does_trick: "updateTrickPlayPosition E now s = Some (r, s') \<Longrightarrow> tsb_step E s s'"
| tsb_watchdog_thread: "wd_step (mBufferReadWatchdog s) (f (mBufferReadWatchdog s)) \<Longrightarrow> tsb_step E s (on_watchdog f s)"
| tsb_timer_thread: "cet_step (mTrickPlayTimer s) c \<Longrightarrow> tsb_step E s (s\<lparr>mTrickPlayTimer := c\<rparr>)"

definition tsb_ok :: "'p tsb_env \<Rightarrow> 'p TimeShiftBufferConsumer \<Rightarrow> bool" where
  "tsb_ok E s \<longleftrightarrow> tsb_env_ok E \<and> bi_ok (mBufIndexer s) \<and>
     (\<forall>p \<in> set (mBufInd (mBufIndexer s)). snd p \<le> getTotalBufferByteCount E s) \<and>
     watchers_live E (mFlush s) \<and> watchers_live E (mTrickPlayFile s) \<and> mTrickPlaySpeed s \<noteq> 0"

text \<open>What every operation but \<open>post\<close> keeps.\<close>

definition tsb_frame :: "'p tsb_env \<Rightarrow> 'p TimeShiftBufferConsumer \<Rightarrow> 'p TimeShiftBufferConsumer \<Rightarrow> bool" where
  "tsb_frame E s s' \<longleftrightarrow> (bi_ok (mBufIndexer s) \<longrightarrow> bi_ok (mBufIndexer s')) \<and>
     set (mBufInd (mBufIndexer s')) \<subseteq> set (mBufInd (mBufIndexer s)) \<and>
     getTotalBufferByteCount E s' = getTotalBufferByteCount E s \<and>
     mWatchers (mFlush s') = mWatchers (mFlush s) \<and> mWatchers (mTrickPlayFile s') = mWatchers (mTrickPlayFile s) \<and>
     (mTrickPlaySpeed s \<noteq> 0 \<longrightarrow> mTrickPlaySpeed s' \<noteq> 0)"

lemma tsb_frame_ok: "tsb_frame E s s' \<Longrightarrow> tsb_ok E s \<Longrightarrow> tsb_ok E s'"
  by (auto simp: tsb_frame_def tsb_ok_def watchers_live_def)

lemma tsb_frame_trans: "tsb_frame E s t \<Longrightarrow> tsb_frame E t u \<Longrightarrow> tsb_frame E s u"
  by (auto simp: tsb_frame_def)

lemma tsb_frame_refl: "tsb_frame E s s"
  by (simp add: tsb_frame_def)

lemma tsb_frame_watchdog: "tsb_frame E s (on_watchdog f s)"
  by (simp add: tsb_frame_def getTotalBufferByteCount_def)

lemma map_sum_InrD: "map_sum f g x = Inr y \<Longrightarrow> \<exists>z. y = g z"
  by (cases x) auto

lemma tsb_assign_watchers: "tsb_assign E rhs v = Some v' \<Longrightarrow> mWatchers v' = mWatchers v"
  by (auto simp: tsb_assign_def mvar_assign_def split: option.splits sum.splits dest!: map_sum_InrD)

lemma updateTrickPlayFile_frame: "opt_all (tsb_frame E s) (updateTrickPlayFile E s)"
  unfolding updateTrickPlayFile_def
  by (intro opt_all_bind opt_all_Some) (auto simp: tsb_frame_def getTotalBufferByteCount_def dest: tsb_assign_watchers)

lemma readData_frame: "tsb_env_ok E \<Longrightarrow> tsb_readData E h data s = (n, data', s') \<Longrightarrow> tsb_frame E s s'"
  using readData_spec(5, 7 - 10) [of E h data s n data' s'] by (simp add: tsb_frame_def tsb_env_ok_def)

lemma seek_frame: "opt_all (\<lambda>(r, s'). tsb_frame E s s') (setSeekTime E now t s)"
proof (rule opt_all_weaken [OF setSeekTime_result [of s E now t]])
  fix x assume "case x of (r, s') \<Rightarrow> \<exists>bi. bi_queried (mBufIndexer s) bi \<and>
       (if r then \<exists>off. s' = seek_done E now off (s\<lparr>mBufIndexer := bi\<rparr>) else s' = s\<lparr>mBufIndexer := bi\<rparr>)"
  then show "case x of (r, s') \<Rightarrow> tsb_frame E s s'"
    by (auto simp: tsb_frame_def getTotalBufferByteCount_def bi_queried_def split: if_splits)
qed

lemma getSeekTime_frame: "opt_all (\<lambda>(t, s'). tsb_frame E s s' \<and> mTrickPlaySpeed s' = mTrickPlaySpeed s) (getSeekTime E s)"
  unfolding getSeekTime_def
  by (intro opt_all_bind opt_all_Let opt_all_case_prod opt_all_Some)
    (auto simp: tsb_frame_def getTotalBufferByteCount_def bi_queried_def dest!: bi_queried_time)

lemma setPlayerState_frame: "opt_all (tsb_frame E s) (setPlayerState st s)"
  by (cases st) (auto simp: setPlayerState_def Let_def tsb_frame_def getTotalBufferByteCount_def intro!: opt_intros)

lemma tsb_reset_frame:
  assumes "tsb_env_ok E"
  shows "opt_all (tsb_frame E s) (tsb_reset E now s)"
proof -
  have P: "getTotalBufferCount (tsb_pool E) (enableReadThrottling (tsb_pool E) f p) = getTotalBufferCount (tsb_pool E) p" for f p
    using assms by (simp add: tsb_env_ok_def pool_ok_def)
  let ?s1 = "if mSeekByteOffset s \<noteq> 0
      then s\<lparr>mHandles := map (\<lambda>(h, ctx). (h, initReadOffset (getTotalBufferByteCount E s) ctx)) (mHandles s)\<rparr> else s"
  let ?s2 = "?s1\<lparr>mSeekByteOffset := 0, mTrickPlaySpeed := 1\<rparr>"
  have 1: "tsb_frame E s ?s2" by (simp add: tsb_frame_def getTotalBufferByteCount_def)
  have 2: "tsb_frame E u ((on_watchdog wd_clear (u\<lparr>mRingBufferPool := enableReadThrottling (tsb_pool E) True (mRingBufferPool u),
      mTrickPlayTimer := cet_stop (mTrickPlayTimer u), mBufIndexer := bi_clear (mBufIndexer u)\<rparr>))\<lparr>mPauseTimeMonitor := tim_reset now, mIsPaused := False\<rparr>)" for u
    by (simp add: tsb_frame_def getTotalBufferByteCount_def P bi_clear_keeps) (simp add: bi_clear_def)
  show ?thesis unfolding tsb_reset_def Let_def
    by (intro opt_all_bind opt_all_Some tsb_frame_trans [OF _ 2] tsb_frame_trans [OF 1 opt_allD [OF updateTrickPlayFile_frame]])
qed

lemma onEndOfStream_frame: "tsb_env_ok E \<Longrightarrow> opt_all (tsb_frame E s) (tsb_onEndOfStream E now s)"
proof -
  assume E: "tsb_env_ok E"
  let ?s = "s\<lparr>mIsStreaming := False, mRingBufferPool := clearToLastRead (tsb_pool E) (mRingBufferPool s)\<rparr>"
  have "tsb_frame E s ?s" using E by (simp add: tsb_frame_def getTotalBufferByteCount_def tsb_env_ok_def pool_ok_def)
  then show ?thesis unfolding tsb_onEndOfStream_def
    by (intro opt_all_weaken [OF tsb_reset_frame [OF E, of ?s now]]) (rule tsb_frame_trans)
qed

lemma setTrickPlaySpeed_frame: "opt_all (\<lambda>(r, s'). tsb_frame E s s') (setTrickPlaySpeed E speed s)"
proof -
  let ?s = "s\<lparr>mTrickPlaySpeed := speed, mTrickPlayTimer := snd (cet_start (mTrickPlayTimer s))\<rparr>"
  have "tsb_frame E s ?s" if "speed \<noteq> 0" using that by (simp add: tsb_frame_def getTotalBufferByteCount_def)
  then show ?thesis unfolding setTrickPlaySpeed_def
    by (intro opt_all_if opt_all_bind opt_all_Some)
      (auto intro: tsb_frame_trans opt_allD [OF updateTrickPlayFile_frame] tsb_frame_refl)
qed

lemma trick_frame:
  assumes "tsb_env_ok E"
  shows "opt_all (\<lambda>(r, s'). tsb_frame E s s') (updateTrickPlayPosition E now s)"
  unfolding updateTrickPlayPosition_def
proof (intro opt_all_bind opt_all_Let opt_all_case_prod opt_all_Some, goal_cases)
  case (1 x cur s1 mx p stop pp new speed s2 y r s3 v s4 s5)
  have P: "getTotalBufferCount (tsb_pool E) (enableReadThrottling (tsb_pool E) f p) = getTotalBufferCount (tsb_pool E) p" for f p
    using assms by (simp add: tsb_env_ok_def pool_ok_def)
  have "tsb_frame E s s1" using opt_allD [OF getSeekTime_frame 1(1)] 1(2) by simp
  moreover have "tsb_frame E s1 s2"
  proof -
    have "speed = sint (mTrickPlaySpeed s1) \<or> speed = 1" using trick_position_stop 1(4 - 6) by metis
    then have "(word_of_int speed :: u16) = mTrickPlaySpeed s1 \<or> (word_of_int speed :: u16) = 1" by auto
    then show ?thesis unfolding 1(7) by (auto simp: tsb_frame_def getTotalBufferByteCount_def P)
  qed
  moreover have "tsb_frame E s2 s3" using opt_allD [OF seek_frame 1(8)] 1(9) by simp
  moreover have "tsb_frame E s3 s4" unfolding 1(11) using tsb_assign_watchers [OF 1(10)] by (simp add: tsb_frame_def getTotalBufferByteCount_def)
  moreover have "tsb_frame E s4 s5" using 1(12) opt_allD [OF updateTrickPlayFile_frame, of E s4 s5] tsb_frame_refl [of E s4] by (auto split: if_splits)
  ultimately show ?case unfolding prod.case by (blast intro: tsb_frame_trans)
qed

text \<open>\<open>post\<close> registers a count that is not below the counts registered before.\<close>

lemma registered_set:
  "circ_ok (index_ring E) \<Longrightarrow> bi_ok b \<Longrightarrow> set (mBufInd (snd (registerBufferCount E t n b))) \<subseteq> insert (t, n) (set (mBufInd b))"
proof -
  assume C: "circ_ok (index_ring E)" and b: "bi_ok b"
  have "set (circ_push_back (index_ring E) (bi_capacity b) (mBufInd b) (t, n)) \<subseteq> insert (t, n) (set (mBufInd b))"
  proof (cases "length (mBufInd b) < bi_capacity b")
    case True
    then show ?thesis using C by auto
  next
    case False
    with b obtain y ys where "mBufInd b = y # ys" "bi_capacity b = Suc (length ys)"
      by (cases "mBufInd b") (auto simp: bi_ok_def)
    then show ?thesis using circ_push_full [OF C, of ys y] by auto
  qed
  then show ?thesis by (auto simp: registerBufferCount_def Let_def)
qed

lemma queue_count:
  assumes "pool_ok (tsb_pool E)" and "post_in_range E nowUs s"
  shows "getTotalBufferByteCount E s \<le> getTotalBufferByteCount E (s\<lparr>mRingBufferPool := queueBuffer (tsb_pool E) chunk (mRingBufferPool s)\<rparr>)"
    and "unat (getTotalBufferByteCount E (s\<lparr>mRingBufferPool := queueBuffer (tsb_pool E) chunk (mRingBufferPool s)\<rparr>)) < 2 ^ 63"
proof -
  let ?n = "getTotalBufferCount (tsb_pool E) (mRingBufferPool s)" and ?c = "chunk_bytes E"
  have r: "(unat ?n + 1) * unat ?c < 2 ^ 63" "unat ?n + 1 < 2 ^ 63" using assms(2) by (simp_all add: post_in_range_def)
  have "unat (?n + 1) = unat ?n + 1" using r(2) unat_add_small [of ?n 1] by simp
  then have "unat (?n + 1) * unat ?c < 2 ^ 63" using r(1) by simp
  then have m: "unat ((?n + 1) * ?c) = (unat ?n + 1) * unat ?c" using \<open>unat (?n + 1) = unat ?n + 1\<close> by (simp add: unat_word_ariths)
  have "unat ?n * unat ?c < 2 ^ 63" using r(1) by (simp add: algebra_simps)
  then have "unat (?n * ?c) = unat ?n * unat ?c" by (simp add: unat_word_ariths)
  then show "getTotalBufferByteCount E s \<le> getTotalBufferByteCount E (s\<lparr>mRingBufferPool := queueBuffer (tsb_pool E) chunk (mRingBufferPool s)\<rparr>)"
    using assms(1) m by (simp add: getTotalBufferByteCount_def pool_ok_def word_le_nat_alt)
  show "unat (getTotalBufferByteCount E (s\<lparr>mRingBufferPool := queueBuffer (tsb_pool E) chunk (mRingBufferPool s)\<rparr>)) < 2 ^ 63"
    using assms(1) m r(1) by (simp add: getTotalBufferByteCount_def pool_ok_def)
qed

lemma tsb_registered_ok:
  assumes ok: "tsb_ok E s" and r: "post_in_range E nowUs s"
    and s1: "s1 = s\<lparr>mRingBufferPool := queueBuffer (tsb_pool E) chunk (mRingBufferPool s)\<rparr>"
  shows "tsb_ok E (s1\<lparr>mBufIndexer := snd (registerBufferCount (tsb_bi E) nowUs (getTotalBufferByteCount E s1) (mBufIndexer s1))\<rparr>)"
proof -
  have E: "bi_env_ok (tsb_bi E)" "pool_ok (tsb_pool E)" "circ_ok (index_ring (tsb_bi E))"
    using ok by (simp_all add: tsb_ok_def tsb_env_ok_def bi_env_ok_def)
  note q = queue_count [OF E(2) r, of chunk, folded s1]
  have b: "bi_ok (mBufIndexer s1)" "mBufIndexer s1 = mBufIndexer s" using ok by (simp_all add: tsb_ok_def s1)
  have e: "\<forall>p \<in> set (mBufInd (mBufIndexer s1)). fst p \<le> nowUs \<and> snd p \<le> getTotalBufferByteCount E s1"
    using ok r q(1) unfolding b(2) by (auto simp: tsb_ok_def post_in_range_def)
  have t: "unat nowUs < 2 ^ 63" using r by (simp add: post_in_range_def)
  have "bi_ok (snd (registerBufferCount (tsb_bi E) nowUs (getTotalBufferByteCount E s1) (mBufIndexer s1)))"
    by (rule bi_register_keeps [OF E(1) b(1) e t q(2)])
  moreover have "\<forall>p \<in> set (mBufInd (snd (registerBufferCount (tsb_bi E) nowUs (getTotalBufferByteCount E s1) (mBufIndexer s1)))).
      snd p \<le> getTotalBufferByteCount E s1"
    using registered_set [OF E(3) b(1), of nowUs "getTotalBufferByteCount E s1"] e by auto
  ultimately show ?thesis using ok by (simp add: tsb_ok_def s1 getTotalBufferByteCount_def)
qed

lemma tsb_frame_paused:
  "tsb_frame E s (s\<lparr>mPauseTimeMonitor := m\<rparr>)" "tsb_frame E s (s\<lparr>mPauseTimeMonitor := m, mHandles := hs, mSeekByteOffset := off\<rparr>)"
  "tsb_frame E s (s\<lparr>mPauseTimeMonitor := m, mHandles := hs\<rparr>)"
  by (simp_all add: tsb_frame_def getTotalBufferByteCount_def)

lemma tsb_post_ok:
  assumes ok: "tsb_ok E s" and r: "post_in_range E nowUs s"
  shows "opt_all (tsb_ok E) (tsb_post E nowUs now chunk s)"
proof -
  define s1 where "s1 = s\<lparr>mRingBufferPool := queueBuffer (tsb_pool E) chunk (mRingBufferPool s)\<rparr>"
  define reg where "reg = registerBufferCount (tsb_bi E) nowUs (getTotalBufferByteCount E s1) (mBufIndexer s1)"
  define s2 where "s2 = s1\<lparr>mBufIndexer := snd reg\<rparr>"
  have 2: "tsb_ok E s2" unfolding s2_def reg_def by (rule tsb_registered_ok [OF ok r s1_def])
  define s3 where "s3 = (if fst (fst reg) \<and> snd (fst reg) = 1 then on_watchdog wd_start s2 else s2)"
  have 3: "tsb_ok E s3" unfolding s3_def using 2 tsb_frame_ok [OF tsb_frame_watchdog 2] by auto
  show ?thesis
    unfolding tsb_post_def Let_def s1_def [symmetric] case_prod_beta reg_def [symmetric] s2_def [symmetric] s3_def [symmetric]
    using ok 2 tsb_frame_ok [OF tsb_frame_paused(1) 3] tsb_frame_ok [OF tsb_frame_paused(2) 3] tsb_frame_ok [OF tsb_frame_paused(3) 3]
    by (intro opt_all_if opt_all_Some) (auto split: list.split intro!: opt_intros)
qed

lemma pool_size: "BUFFER_POOL_SIZE = 218"
proof -
  have "\<lfloor>(1/2 + of_nat TSB_SIZE_SEC) * 1000000 / of_nat BUFFER_CHUNK_CBR_PERIOD_USEC + of_nat BUFFER_POOL_TAIL_SIZE :: rat\<rfloor> = 218"
    by (rule floor_unique) (simp_all add: TSB_SIZE_SEC_def BUFFER_CHUNK_CBR_PERIOD_USEC_def BUFFER_POOL_TAIL_SIZE_def)
  then show ?thesis by (simp add: BUFFER_POOL_SIZE_def)
qed

interpretation tsb_run: inductive_invariant "tsb_init E" "tsb_step E" "tsb_ok E" for E :: "'p tsb_env"
proof unfold_locales
  show "tsb_ok E s" if "tsb_init E s" for s
  proof -
    from that obtain en now p0 flush trick where E: "tsb_env_ok E" and s: "TimeShiftBufferConsumer_new en now p0 flush trick = Some s"
      and w: "watchers_live E flush" "watchers_live E trick" by (auto simp: tsb_init_def)
    from s obtain bi where bi: "BufferIndexer_new BUFFER_POOL_SIZE (word_of_nat BUFFER_POOL_TAIL_SIZE) (word_of_nat BUFFER_SAMPLING_RATIO) = Some bi"
      by (auto simp: TimeShiftBufferConsumer_new_def bind_eq_Some_conv)
    have b: "bi_ok bi" "mBufInd bi = []" using bi by (auto simp: BufferIndexer_new_def bi_ok_def pool_size BUFFER_POOL_TAIL_SIZE_def BUFFER_SAMPLING_RATIO_def)
    have "mBufIndexer s = bi" "mFlush s = flush" "mTrickPlayFile s = trick" "mTrickPlaySpeed s = 1"
      using s bi by (auto simp: TimeShiftBufferConsumer_new_def)
    then show ?thesis using E w b by (simp add: tsb_ok_def)
  qed
  show "tsb_ok E t" if "tsb_ok E s" "tsb_step E s t" for s t
  proof -
    have E: "tsb_env_ok E" using that(1) by (simp add: tsb_ok_def)
    from that(2) show ?thesis
    proof cases
      case (tsb_does_post nowUs now chunk)
      then show ?thesis using opt_allD [OF tsb_post_ok [OF that(1)]] by blast
    next
      case (tsb_does_read h data n data')
      then show ?thesis using tsb_frame_ok [OF readData_frame [OF E] that(1)] by blast
    next
      case (tsb_does_release h)
      then show ?thesis using that(1) by (simp add: tsb_release_def tsb_ok_def getTotalBufferByteCount_def)
    next
      case tsb_does_open
      then show ?thesis using that(1) by (simp add: tsb_onOpen_def tsb_ok_def getTotalBufferByteCount_def Let_def split: option.split)
    next
      case (tsb_does_end now)
      then show ?thesis using tsb_frame_ok [OF opt_allD [OF onEndOfStream_frame [OF E]] that(1)] by blast
    next
      case (tsb_does_seek now t r)
      then show ?thesis using tsb_frame_ok [OF _ that(1)] opt_allD [OF seek_frame] by fastforce
    next
      case (tsb_does_state st)
      then show ?thesis using tsb_frame_ok [OF opt_allD [OF setPlayerState_frame] that(1)] by blast
    next
      case (tsb_does_speed speed r)
      then show ?thesis using tsb_frame_ok [OF _ that(1)] opt_allD [OF setTrickPlaySpeed_frame] by fastforce
    next
      case (tsb_does_trick now r)
      then show ?thesis using tsb_frame_ok [OF _ that(1)] opt_allD [OF trick_frame [OF E]] by fastforce
    next
      case (tsb_watchdog_thread f)
      then show ?thesis using tsb_frame_ok [OF tsb_frame_watchdog that(1)] by simp
    next
      case (tsb_timer_thread c)
      then show ?thesis using that(1) by (simp add: tsb_ok_def getTotalBufferByteCount_def)
    qed
  qed
qed

text \<open>
  C10: One step of trick play returns while the watchers of the two variables live. It reports that trick play is
  over exactly when the speed is back to 1; it throttles the readers exactly then, asks the player to flush,
  and writes the speed 1 to the trick play node. The step seeks from the current position in the direction of the
  speed, by one period more than the speed tells, and fast forward ends exactly when it arrives at the live stream.
\<close>

theorem trick_play_step:
  assumes "reach (tsb_init E) (tsb_step E) s"
  shows "\<exists>stop s'. updateTrickPlayPosition E now s = Some (stop, s') \<and> (stop \<longleftrightarrow> mTrickPlaySpeed s' = 1) \<and>
    mTrickPlaySpeed s' \<in> {mTrickPlaySpeed s, 1} \<and> mRingBufferPool s' = enableReadThrottling (tsb_pool E) stop (mRingBufferPool s) \<and>
    mValue (mFlush s') = str_bytes ''seek change'' \<and> (stop \<longrightarrow> mValue (mTrickPlayFile s') = str_bytes ''1'') \<and>
    (\<exists>cur s1 r s2. getSeekTime E s = Some (cur, s1) \<and>
       setSeekTime E now (word_of_int (trick_target (sint (mTrickPlaySpeed s)) (sint cur)))
         (s1\<lparr>mTrickPlaySpeed := mTrickPlaySpeed s', mRingBufferPool := mRingBufferPool s'\<rparr>) = Some (r, s2) \<and>
       mSeekByteOffset s' = mSeekByteOffset s2 \<and> mHandles s' = mHandles s2 \<and>
       (0 \<le> sint (mTrickPlaySpeed s) \<longrightarrow> mTrickPlaySpeed s \<noteq> 1 \<longrightarrow>
          (stop \<longleftrightarrow> trick_target (sint (mTrickPlaySpeed s)) (sint cur) = 0)))"
proof -
  have "tsb_ok E s" using assms by (rule tsb_run.reach_inv)
  then show ?thesis using trick_play_ok [of E s now] by (simp add: tsb_ok_def tsb_env_ok_def)
qed

text \<open>
  C27: While the player is paused and the watchdog has expired, the first chunk that arrives with no handle open
  dereferences the end of the map of handles.
\<close>

theorem paused_post_needs_handle:
  assumes "mIsStreaming s" and "mPlayerState s = PAUSED" and "mIsPaused s" and "mHandles s = []"
  shows "tsb_post E nowUs now chunk s = None"
proof -
  have "mIsPaused (on_watchdog wd_start s') = mIsPaused s'" for s' :: "'a TimeShiftBufferConsumer"
    by (simp add: on_watchdog_def wd_start_def Let_def)
  then show ?thesis using assms by (simp add: tsb_post_def Let_def case_prod_beta)
qed

section \<open>Lock order\<close>

text \<open>
  The mutexes of the class and the order in which its methods take and release them; a \<open>lock_guard\<close>
  releases at the end of its block.
\<close>

datatype tsb_mutex = M_seek | M_param | M_trick
datatype lock_op = Acquire tsb_mutex | Release tsb_mutex

definition getSeekTime_locks :: "lock_op list" where
  "getSeekTime_locks = [Acquire M_param, Release M_param]"

definition setSeekTime_locks :: "lock_op list" where
  "setSeekTime_locks = [Acquire M_seek, Release M_seek]"

definition updateTrickPlayPosition_locks :: "lock_op list" where
  "updateTrickPlayPosition_locks = Acquire M_trick # getSeekTime_locks @ setSeekTime_locks @ [Release M_trick]"

definition reset_locks :: "lock_op list" where
  "reset_locks = [Acquire M_param, Acquire M_trick, Release M_trick, Release M_param]"

record lock_state =
  owner :: "tsb_mutex \<Rightarrow> nat option"
  todo :: "nat \<Rightarrow> lock_op list"

inductive lock_step :: "lock_state \<Rightarrow> lock_state \<Rightarrow> bool" where
  lock_acquire: "todo s i = Acquire m # ops \<Longrightarrow> owner s m = None \<Longrightarrow>
     lock_step s \<lparr>owner = (owner s)(m := Some i), todo = (todo s)(i := ops)\<rparr>"
| lock_release: "todo s i = Release m # ops \<Longrightarrow> lock_step s \<lparr>owner = (owner s)(m := None), todo = (todo s)(i := ops)\<rparr>"

definition two_threads :: "lock_op list \<Rightarrow> lock_op list \<Rightarrow> lock_state" where
  "two_threads a b = \<lparr>owner = (\<lambda>m. None), todo = (\<lambda>i. if i = 0 then a else if i = 1 then b else [])\<rparr>"

text \<open>
  C26: \<open>reset\<close>, called at the end of a stream, and \<open>updateTrickPlayPosition\<close>, called by the trick play timer,
  take two mutexes in opposite orders: they can reach a state in which neither has finished and no step is
  possible.
\<close>

theorem reset_trick_play_deadlock:
  "\<exists>s. reach (\<lambda>s. s = two_threads updateTrickPlayPosition_locks reset_locks) lock_step s \<and>
     todo s 0 \<noteq> [] \<and> todo s 1 \<noteq> [] \<and> (\<forall>t. \<not> lock_step s t)"
proof -
  let ?init = "\<lambda>s. s = two_threads updateTrickPlayPosition_locks reset_locks"
  let ?a = "getSeekTime_locks @ setSeekTime_locks @ [Release M_trick]" and ?b = "[Acquire M_trick, Release M_trick, Release M_param]"
  let ?s0 = "two_threads updateTrickPlayPosition_locks reset_locks"
  let ?s1 = "\<lparr>owner = (owner ?s0)(M_trick := Some 0), todo = (todo ?s0)(0 := ?a)\<rparr>"
  let ?s2 = "\<lparr>owner = (owner ?s1)(M_param := Some 1), todo = (todo ?s1)(1 := ?b)\<rparr>"
  have 0: "reach ?init lock_step ?s0" by (rule reach_init) simp
  have "lock_step ?s0 ?s1" by (rule lock_acquire) (simp_all add: two_threads_def updateTrickPlayPosition_locks_def)
  with 0 have 1: "reach ?init lock_step ?s1" by (rule reach_step [where step = lock_step])
  have "lock_step ?s1 ?s2" by (rule lock_acquire) (simp_all add: two_threads_def reset_locks_def)
  with 1 have "reach ?init lock_step ?s2" by (rule reach_step [where step = lock_step])
  moreover have "\<not> lock_step ?s2 t" for t
    by (auto elim!: lock_step.cases simp: two_threads_def getSeekTime_locks_def split: if_splits)
  moreover have "todo ?s2 0 \<noteq> []" "todo ?s2 1 \<noteq> []" by simp_all
  ultimately show ?thesis by blast
qed

section \<open>Instances\<close>

text \<open>A pool that only counts, exact arithmetic, and variables without watchers.\<close>

definition count_pool :: "u64 pool_ops" where
  "count_pool = \<lparr>queueBuffer = (\<lambda>c p. p + 1), getTotalBufferCount = (\<lambda>p. p), readRandomAccess = (\<lambda>n off p. (replicate n 0, p)),
     clearToLastRead = (\<lambda>p. p), enableReadThrottling = (\<lambda>f p. p), abortAllOperations = (\<lambda>p. p)\<rparr>"

definition count_env :: "u64 tsb_env" where
  "count_env = \<lparr>tsb_bi = exact_env, tsb_pool = count_pool, chunk_bytes = 188, w_expired = (\<lambda>w. False), w_callable = (\<lambda>w. True)\<rparr>"

definition quiet_var :: "bytes MVar" where
  "quiet_var = \<lparr>mValue = [], mId = kFlush0, mWatchers = []\<rparr>"

definition tsb_new :: "u64 TimeShiftBufferConsumer" where
  "tsb_new = \<lparr>mTsDumpEnable = None, mSeekByteOffset = 0, mIsStreaming = False, mIsPaused = False,
           mPlayerState = UNDEF, mTrickPlaySpeed = 1, mRingBufferPool = 0,
           mBufIndexer = \<lparr>mSamplingRatio = 4, mBufferCount = 0, mTsbSize = 29, bi_capacity = 54, mBufInd = [],
             mLastByteOffsetFromTimeUs = (0, 0), mLastTimeUsFromByteOffset = (0, 0)\<rparr>,
           mBufferReadWatchdog = TimeoutWatchdog_new,
           mTrickPlayTimer = cet_setPeriodInMilliseconds TRICK_PLAY_RATE_MS (CyclicEventTimer_new True),
           mHandles = [], mPauseTimeMonitor = tim_reset 0, mFlush = quiet_var, mTrickPlayFile = quiet_var,
           mSocketCalls = []\<rparr>"

lemma count_env_ok: "tsb_env_ok count_env"
  by (simp add: tsb_env_ok_def count_env_def exact_env_ok pool_ok_def count_pool_def)

lemma tsb_new_init: "tsb_init count_env tsb_new"
proof -
  have "TimeShiftBufferConsumer_new None 0 0 quiet_var quiet_var = Some tsb_new"
    by (simp add: TimeShiftBufferConsumer_new_def BufferIndexer_new_def pool_size BUFFER_POOL_TAIL_SIZE_def BUFFER_SAMPLING_RATIO_def tsb_new_def)
  moreover have "watchers_live count_env quiet_var" by (simp add: watchers_live_def quiet_var_def)
  ultimately show ?thesis using count_env_ok unfolding tsb_init_def by blast
qed

theorem trick_play_step_witness:
  "\<exists>stop s'. updateTrickPlayPosition count_env 0 tsb_new = Some (stop, s') \<and> (stop \<longleftrightarrow> mTrickPlaySpeed s' = 1)"
  using trick_play_step [OF reach_init [where init = "tsb_init count_env", OF tsb_new_init], of 0] by blast

definition tsb_one :: "u64 TimeShiftBufferConsumer" where
  "tsb_one = tsb_new\<lparr>mIsStreaming := True, mRingBufferPool := 1, mBufIndexer := (mBufIndexer tsb_new)\<lparr>mBufferCount := 1, mBufInd := [(100, 188)]\<rparr>\<rparr>"

lemma tsb_one_post: "tsb_post count_env 100 0 [] (tsb_onOpen tsb_new) = Some tsb_one"
  by (simp add: tsb_post_def tsb_onOpen_def tsb_new_def tsb_one_def registerBufferCount_def getTotalBufferByteCount_def
      count_env_def count_pool_def exact_env_def circ_list_def Let_def)


definition tsb_paused :: "u64 TimeShiftBufferConsumer" where
  "tsb_paused = tsb_one\<lparr>mPlayerState := PAUSED, mBufferReadWatchdog := wd_start TimeoutWatchdog_new,
     mPauseTimeMonitor := updateTimeInterval 0 (tim_reset 0)\<rparr>"

theorem paused_post_needs_handle_witness:
  "\<exists>s. reach (tsb_init count_env) (tsb_step count_env) s \<and> mHandles s = [] \<and> tsb_post count_env 200 0 [] s = None"
proof -
  note st = reach_step [where step = "tsb_step count_env" and init = "tsb_init count_env"]
  let ?s1 = "tsb_onOpen tsb_new"
  let ?s2 = "?s1\<lparr>mPlayerState := PAUSED\<rparr>"
  have 0: "reach (tsb_init count_env) (tsb_step count_env) tsb_new" using tsb_new_init by (rule reach_init [where init = "tsb_init count_env"])
  have 1: "reach (tsb_init count_env) (tsb_step count_env) ?s1" by (rule st [OF 0 tsb_does_open])
  have "setPlayerState PAUSED ?s1 = Some ?s2"
    by (simp add: setPlayerState_def getIndexSizeInBytes_def tsb_onOpen_def tsb_new_def Let_def)
  then have 2: "reach (tsb_init count_env) (tsb_step count_env) ?s2" by (rule st [OF 1 tsb_does_state])
  have "tsb_post count_env 100 0 [] ?s2 = Some tsb_paused"
    by (simp add: tsb_post_def tsb_onOpen_def tsb_new_def tsb_one_def tsb_paused_def registerBufferCount_def getTotalBufferByteCount_def
      count_env_def count_pool_def exact_env_def circ_list_def Let_def on_watchdog_def wd_start_def)
  moreover have "post_in_range count_env 100 ?s2"
    by (simp add: post_in_range_def tsb_onOpen_def tsb_new_def count_env_def count_pool_def)
  ultimately have 3: "reach (tsb_init count_env) (tsb_step count_env) tsb_paused" by (intro st [OF 2 tsb_does_post])
  let ?s4 = "on_watchdog wd_loop tsb_paused"
  let ?s5 = "on_watchdog (\<lambda>w. wd_loop (wd_after_wait (wd_notified w) w)) ?s4"
  have 4: "reach (tsb_init count_env) (tsb_step count_env) ?s4"
    by (rule st [OF 3 tsb_watchdog_thread], rule wd_wake) (simp_all add: tsb_paused_def wd_start_def TimeoutWatchdog_new_def)
  have 5: "reach (tsb_init count_env) (tsb_step count_env) ?s5"
    by (rule st [OF 4 tsb_watchdog_thread], rule wd_wait_done)
      (simp add: on_watchdog_def tsb_paused_def wd_start_def wd_loop_def TimeoutWatchdog_new_def Let_def)
  have "mIsStreaming ?s5" "mPlayerState ?s5 = PAUSED" "mHandles ?s5 = []"
    by (simp_all add: tsb_paused_def tsb_one_def tsb_new_def)
  moreover have "mIsPaused ?s5"
    by (simp add: on_watchdog_def tsb_paused_def wd_start_def wd_loop_def wd_after_wait_def TimeoutWatchdog_new_def Let_def)
  ultimately show ?thesis using 5 paused_post_needs_handle [of ?s5 count_env 200 0 "[]"] by blast
qed

end
