(* ===== verification/Media_Stream.thy ===== *)
theory Media_Stream
  imports Media_Source
begin

text \<open>
  What the media source guarantees: the consumer thread cuts the buffers into chunks without losing or
  reordering a byte, null packets stay inside the buffer, and opening a channel makes its calls in order.
\<close>

section \<open>Fields that the operations keep\<close>

lemma ms_note_fields [simp]:
  "mFccBufferQueue (ms_note es s) = mFccBufferQueue s" "ms_heap (ms_note es s) = ms_heap s"
  "mSessions (ms_note es s) = mSessions s" "mSPr (ms_note es s) = mSPr s" "mCurrentUri (ms_note es s) = mCurrentUri s"
  "ms_log (ms_note es s) = ms_log s @ es" "mDumpInputStreamEnabled (ms_note es s) = mDumpInputStreamEnabled s"
  "bufferRefs (ms_note es s) = bufferRefs s" "mCurrentChannelConfig (ms_note es s) = mCurrentChannelConfig s"
  "ms_tsDumpEnable (ms_note es s) = ms_tsDumpEnable s"
  by (simp_all add: ms_note_def)

lemma src_fields [simp]:
  "mFccBufferQueue (src_post b s) = mFccBufferQueue s" "ms_heap (src_post b s) = ms_heap s"
  "mSessions (src_post b s) = mSessions s" "mSPr (src_post b s) = mSPr s" "mDumpInputStreamEnabled (src_post b s) = mDumpInputStreamEnabled s"
  "mFccBufferQueue (src_onOpen c s) = mFccBufferQueue s" "ms_heap (src_onOpen c s) = ms_heap s"
  "mSessions (src_onOpen c s) = mSessions s" "mSPr (src_onOpen c s) = mSPr s" "mDumpInputStreamEnabled (src_onOpen c s) = mDumpInputStreamEnabled s"
  "mFccBufferQueue (src_onEndOfStream c s) = mFccBufferQueue s" "ms_heap (src_onEndOfStream c s) = ms_heap s"
  "mSessions (src_onEndOfStream c s) = mSessions s" "mSPr (src_onEndOfStream c s) = mSPr s"
  "mDumpInputStreamEnabled (src_onEndOfStream c s) = mDumpInputStreamEnabled s"
  by (simp_all add: src_post_def src_onOpen_def src_onEndOfStream_def)

lemma map_of_put_session: "map_of (put_session k v m) k' = (if k' = k \<and> map_of m k \<noteq> None then Some v else map_of m k')"
  unfolding put_session_def by (induction m) auto

section \<open>Chunks\<close>

text \<open>The chunks that a consumer has been given.\<close>

fun posted_to :: "nat \<Rightarrow> ms_event list \<Rightarrow> bytes list" where
  "posted_to i [] = []"
| "posted_to i (e # es) = (case e of
     Ev_consumer j (Post b) \<Rightarrow> (if j = i then buf_chunk b # posted_to i es else posted_to i es)
   | _ \<Rightarrow> posted_to i es)"

lemma posted_to_append [simp]: "posted_to i (xs @ ys) = posted_to i xs @ posted_to i ys"
  by (induction xs) (auto split: ms_event.splits consumer_call.splits)

lemma posted_to_posts: "distinct cs \<Longrightarrow> posted_to i (map (\<lambda>s. Ev_consumer s (Post b)) cs) = (if i \<in> set cs then [buf_chunk b] else [])"
  by (induction cs) auto

lemma posted_to_other [simp]:
  "posted_to i (map (\<lambda>s. Ev_consumer s Join) cs) = []"
  "posted_to i (map (\<lambda>s. Ev_consumer s (OnOpen c)) cs) = []"
  "posted_to i (map (\<lambda>s. Ev_consumer s (OnEndOfStream c)) cs) = []"
  by (induction cs) auto

lemma posted_src [simp]:
  "posted_to i (ms_log (src_onOpen c s)) = posted_to i (ms_log s)"
  "posted_to i (ms_log (src_onEndOfStream c s)) = posted_to i (ms_log s)"
  by (simp_all add: src_onOpen_def src_onEndOfStream_def sp_onOpen_def sp_onEndOfStream_def comp_def)

lemma posted_src_post [simp]:
  "distinct (mSPr s) \<Longrightarrow> i \<in> set (mSPr s) \<Longrightarrow>
     posted_to i (ms_log (src_post b s)) = posted_to i (ms_log s) @ [buf_chunk b]"
  by (simp add: src_post_def sp_post_def comp_def posted_to_posts)

text \<open>
  The inner loop returns, every chunk it posts is full, and the chunks posted followed by the part of the next
  one are the part that was there followed by the buffer.
\<close>

definition media_kept :: "MediaSourceHandler \<Rightarrow> MediaSourceHandler \<Rightarrow> bool" where
  "media_kept s s' \<longleftrightarrow> mFccBufferQueue s' = mFccBufferQueue s \<and> ms_heap s' = ms_heap s \<and> mSessions s' = mSessions s \<and>
     mSPr s' = mSPr s \<and> mDumpInputStreamEnabled s' = mDumpInputStreamEnabled s"

lemma media_kept_refl [simp]: "media_kept s s"
  and media_kept_post [simp]: "media_kept s (src_post b s)"
  by (simp_all add: media_kept_def)

lemma media_kept_trans: "media_kept s t \<Longrightarrow> media_kept t u \<Longrightarrow> media_kept s u"
  by (simp add: media_kept_def)

lemma assemble_spec:
  assumes "0 < csz" "csz < 2 ^ 32" "length chunk = csz" "offset < csz" "pos + unat n \<le> length buf"
    and "distinct (mSPr s)"
  shows "\<exists>chunk' offset' s' cs. assemble csz info buf pos n (chunk, offset, s) = Some (chunk', offset', s') \<and>
      length chunk' = csz \<and> offset' < csz \<and> media_kept s s' \<and>
      (\<forall>i\<in>set (mSPr s). posted_to i (ms_log s') = posted_to i (ms_log s) @ cs) \<and> (\<forall>c\<in>set cs. length c = csz) \<and>
      concat cs @ take offset' chunk' = take offset chunk @ take (unat n) (drop pos buf)"
  using assms(3-)
proof (induction "unat n" arbitrary: n pos chunk offset s rule: less_induct)
  case less
  show ?case
  proof (cases "n > 0")
    case False
    then have "n = 0" using word_gt_0 by blast
    then show ?thesis using less.prems by (subst assemble.simps) (auto intro: exI[of _ "[]"])
  next
    case True
    then have n0: "0 < unat n" by (simp add: unat_gt_0 word_gt_0)
    define c where "c = min (word_of_nat (csz - offset) :: u32) n"
    have rb: "unat (word_of_nat (csz - offset) :: u32) = csz - offset"
      using assms(2) by (simp add: unat_of_nat take_bit_nat_eq_self)
    have c: "unat c = min (csz - offset) (unat n)"
      using rb by (simp add: c_def min_def word_le_nat_alt)
    define k where "k = unat c"
    have k: "k = min (csz - offset) (unat n)" "0 < k" using c n0 less.prems(2) by (simp_all add: k_def)
    have cn: "c \<le> n" by (simp add: c_def)
    then have un: "unat (n - c) = unat n - k" by (simp add: unat_sub k_def)
    define d where "d = take k (drop pos buf)"
    have dl: "length d = k" using less.prems(3) k by (simp add: d_def)
    define chunk' where "chunk' = take offset chunk @ d @ drop (offset + k) chunk"
    have w: "mem_write chunk offset d = Some chunk'"
      using dl less.prems(1,2) k by (simp add: mem_write_def chunk'_def)
    have r: "mem_read buf pos (unat c) = Some d"
      using less.prems(3) k by (simp add: mem_read_def d_def k_def[symmetric])
    define s' where "s' = (if k + offset = csz then src_post \<lparr>buf_channelInfo = info, buf_chunk = chunk'\<rparr> s else s)"
    have s': "media_kept s s'" "mSPr s' = mSPr s"
      "\<And>i. i \<in> set (mSPr s) \<Longrightarrow>
         posted_to i (ms_log s') = posted_to i (ms_log s) @ (if k + offset = csz then [chunk'] else [])"
      using less.prems(4) by (simp_all add: s'_def)
    have l': "length chunk' = csz" using dl less.prems(1,2) k by (simp add: chunk'_def)
    have eq: "assemble csz info buf pos n (chunk, offset, s) =
        assemble csz info buf (pos + k) (n - c) (chunk', (offset + k) mod csz, s')"
      using True r w by (subst assemble.simps) (simp add: Let_def c_def[symmetric] k_def[symmetric] s'_def)
    have rec: "\<exists>chunk2 offset2 s2 cs. assemble csz info buf (pos + k) (n - c) (chunk', (offset + k) mod csz, s')
        = Some (chunk2, offset2, s2) \<and> length chunk2 = csz \<and> offset2 < csz \<and> media_kept s' s2 \<and>
      (\<forall>i\<in>set (mSPr s'). posted_to i (ms_log s2) = posted_to i (ms_log s') @ cs) \<and> (\<forall>c\<in>set cs. length c = csz) \<and>
      concat cs @ take offset2 chunk2 = take ((offset + k) mod csz) chunk' @ take (unat (n - c)) (drop (pos + k) buf)"
    proof (rule less.hyps)
      show "unat (n - c) < unat n" using un k n0 by simp
      show "pos + k + unat (n - c) \<le> length buf" using less.prems(3) un k by simp
    qed (use l' assms(1) s' less.prems in simp_all)
    have e1: "(if k + offset = csz then chunk' else []) @ take ((offset + k) mod csz) chunk' = take offset chunk @ d"
    proof (cases "k + offset = csz")
      case True
      then show ?thesis using less.prems(1) by (simp add: chunk'_def add.commute)
    next
      case False
      then have "offset + k < csz" using k(1) less.prems(2) by linarith
      then show ?thesis using False less.prems(1) dl by (simp add: chunk'_def)
    qed
    have e2: "d @ take (unat n - k) (drop (pos + k) buf) = take (unat n) (drop pos buf)"
    proof -
      have "unat n = k + (unat n - k)" using k by simp
      then have "take (unat n) (drop pos buf) = take k (drop pos buf) @ take (unat n - k) (drop k (drop pos buf))"
        by (metis take_add)
      then show ?thesis by (simp add: d_def add.commute)
    qed
    obtain chunk2 offset2 s2 cs
      where res: "assemble csz info buf (pos + k) (n - c) (chunk', (offset + k) mod csz, s') = Some (chunk2, offset2, s2)"
        and x: "\<forall>i\<in>set (mSPr s'). posted_to i (ms_log s2) = posted_to i (ms_log s') @ cs" "\<forall>c\<in>set cs. length c = csz"
          "concat cs @ take offset2 chunk2 = take ((offset + k) mod csz) chunk' @ take (unat (n - c)) (drop (pos + k) buf)"
        and y: "offset2 < csz" "length chunk2 = csz" "media_kept s' s2"
      using rec by blast
    let ?cs = "(if k + offset = csz then [chunk'] else []) @ cs"
    have "concat ?cs @ take offset2 chunk2 = ((if k + offset = csz then chunk' else []) @ take ((offset + k) mod csz) chunk')
        @ take (unat (n - c)) (drop (pos + k) buf)" using x(3) by simp
    then have a: "concat ?cs @ take offset2 chunk2 = take offset chunk @ take (unat n) (drop pos buf)"
      unfolding e1 using e2 un by simp
    have b: "\<forall>c\<in>set ?cs. length c = csz" using x(2) l' by auto
    have d: "\<forall>i\<in>set (mSPr s). posted_to i (ms_log s2) = posted_to i (ms_log s) @ ?cs" using x(1) s'(2,3) by simp
    show ?thesis
      by (intro exI[of _ chunk2] exI[of _ offset2] exI[of _ s2] exI[of _ ?cs] conjI a b d)
        (use res eq y media_kept_trans[OF s'(1) y(3)] in simp_all)
  qed
qed

section \<open>Null packets\<close>

lemma null_packet_length [simp]: "length (null_packet 188) = 188"
  by (simp add: null_packet_def)

lemma concat_replicate_length: "length (concat (replicate n (null_packet 188))) = 188 * n"
  by (induction n) simp_all

lemma concat_replicate_snoc: "concat (replicate (Suc n) xs) = concat (replicate n xs) @ xs"
  by (induction n) simp_all

lemma replicate_nulls_take: "n \<le> m \<Longrightarrow> take (188 * n) (concat (replicate m (null_packet 188))) = concat (replicate n (null_packet 188))"
  proof -
  assume "n \<le> m"
  then have "concat (replicate m (null_packet 188)) = concat (replicate n (null_packet 188)) @ concat (replicate (m - n) (null_packet 188))"
    by (metis concat_append le_add_diff_inverse replicate_add)
  then show ?thesis by (simp add: concat_replicate_length)
qed

text \<open>The packets from the packet with index \<open>n\<close> on: as long as the size is inside the buffer, so is the writing.\<close>

lemma null_packets_from:
  assumes "length d = 188 * m" "sz \<le> 188 * m" "n < m"
    and "take (188 * n) d = concat (replicate n (null_packet 188))"
  shows "\<exists>d'. null_packets 188 (188 * n) sz d = Some d' \<and> length d' = length d \<and>
           take sz d' = take sz (concat (replicate m (null_packet 188)))"
  using assms
proof (induction "m - n" arbitrary: n d)
  case (Suc j)
  define d1 where "d1 = take (188 * n) d @ (null_packet 188) @ drop (188 * n + 188) d"
  have w: "mem_write d (188 * n) (null_packet 188) = Some d1"
    using Suc.prems by (simp add: mem_write_def d1_def)
  have l1: "length d1 = 188 * m" using Suc.prems by (simp add: d1_def concat_replicate_length)
  have t1: "take (188 * Suc n) d1 = concat (replicate (Suc n) (null_packet 188))"
    using Suc.prems by (simp add: d1_def concat_replicate_snoc concat_replicate_length del: replicate.simps)
  show ?case
  proof (cases "188 * n + 188 < sz")
    case True
    then have lt: "Suc n < m" using Suc.prems by simp
    have eq: "null_packets 188 (188 * n) sz d = null_packets 188 (188 * Suc n) sz d1"
      using w True by (subst null_packets.simps) (simp add: add.commute)
    have "j = m - Suc n" using Suc.hyps(2) by arith
    from Suc.hyps(1)[OF this l1 Suc.prems(2) lt t1] show ?thesis unfolding eq l1 Suc.prems(1) .
  next
    case False
    then have sz: "sz \<le> 188 * Suc n" by simp
    have a: "null_packets 188 (188 * n) sz d = Some d1" using w False by (subst null_packets.simps) simp
    have "take (188 * Suc n) d1 = take (188 * Suc n) (concat (replicate m (null_packet 188)))"
      unfolding t1 by (rule replicate_nulls_take[symmetric]) (use Suc.prems(3) in arith)
    then have "take sz (take (188 * Suc n) d1) = take sz (take (188 * Suc n) (concat (replicate m (null_packet 188))))" by (rule arg_cong)
    then have b: "take sz d1 = take sz (concat (replicate m (null_packet 188)))" unfolding take_take min.absorb1[OF sz] .
    show ?thesis by (intro exI conjI, rule a, simp only: l1 Suc.prems(1), rule b)
  qed
next
  case 0
  then have False by linarith
  then show ?case ..
qed

lemma null_packets_spec:
  assumes "length d = FEIP_BUFFER_SIZE" "sz \<le> FEIP_BUFFER_SIZE"
  shows "\<exists>d'. null_packets 188 0 sz d = Some d' \<and> length d' = FEIP_BUFFER_SIZE \<and>
           take sz d' = take sz (concat (replicate 224 (null_packet 188)))"
proof -
  have F: "FEIP_BUFFER_SIZE = 188 * 224" by (simp add: FEIP_BUFFER_SIZE_def)
  have "length d = 188 * 224" "sz \<le> 188 * 224" using assms unfolding F by -
  then show ?thesis using null_packets_from[of d 224 sz 0] unfolding F by auto
qed

lemma pushBuffertoBQ_spec:
  assumes "ms_heap s p = Some b" "unat (bq_size b) \<le> length (bq_data b)" "map_of (mSessions s) k = Some sess"
    and "\<not> exitPending (mFccBufferQueue s)" "length (consumerQueue (mFccBufferQueue s)) < mMaxDepth (mFccBufferQueue s)"
    and "\<not> mDumpInputStreamEnabled s"
  shows "\<exists>s'. pushBuffertoBQ p k s = Some s' \<and>
     mFccBufferQueue s' = (mFccBufferQueue s)\<lparr>consumerQueue := consumerQueue (mFccBufferQueue s) @ [p]\<rparr> \<and>
     ms_heap s' = ms_heap s \<and> mSPr s' = mSPr s \<and> mDumpInputStreamEnabled s' = mDumpInputStreamEnabled s \<and>
     (\<forall>k'. (map_of (mSessions s') k' = None) = (map_of (mSessions s) k' = None)) \<and>
     (\<forall>i. posted_to i (ms_log s') = posted_to i (ms_log s)) \<and>
     mBufferSourceLost s' = mBufferSourceLost s \<and> mSourceLostCounter s' = mSourceLostCounter s \<and>
     mBufferSrcLostMVar s' = mBufferSrcLostMVar s"
proof -
  have r: "mem_read (bq_data b) 0 (unat (bq_size b)) = Some (take (unat (bq_size b)) (bq_data b))"
    using assms(2) by (simp add: mem_read_def)
  show ?thesis
    using assms r unfolding pushBuffertoBQ_def
    by (auto simp: bq_queue_def isConsumerQueueFull_def map_of_put_session ms_note_def Let_def)
qed

lemma ms_assign_live:
  assumes "\<forall>w\<in>set (mWatchers (mBufferSrcLostMVar s)). \<not> ms_expired E w \<and> ms_callable E w"
  shows "ms_assign E v s = Some (s\<lparr>mBufferSrcLostMVar := (mBufferSrcLostMVar s)\<lparr>mValue := v\<rparr>\<rparr>)"
  using assms by (simp add: ms_assign_def mvar_assign_def watcher_loop_live)

text \<open>
  C35: On a multicast channel that has been silent for more than two and at most five seconds, the monitor takes
  a free buffer, fills it with null packets, inside its memory whatever size the last producer left in it, and
  queues it behind the others; the loss is counted once, and the variable shows it.
\<close>

theorem silent_source_gets_nulls:
  assumes "ms_packet_size E = 188" and "destinationIp (mCurrentChannelConfig s) \<noteq> 0"
    and "2000 < now - mLastValidBufferTimeMs s" "now - mLastValidBufferTimeMs s \<le> 5000"
    and watchers: "\<forall>w\<in>set (mWatchers (mBufferSrcLostMVar s)). \<not> ms_expired E w \<and> ms_callable E w"
    and queue: "\<not> exitPending (mFccBufferQueue s)" "producerQueue (mFccBufferQueue s) = p # ps"
      "length (consumerQueue (mFccBufferQueue s)) < mMaxDepth (mFccBufferQueue s)"
    and buf: "ms_heap s p = Some b" "length (bq_data b) = FEIP_BUFFER_SIZE" "unat (bq_size b) \<le> FEIP_BUFFER_SIZE"
    and sess: "map_of (mSessions s) 0 = Some sess" and "\<not> mDumpInputStreamEnabled s"
  shows "\<exists>s' d. monitor_pass E now s = Some s' \<and>
     consumerQueue (mFccBufferQueue s') = consumerQueue (mFccBufferQueue s) @ [p] \<and> producerQueue (mFccBufferQueue s') = ps \<and>
     ms_heap s' = (ms_heap s)(p \<mapsto> b\<lparr>bq_data := d\<rparr>) \<and> length d = FEIP_BUFFER_SIZE \<and>
     take (unat (bq_size b)) d = take (unat (bq_size b)) (concat (replicate 224 (null_packet 188))) \<and>
     mBufferSourceLost s' \<and> mSourceLostCounter s' = mSourceLostCounter s + (if mBufferSourceLost s then 0 else 1) \<and>
     (\<not> mBufferSourceLost s \<longrightarrow>
        mValue (mBufferSrcLostMVar s') = str_bytes (''1,'' @ nat_dec (unat (mSourceLostCounter s + 1))))"
proof -
  obtain d where d: "null_packets 188 0 (unat (bq_size b)) (bq_data b) = Some d" "length d = FEIP_BUFFER_SIZE"
      "take (unat (bq_size b)) d = take (unat (bq_size b)) (concat (replicate 224 (null_packet 188)))"
    using null_packets_spec[OF buf(2,3)] by blast
  define s1 where "s1 = (if \<not> mBufferSourceLost s then s\<lparr>mBufferSourceLost := True, mSourceLostCounter := mSourceLostCounter s + 1,
      mBufferSrcLostMVar := (mBufferSrcLostMVar s)\<lparr>mValue := str_bytes (''1,'' @ nat_dec (unat (mSourceLostCounter s + 1)))\<rparr>\<rparr> else s)"
  define s2 where "s2 = s1\<lparr>mFccBufferQueue := (mFccBufferQueue s)\<lparr>producerQueue := ps\<rparr>, ms_heap := (ms_heap s)(p \<mapsto> b\<lparr>bq_data := d\<rparr>)\<rparr>"
  have f1: "mFccBufferQueue s1 = mFccBufferQueue s" "ms_heap s1 = ms_heap s" "mSessions s1 = mSessions s"
      "mDumpInputStreamEnabled s1 = mDumpInputStreamEnabled s"
    by (simp_all add: s1_def)
  have m1: "monitor_pass E now s = injectNullBuffers E s1"
    using assms(1-5) by (simp add: monitor_pass_def NO_BUFFER_RECEIVED_RECONFIGURE_THRESHOLD_MS_def
        NO_BUFFER_RECEIVED_THRESHOLD_MS_def ms_assign_live s1_def srcStateToMVar_def Let_def)
  have m2: "injectNullBuffers E s1 = pushBuffertoBQ p 0 s2"
    using queue buf d(1) f1 assms(1) by (simp add: injectNullBuffers_def acquireBuffer_def bq_acquire_def isProducerQueueEmpty_def s2_def)
  obtain s' where "pushBuffertoBQ p 0 s2 = Some s'"
      "mFccBufferQueue s' = (mFccBufferQueue s2)\<lparr>consumerQueue := consumerQueue (mFccBufferQueue s2) @ [p]\<rparr>"
      "ms_heap s' = ms_heap s2" "mBufferSourceLost s' = mBufferSourceLost s2" "mSourceLostCounter s' = mSourceLostCounter s2"
      "mBufferSrcLostMVar s' = mBufferSrcLostMVar s2"
    using pushBuffertoBQ_spec[of s2 p "b\<lparr>bq_data := d\<rparr>" 0 sess] assms d f1 by (auto simp: s2_def)
  then show ?thesis unfolding m1 m2 using d by (auto simp: s2_def s1_def intro!: exI[of _ s'] exI[of _ d])
qed

text \<open>A source with one free buffer, whose last producer left an odd size in it.\<close>

definition sample_ms_env :: ms_env where
  "sample_ms_env = \<lparr>ms_packet_size = 188, ms_cc = \<lparr>match_uri = (\<lambda>u. Some (u, '''', '''')), match_source = (\<lambda>s. None), to_lower = (\<lambda>s. s),
       inet_aton = (\<lambda>a. Some 1)\<rparr>,
     dmx_connect = (\<lambda>k l. 0), dmx_globalStats = (\<lambda>k l. ''''), dmx_channelStats = (\<lambda>k r l. ''''),
     ms_expired = (\<lambda>w. False), ms_callable = (\<lambda>w. True)\<rparr>"

definition sample_buf :: bq_buffer where
  "sample_buf = \<lparr>bq_magic = NOKIA_BUFFER_MAGIC, bq_channelInfo = Null_ptr, bq_id = 1, bq_size = 1000, bq_capacity = 1000,
     bq_data = replicate FEIP_BUFFER_SIZE 0\<rparr>"

definition sample_ms :: MediaSourceHandler where
  "sample_ms = \<lparr>mSPr = [0], mFccBufferQueue = (BufferQueue_new 64)\<lparr>producerQueue := [1]\<rparr>,
     mSessions = [(0, FeipSession_new)], ms_exitRequested = False, mDumpInputStreamEnabled = False,
     mCurrentUri = ''1.1.1.1'', bufferRefs = [1], ms_tsDumpEnable = None, mLastValidBufferTimeMs = 0,
     mBufferSrcLostMVar = \<lparr>mValue = [], mId = kBufferSrcLost0, mWatchers = [3]\<rparr>,
     mCurrentChannelConfig = ChannelConfig_default\<lparr>destinationIp := 1\<rparr>, mBufferSourceLost = False,
     mSourceLostCounter = 0, ms_heap = [1 \<mapsto> sample_buf], ms_log = []\<rparr>"

theorem silent_source_gets_nulls_witness:
  "\<exists>s' d. monitor_pass sample_ms_env 3000 sample_ms = Some s' \<and> consumerQueue (mFccBufferQueue s') = [1] \<and>
     ms_heap s' = [1 \<mapsto> sample_buf\<lparr>bq_data := d\<rparr>] \<and> length d = FEIP_BUFFER_SIZE \<and> mSourceLostCounter s' = 1"
proof -
  obtain s' d where "monitor_pass sample_ms_env 3000 sample_ms = Some s'"
      "consumerQueue (mFccBufferQueue s') = consumerQueue (mFccBufferQueue sample_ms) @ [1]"
      "ms_heap s' = (ms_heap sample_ms)(1 \<mapsto> sample_buf\<lparr>bq_data := d\<rparr>)" "length d = FEIP_BUFFER_SIZE"
      "mSourceLostCounter s' = mSourceLostCounter sample_ms + (if mBufferSourceLost sample_ms then 0 else 1)"
    using silent_source_gets_nulls [of sample_ms_env sample_ms 3000 1 "[]" sample_buf FeipSession_new]
    by (auto simp: sample_ms_def sample_ms_env_def sample_buf_def BufferQueue_new_def FEIP_BUFFER_SIZE_def)
  then show ?thesis by (intro exI[of _ s'] exI[of _ d]) (simp add: sample_ms_def BufferQueue_new_def)
qed

section \<open>Opening a channel\<close>

text \<open>
  The calls that a change of the channel makes. The end of the old stream is reported to the consumers with the
  address of the new channel, which \<open>open\<close> has stored before it disconnects.
\<close>

definition consumer_events :: "consumer_call \<Rightarrow> MediaSourceHandler \<Rightarrow> ms_event list" where
  "consumer_events c s = map (\<lambda>i. Ev_consumer i c) (mSPr s)"

theorem open_calls:
  assumes "uri \<noteq> mCurrentUri s" "uri \<noteq> ''''" "map_of (mSessions s) k = Some sess" "ms_tsDumpEnable s = None"
    and "ChannelConfig_new (ms_cc E) uri DEFAULT_SOCKET_PORT = Some cc"
  shows "\<exists>s'. ms_open E uri k now s = Some (0, s') \<and> mCurrentUri s' = uri \<and> mCurrentChannelConfig s' = cc \<and>
     mLastValidBufferTimeMs s' = now \<and>
     ms_log s' = ms_log s @ [Ev_demux k (D_getChannelStats True)] @
       (if connectionId sess = FEIP_CONNECTION_UNINITIALIZED then []
        else Ev_demux k (D_disconnect (connectionId sess)) # consumer_events (OnEndOfStream (c_str uri)) s) @
       [Ev_notifyStreamSwitched uri, Ev_demux k D_connect, Ev_demux k (D_open uri '''')] @
       consumer_events (OnOpen (c_str uri)) s"
proof (cases "connectionId sess = FEIP_CONNECTION_UNINITIALIZED")
  case True
  then show ?thesis using assms
    by (simp add: ms_open_def ts_dump_def ms_disconnect_def ms_connect_def map_of_put_session src_onOpen_def sp_onOpen_def
        consumer_events_def ms_note_def Let_def)
next
  case False
  then show ?thesis using assms
    by (simp add: ms_open_def ts_dump_def ms_disconnect_def ms_connect_def map_of_put_session src_onOpen_def sp_onOpen_def
        src_onEndOfStream_def sp_onEndOfStream_def consumer_events_def ms_note_def Let_def)
qed

text \<open>A buffer pushed for a demuxer without a session: the error is logged, and the session is used all the same.\<close>

theorem push_unknown_demuxer:
  assumes "map_of (mSessions s) k = None"
  shows "pushBuffertoBQ p k s = None"
  using assms by (cases "ms_heap s p") (auto simp: pushBuffertoBQ_def Let_def ms_note_def split: Option.bind_splits)

end
