(* ===== verification/Http_Demuxer.thy ===== *)
theory Http_Demuxer
  imports Media_Stream
begin

text \<open>
  The HTTP demuxer (\<open>HttpDemuxerImpl\<close>) and the path of the data through it: \<open>curl\<close> hands over pieces of the
  stream, \<open>write\<close> fills buffers of the media source and pushes the full ones, and the consumer thread cuts them
  into chunks for the stream processor. The transfer of \<open>curl\<close> is a sequence of calls of \<open>write_data\<close>.
\<close>

section \<open>The demuxer\<close>

text \<open>An element of \<open>httpBuffer\<close> is \<open>None\<close> until a pointer has been stored in it.\<close>

record HttpDemuxerImpl =
  hd_exitRequested :: bool
  mHttpThread :: bool
  hd_uri :: string
  mCurrentOffset :: nat
  mHttpBufCount :: u32
  httpBuffer :: "nat option list"

definition HttpDemuxerImpl_new :: "u32 \<Rightarrow> HttpDemuxerImpl" where
  "HttpDemuxerImpl_new junk = \<lparr>hd_exitRequested = False, mHttpThread = False, hd_uri = '''', mCurrentOffset = 0,
     mHttpBufCount = junk, httpBuffer = replicate FEIP_DEFAULT_BUFFER_COUNT None\<rparr>"

definition http_init :: "HttpDemuxerImpl \<Rightarrow> HttpDemuxerImpl" where
  "http_init h = h\<lparr>mHttpBufCount := 0\<rparr>"

definition http_start :: "int \<Rightarrow> HttpDemuxerImpl \<Rightarrow> int \<times> HttpDemuxerImpl" where
  "http_start i h = (0, h)"

definition http_disconnect :: "int \<Rightarrow> HttpDemuxerImpl \<Rightarrow> int \<times> HttpDemuxerImpl" where
  "http_disconnect i h = (0, h)"

definition http_connect :: "HttpDemuxerImpl \<Rightarrow> int \<times> HttpDemuxerImpl" where
  "http_connect h = (0, h)"

definition http_getChannelStats :: "bool \<Rightarrow> HttpDemuxerImpl \<Rightarrow> string \<times> HttpDemuxerImpl" where
  "http_getChannelStats resetCounters h = ('''', h)"

definition http_getGlobalStats :: "HttpDemuxerImpl \<Rightarrow> string \<times> HttpDemuxerImpl" where
  "http_getGlobalStats h = ('''', h)"

text \<open>
  \<open>open\<close> stops the transfer and starts another one. The join returns once \<open>curl\<close> has finished or has called
  \<open>write_data\<close> again, which \<open>joined\<close> tells.
\<close>

definition http_open :: "bool \<Rightarrow> string \<Rightarrow> HttpDemuxerImpl \<Rightarrow> HttpDemuxerImpl option" where
  "http_open joined uri h =
     (if mHttpThread h \<and> \<not> joined then None
      else Some (h\<lparr>hd_uri := uri, hd_exitRequested := False, mHttpThread := True\<rparr>))"

definition http_destroy :: "bool \<Rightarrow> HttpDemuxerImpl \<Rightarrow> HttpDemuxerImpl option" where
  "http_destroy joined h =
     (let h = h\<lparr>hd_exitRequested := True\<rparr> in if mHttpThread h \<and> \<not> joined then None else Some h)"

text \<open>One pass of the loop of \<open>write\<close>, on the bytes that remain.\<close>

definition http_buffer :: "HttpDemuxerImpl \<Rightarrow> MediaSourceHandler \<Rightarrow> (HttpDemuxerImpl \<times> MediaSourceHandler) option" where
  "http_buffer h s =
     (if FEIP_BUFFER_SIZE - mCurrentOffset h = FEIP_BUFFER_SIZE then do {
        (p, s) \<leftarrow> acquireBuffer s;
        if unat (mHttpBufCount h) < length (httpBuffer h)
        then Some (h\<lparr>httpBuffer := (httpBuffer h)[unat (mHttpBufCount h) := Some p]\<rparr>, s) else None
      } else Some (h, s))"

definition http_full :: "nat \<Rightarrow> HttpDemuxerImpl \<Rightarrow> MediaSourceHandler \<Rightarrow> (HttpDemuxerImpl \<times> MediaSourceHandler) option" where
  "http_full p h s = do {
     b \<leftarrow> ms_heap s p;
     if bq_channelInfo b = Wild_ptr then None
     else do {
       let b = b\<lparr>bq_size := word_of_nat (mCurrentOffset h), bq_capacity := word_of_nat (mCurrentOffset h),
                 bq_channelInfo := Str_ptr (c_str (hd_uri h))\<rparr>;
       s \<leftarrow> pushBuffertoBQ p 0 (s\<lparr>ms_heap := (ms_heap s)(p \<mapsto> b)\<rparr>);
       let n = mHttpBufCount h + 1;
       let n = (if n mod word_of_nat FEIP_DEFAULT_BUFFER_COUNT = 0 then 0 else n);
       Some (h\<lparr>mCurrentOffset := 0, mHttpBufCount := n\<rparr>, s)
     }
   }"

definition http_pass ::
    "bytes \<Rightarrow> HttpDemuxerImpl \<Rightarrow> MediaSourceHandler \<Rightarrow> (bytes \<times> HttpDemuxerImpl \<times> MediaSourceHandler) option" where
  "http_pass data h s = do {
     let freeBytesInTempBuf = FEIP_BUFFER_SIZE - mCurrentOffset h;
     (h, s) \<leftarrow> http_buffer h s;
     let writeLength = min freeBytesInTempBuf (length data);
     slot \<leftarrow> rd (httpBuffer h) (unat (mHttpBufCount h));
     p \<leftarrow> slot;
     b \<leftarrow> ms_heap s p;
     d \<leftarrow> mem_write (bq_data b) (mCurrentOffset h) (take writeLength data);
     let s = s\<lparr>ms_heap := (ms_heap s)(p \<mapsto> b\<lparr>bq_data := d\<rparr>)\<rparr>;
     let h = h\<lparr>mCurrentOffset := mCurrentOffset h + writeLength\<rparr>;
     (h, s) \<leftarrow> (if mCurrentOffset h = FEIP_BUFFER_SIZE then http_full p h s else Some (h, s));
     Some (drop writeLength data, h, s)
   }"

text \<open>\<open>write\<close> and the function that \<open>curl\<close> calls.\<close>

partial_function (option) http_write ::
    "bytes \<Rightarrow> HttpDemuxerImpl \<Rightarrow> MediaSourceHandler \<Rightarrow> (HttpDemuxerImpl \<times> MediaSourceHandler) option" where
  "http_write data h s =
     (if data \<noteq> [] then Option.bind (http_pass data h s) (\<lambda>(data, h, s). http_write data h s) else Some (h, s))"

definition write_data ::
    "bytes \<Rightarrow> HttpDemuxerImpl \<Rightarrow> MediaSourceHandler \<Rightarrow> (u64 \<times> HttpDemuxerImpl \<times> MediaSourceHandler) option" where
  "write_data data h s =
     (if hd_exitRequested h then Some (- 1, h, s)
      else do { (h, s) \<leftarrow> http_write data h s; Some (word_of_nat (length data), h, s) })"

section \<open>The path of the data\<close>

text \<open>
  The demuxer, the media source, the bytes of the current call of \<open>write\<close> that are still to be copied, the
  consumer thread's chunk, and the whole stream received so far.
\<close>

record http_pipe =
  pp_http :: HttpDemuxerImpl
  pp_ms :: MediaSourceHandler
  pp_pending :: bytes
  pp_chunk :: bytes
  pp_offset :: nat
  pp_received :: bytes

text \<open>
  The steps: \<open>curl\<close> hands over a piece while the thread runs; \<open>write\<close> makes a pass of its loop; the consumer makes
  a pass of its own; a channel is opened, which waits for the current call of \<open>write\<close>.
\<close>

inductive pipe_step :: "ms_env \<Rightarrow> nat \<Rightarrow> http_pipe \<Rightarrow> http_pipe \<Rightarrow> bool" for E csz where
  pipe_recv: "mHttpThread (pp_http s) \<Longrightarrow> \<not> hd_exitRequested (pp_http s) \<Longrightarrow> pp_pending s = [] \<Longrightarrow>
     pipe_step E csz s (s\<lparr>pp_pending := d, pp_received := pp_received s @ d\<rparr>)"
| pipe_write: "pp_pending s \<noteq> [] \<Longrightarrow> http_pass (pp_pending s) (pp_http s) (pp_ms s) = Some (rest, h, m) \<Longrightarrow>
     pipe_step E csz s (s\<lparr>pp_pending := rest, pp_http := h, pp_ms := m\<rparr>)"
| pipe_consume: "consumer_pass csz elapsed (pp_chunk s, pp_offset s, pp_ms s) = Some (chunk, offset, m) \<Longrightarrow>
     pipe_step E csz s (s\<lparr>pp_chunk := chunk, pp_offset := offset, pp_ms := m\<rparr>)"
| pipe_open: "pp_pending s = [] \<Longrightarrow> ms_open E uri 0 now (pp_ms s) = Some (rc, m) \<Longrightarrow>
     (if rc = 0 \<and> uri \<noteq> '''' then http_open True uri (pp_http s) else Some (pp_http s)) = Some h \<Longrightarrow>
     pipe_step E csz s (s\<lparr>pp_ms := m, pp_http := h\<rparr>)"

text \<open>
  The start: every \<open>malloc\<close> of the constructor succeeded, and the memory did not hold a stray pointer where the
  channel information is.
\<close>

definition pipe_init :: "ms_env \<Rightarrow> nat \<Rightarrow> http_pipe \<Rightarrow> bool" where
  "pipe_init E csz s \<longleftrightarrow>
     (\<exists>mem counter counter' sProc dump lost t0.
        MediaSourceHandler_new E mem counter 0 True sProc dump lost t0 = Some (counter', pp_ms s) \<and> distinct sProc \<and>
        (\<forall>i<FEIP_DEFAULT_BUFFER_COUNT. \<exists>info data. mem i = Some (info, data) \<and> info \<noteq> Wild_ptr \<and> length data = FEIP_BUFFER_SIZE)) \<and>
     (\<exists>junk. pp_http s = http_init (HttpDemuxerImpl_new junk)) \<and> pp_pending s = [] \<and> pp_received s = [] \<and>
     length (pp_chunk s) = csz \<and> pp_offset s = 0"

text \<open>The buffer that \<open>write\<close> is filling, and its bytes.\<close>

definition cur_buf :: "HttpDemuxerImpl \<Rightarrow> nat list" where
  "cur_buf h = (if mCurrentOffset h = 0 then [] else case httpBuffer h ! unat (mHttpBufCount h) of None \<Rightarrow> [] | Some p \<Rightarrow> [p])"

definition heap_data :: "MediaSourceHandler \<Rightarrow> nat \<Rightarrow> bytes" where
  "heap_data m p = (case ms_heap m p of None \<Rightarrow> [] | Some b \<Rightarrow> bq_data b)"

definition in_queue :: "MediaSourceHandler \<Rightarrow> bytes" where
  "in_queue m = concat (map (heap_data m) (consumerQueue (mFccBufferQueue m)))"

definition in_buffer :: "HttpDemuxerImpl \<Rightarrow> MediaSourceHandler \<Rightarrow> bytes" where
  "in_buffer h m = take (mCurrentOffset h) (concat (map (heap_data m) (cur_buf h)))"

definition heap_ok :: "MediaSourceHandler \<Rightarrow> bool" where
  "heap_ok m \<longleftrightarrow> (\<forall>p\<in>{1..FEIP_DEFAULT_BUFFER_COUNT}. \<exists>b. ms_heap m p = Some b \<and> length (bq_data b) = FEIP_BUFFER_SIZE \<and>
     bq_channelInfo b \<noteq> Wild_ptr)"

definition media_ok :: "MediaSourceHandler \<Rightarrow> bool" where
  "media_ok m \<longleftrightarrow> \<not> exitPending (mFccBufferQueue m) \<and> mMaxDepth (mFccBufferQueue m) = FEIP_DEFAULT_BUFFER_COUNT \<and>
     heap_ok m \<and> map_of (mSessions m) 0 \<noteq> None \<and> \<not> mDumpInputStreamEnabled m \<and> distinct (mSPr m) \<and>
     (\<forall>p\<in>set (consumerQueue (mFccBufferQueue m)). \<exists>b. ms_heap m p = Some b \<and> unat (bq_size b) = FEIP_BUFFER_SIZE)"

definition http_ok :: "HttpDemuxerImpl \<Rightarrow> bool" where
  "http_ok h \<longleftrightarrow> mCurrentOffset h < FEIP_BUFFER_SIZE \<and> length (httpBuffer h) = FEIP_DEFAULT_BUFFER_COUNT \<and>
     unat (mHttpBufCount h) < FEIP_DEFAULT_BUFFER_COUNT \<and>
     (mCurrentOffset h \<noteq> 0 \<longrightarrow> httpBuffer h ! unat (mHttpBufCount h) \<noteq> None)"

definition pool_split :: "nat list \<Rightarrow> MediaSourceHandler \<Rightarrow> bool" where
  "pool_split used m \<longleftrightarrow>
     distinct (consumerQueue (mFccBufferQueue m) @ producerQueue (mFccBufferQueue m) @ used) \<and>
     set (consumerQueue (mFccBufferQueue m) @ producerQueue (mFccBufferQueue m) @ used) \<subseteq> {1..FEIP_DEFAULT_BUFFER_COUNT}"

text \<open>Nothing is lost: what every consumer has been given, and what is on its way, is the stream received.\<close>

definition pipe_ok :: "nat \<Rightarrow> http_pipe \<Rightarrow> bool" where
  "pipe_ok csz s \<longleftrightarrow> media_ok (pp_ms s) \<and> http_ok (pp_http s) \<and> pool_split (cur_buf (pp_http s)) (pp_ms s) \<and>
     length (pp_chunk s) = csz \<and> pp_offset s < csz \<and>
     (\<forall>i\<in>set (mSPr (pp_ms s)).
        (\<forall>c\<in>set (posted_to i (ms_log (pp_ms s))). length c = csz) \<and>
        concat (posted_to i (ms_log (pp_ms s))) @ take (pp_offset s) (pp_chunk s) @ in_queue (pp_ms s) @
          in_buffer (pp_http s) (pp_ms s) @ pp_pending s = pp_received s)"

section \<open>The consumer\<close>

lemma pool_lengths: "pool_split used m \<Longrightarrow>
    length (consumerQueue (mFccBufferQueue m)) + length (producerQueue (mFccBufferQueue m)) + length used \<le> FEIP_DEFAULT_BUFFER_COUNT"
  using card_mono[of "{1..FEIP_DEFAULT_BUFFER_COUNT}"
      "set (consumerQueue (mFccBufferQueue m) @ producerQueue (mFccBufferQueue m) @ used)"]
  unfolding pool_split_def by (metis add.assoc card_atLeastAtMost diff_Suc_1 distinct_card finite_atLeastAtMost length_append)

lemma heap_okD:
  assumes "heap_ok m" "p \<in> {1..FEIP_DEFAULT_BUFFER_COUNT}"
  obtains b where "ms_heap m p = Some b" "length (bq_data b) = FEIP_BUFFER_SIZE" "bq_channelInfo b \<noteq> Wild_ptr"
    "heap_data m p = bq_data b"
  using assms unfolding heap_ok_def heap_data_def by fastforce

text \<open>A pass of the consumer: either it waited in vain, or it cut the first buffer of the queue and released it.\<close>

lemma consumer_pass_spec:
  assumes csz: "0 < csz" "csz < 2 ^ 32" and m: "media_ok m" "pool_split used m"
    and c: "length chunk = csz" "offset < csz" and q: "consumerQueue (mFccBufferQueue m) = p # ps"
  shows "\<exists>chunk' offset' m' cs. consumer_pass csz elapsed (chunk, offset, m) = Some (chunk', offset', m') \<and>
     length chunk' = csz \<and> offset' < csz \<and> media_ok m' \<and> pool_split used m' \<and> mSPr m' = mSPr m \<and>
     consumerQueue (mFccBufferQueue m') = ps \<and> ms_heap m' = ms_heap m \<and>
     (\<forall>i\<in>set (mSPr m). posted_to i (ms_log m') = posted_to i (ms_log m) @ cs) \<and> (\<forall>c\<in>set cs. length c = csz) \<and>
     concat cs @ take offset' chunk' = take offset chunk @ heap_data m p"
proof -
  have p: "p \<in> {1..FEIP_DEFAULT_BUFFER_COUNT}" using m(2) q by (auto simp: pool_split_def)
  obtain b where b: "ms_heap m p = Some b" "length (bq_data b) = FEIP_BUFFER_SIZE" "unat (bq_size b) = FEIP_BUFFER_SIZE"
      "heap_data m p = bq_data b"
    using m(1) p q heap_okD[of m p] unfolding media_ok_def by fastforce
  define m1 where "m1 = m\<lparr>mFccBufferQueue := (mFccBufferQueue m)\<lparr>consumerQueue := ps\<rparr>\<rparr>"
  obtain chunk' offset' m2 cs where a: "assemble csz (bq_channelInfo b) (bq_data b) 0 (bq_size b) (chunk, offset, m1) = Some (chunk', offset', m2)"
      "length chunk' = csz" "offset' < csz" "media_kept m1 m2" "\<forall>i\<in>set (mSPr m1). posted_to i (ms_log m2) = posted_to i (ms_log m1) @ cs"
      "\<forall>c\<in>set cs. length c = csz" "concat cs @ take offset' chunk' = take offset chunk @ take (unat (bq_size b)) (drop 0 (bq_data b))"
    using assemble_spec[OF csz c, of 0 "bq_size b" "bq_data b" m1 "bq_channelInfo b"] b m(1)
    by (auto simp: m1_def media_ok_def)
  define m3 where "m3 = m2\<lparr>mFccBufferQueue := (mFccBufferQueue m)\<lparr>consumerQueue := ps, producerQueue := producerQueue (mFccBufferQueue m) @ [p]\<rparr>\<rparr>"
  have "consumer_pass csz elapsed (chunk, offset, m) = Some (chunk', offset', m3)"
    using m q a(1,4) b(1) pool_lengths[OF m(2)]
    by (simp add: consumer_pass_def bq_consume_for_def isConsumerQueueEmpty_def media_ok_def m1_def[symmetric] media_kept_def
        bq_release_def isProducerQueueFull_def m3_def) (simp add: m1_def)
  moreover have "ms_heap m3 = ms_heap m" "mSPr m3 = mSPr m" "mSessions m3 = mSessions m" "mDumpInputStreamEnabled m3 = mDumpInputStreamEnabled m"
    using a(4) by (simp_all add: m3_def m1_def media_kept_def)
  moreover from this have "media_ok m3" using m(1) q by (auto simp: media_ok_def m3_def heap_ok_def)
  moreover have "pool_split used m3" using m(2) q by (auto simp: pool_split_def m3_def)
  moreover have "\<forall>i\<in>set (mSPr m). posted_to i (ms_log m3) = posted_to i (ms_log m) @ cs"
    using a(5) by (simp add: m3_def m1_def)
  moreover have "consumerQueue (mFccBufferQueue m3) = ps" by (simp add: m3_def)
  ultimately show ?thesis using a(2,3,6,7) b by fastforce
qed

lemma consumer_pass_empty:
  assumes "media_ok m" "consumerQueue (mFccBufferQueue m) = []"
  shows "consumer_pass csz elapsed (chunk, offset, m) = (if elapsed then Some (chunk, offset, m) else None)"
  using assms by (auto simp: consumer_pass_def bq_consume_for_def isConsumerQueueEmpty_def media_ok_def)

lemma heap_data_cong: "ms_heap m' = ms_heap m \<Longrightarrow> heap_data m' = heap_data m"
  by (rule ext) (simp add: heap_data_def)

lemma in_queue_cong: "consumerQueue (mFccBufferQueue m') = consumerQueue (mFccBufferQueue m) \<Longrightarrow> ms_heap m' = ms_heap m \<Longrightarrow> in_queue m' = in_queue m"
  by (simp add: in_queue_def heap_data_cong[of m' m])

lemma in_buffer_cong: "ms_heap m' = ms_heap m \<Longrightarrow> in_buffer h m' = in_buffer h m"
  by (simp add: in_buffer_def heap_data_cong[of m' m])

lemma pipe_consume_ok:
  assumes csz: "0 < csz" "csz < 2 ^ 32" and s: "pipe_ok csz s"
  shows "\<exists>chunk offset m. consumer_pass csz True (pp_chunk s, pp_offset s, pp_ms s) = Some (chunk, offset, m)"
    and "consumer_pass csz elapsed (pp_chunk s, pp_offset s, pp_ms s) = Some (chunk, offset, m) \<Longrightarrow>
           pipe_ok csz (s\<lparr>pp_chunk := chunk, pp_offset := offset, pp_ms := m\<rparr>)"
proof -
  let ?m = "pp_ms s"
  have ok: "media_ok ?m" "http_ok (pp_http s)" "pool_split (cur_buf (pp_http s)) ?m" "length (pp_chunk s) = csz" "pp_offset s < csz"
    using s by (simp_all add: pipe_ok_def)
  note all = s[unfolded pipe_ok_def]
  have "(\<exists>chunk offset m. consumer_pass csz True (pp_chunk s, pp_offset s, ?m) = Some (chunk, offset, m)) \<and>
    (consumer_pass csz elapsed (pp_chunk s, pp_offset s, ?m) = Some (chunk, offset, m) \<longrightarrow>
           pipe_ok csz (s\<lparr>pp_chunk := chunk, pp_offset := offset, pp_ms := m\<rparr>))"
  proof (cases "consumerQueue (mFccBufferQueue ?m)")
    case Nil
    show ?thesis using s consumer_pass_empty[OF ok(1) Nil] by (auto simp: pipe_ok_def)
  next
    case (Cons p ps)
    note spec = consumer_pass_spec[OF csz ok(1,3-5) Cons]
    obtain chunk' offset' m' cs where c: "consumer_pass csz elapsed (pp_chunk s, pp_offset s, ?m) = Some (chunk', offset', m')"
        "length chunk' = csz" "offset' < csz" "media_ok m'" "pool_split (cur_buf (pp_http s)) m'" "mSPr m' = mSPr ?m"
        "consumerQueue (mFccBufferQueue m') = ps" "ms_heap m' = ms_heap ?m"
        "\<forall>i\<in>set (mSPr ?m). posted_to i (ms_log m') = posted_to i (ms_log ?m) @ cs" "\<forall>c\<in>set cs. length c = csz"
        "concat cs @ take offset' chunk' = take (pp_offset s) (pp_chunk s) @ heap_data ?m p"
      using spec[of elapsed] by blast
    have q: "in_queue ?m = heap_data ?m p @ in_queue m'" using Cons c(7) heap_data_cong[OF c(8)] by (simp add: in_queue_def)
    have "concat (posted_to i (ms_log m')) @ take offset' chunk' @ in_queue m' @ in_buffer (pp_http s) m' @ pp_pending s = pp_received s"
      if i: "i \<in> set (mSPr ?m)" for i
    proof -
      have "concat (posted_to i (ms_log m')) @ take offset' chunk' = concat (posted_to i (ms_log ?m)) @ (concat cs @ take offset' chunk')"
        using c(9) i by simp
      also have "\<dots> = concat (posted_to i (ms_log ?m)) @ take (pp_offset s) (pp_chunk s) @ heap_data ?m p" by (simp only: c(11))
      finally have e: "concat (posted_to i (ms_log m')) @ take offset' chunk' = \<dots>" .
      have "concat (posted_to i (ms_log m')) @ take offset' chunk' @ in_queue m' @ in_buffer (pp_http s) m' @ pp_pending s
          = (concat (posted_to i (ms_log m')) @ take offset' chunk') @ in_queue m' @ in_buffer (pp_http s) ?m @ pp_pending s"
        using in_buffer_cong[OF c(8)] by simp
      also have "\<dots> = pp_received s" unfolding e using all i q by simp
      finally show ?thesis .
    qed
    then have "pipe_ok csz (s\<lparr>pp_chunk := chunk', pp_offset := offset', pp_ms := m'\<rparr>)"
      using c ok all by (auto simp: pipe_ok_def)
    then show ?thesis using c(1) spec[of True] by auto
  qed
  then show "\<exists>chunk offset m. consumer_pass csz True (pp_chunk s, pp_offset s, pp_ms s) = Some (chunk, offset, m)"
    and "consumer_pass csz elapsed (pp_chunk s, pp_offset s, pp_ms s) = Some (chunk, offset, m) \<Longrightarrow>
           pipe_ok csz (s\<lparr>pp_chunk := chunk, pp_offset := offset, pp_ms := m\<rparr>)" by blast+
qed

section \<open>Writing\<close>

text \<open>The state of \<open>write\<close> once it has a buffer.\<close>

definition filling :: "nat \<Rightarrow> HttpDemuxerImpl \<Rightarrow> MediaSourceHandler \<Rightarrow> bool" where
  "filling p h m \<longleftrightarrow> mCurrentOffset h < FEIP_BUFFER_SIZE \<and> length (httpBuffer h) = FEIP_DEFAULT_BUFFER_COUNT \<and>
     unat (mHttpBufCount h) < FEIP_DEFAULT_BUFFER_COUNT \<and> httpBuffer h ! unat (mHttpBufCount h) = Some p \<and>
     media_ok m \<and> pool_split [p] m"

lemma http_buffer_spec:
  assumes h: "http_ok h" and m: "media_ok m" "pool_split (cur_buf h) m"
  shows "(\<exists>p h' m'. http_buffer h m = Some (h', m') \<and> filling p h' m' \<and> mCurrentOffset h' = mCurrentOffset h \<and>
     mHttpBufCount h' = mHttpBufCount h \<and> hd_uri h' = hd_uri h \<and> mSPr m' = mSPr m \<and> in_queue m' = in_queue m \<and> ms_log m' = ms_log m \<and>
     in_buffer h m = take (mCurrentOffset h) (heap_data m' p)) \<or>
     http_buffer h m = None \<and> mCurrentOffset h = 0 \<and> producerQueue (mFccBufferQueue m) = []"
proof (cases "mCurrentOffset h = 0")
  case False
  then obtain p where p: "httpBuffer h ! unat (mHttpBufCount h) = Some p" using h by (auto simp: http_ok_def)
  then have "cur_buf h = [p]" using False by (simp add: cur_buf_def)
  moreover have "http_buffer h m = Some (h, m)" using False h by (auto simp: http_buffer_def http_ok_def)
  ultimately show ?thesis using h m p by (auto simp: filling_def http_ok_def in_buffer_def)
next
  case True
  show ?thesis
  proof (cases "producerQueue (mFccBufferQueue m)")
    case Nil
    then show ?thesis using True m
      by (simp add: http_buffer_def acquireBuffer_def bq_acquire_def isProducerQueueEmpty_def media_ok_def)
  next
    case (Cons p ps)
    define h' where "h' = h\<lparr>httpBuffer := (httpBuffer h)[unat (mHttpBufCount h) := Some p]\<rparr>"
    define m' where "m' = m\<lparr>mFccBufferQueue := (mFccBufferQueue m)\<lparr>producerQueue := ps\<rparr>\<rparr>"
    have eq: "http_buffer h m = Some (h', m')"
      using True Cons m h by (simp add: http_buffer_def acquireBuffer_def bq_acquire_def isProducerQueueEmpty_def media_ok_def
          http_ok_def h'_def m'_def)
    have "media_ok m'" using m(1) by (auto simp: media_ok_def m'_def heap_ok_def)
    moreover have "pool_split [p] m'" using m(2) Cons True by (auto simp: pool_split_def m'_def cur_buf_def)
    ultimately have "filling p h' m'" using h by (simp add: filling_def http_ok_def h'_def)
    moreover have "in_queue m' = in_queue m" by (rule in_queue_cong) (simp_all add: m'_def)
    moreover have "in_buffer h m = take (mCurrentOffset h) (heap_data m' p)" using True by (simp add: in_buffer_def)
    ultimately show ?thesis using eq by (auto simp: h'_def m'_def)
  qed
qed

text \<open>Writing into a buffer that is in no queue leaves the queue's bytes alone.\<close>

lemma in_queue_write:
  assumes "p \<notin> set (consumerQueue (mFccBufferQueue m))"
  shows "in_queue (m\<lparr>ms_heap := (ms_heap m)(p := b)\<rparr>) = in_queue m"
proof -
  have e: "map (heap_data (m\<lparr>ms_heap := (ms_heap m)(p := b)\<rparr>)) (consumerQueue (mFccBufferQueue m))
      = map (heap_data m) (consumerQueue (mFccBufferQueue m))"
    by (rule map_cong) (use assms in \<open>auto simp: heap_data_def\<close>)
  have "in_queue (m\<lparr>ms_heap := (ms_heap m)(p := b)\<rparr>) =
      concat (map (heap_data (m\<lparr>ms_heap := (ms_heap m)(p := b)\<rparr>)) (consumerQueue (mFccBufferQueue m)))"
    by (simp add: in_queue_def)
  then show ?thesis by (simp only: e in_queue_def)
qed

lemma media_ok_write:
  assumes "media_ok m" "p \<in> {1..FEIP_DEFAULT_BUFFER_COUNT}" "p \<notin> set (consumerQueue (mFccBufferQueue m))"
    and "length (bq_data b) = FEIP_BUFFER_SIZE" "bq_channelInfo b \<noteq> Wild_ptr"
  shows "media_ok (m\<lparr>ms_heap := (ms_heap m)(p \<mapsto> b)\<rparr>)"
proof -
  have "\<exists>b'. ((ms_heap m)(p \<mapsto> b)) q = Some b' \<and> unat (bq_size b') = FEIP_BUFFER_SIZE" if "q \<in> set (consumerQueue (mFccBufferQueue m))" for q
    using assms(1,3) that unfolding media_ok_def by (metis fun_upd_other)
  moreover have "heap_ok (m\<lparr>ms_heap := (ms_heap m)(p \<mapsto> b)\<rparr>)" using assms unfolding media_ok_def heap_ok_def by simp
  ultimately show ?thesis using assms(1) by (simp add: media_ok_def)
qed

text \<open>A full buffer goes to the end of the queue.\<close>

lemma http_full_spec:
  assumes f: "media_ok m" "pool_split [p] m" and h: "length (httpBuffer h) = FEIP_DEFAULT_BUFFER_COUNT"
      "unat (mHttpBufCount h) < FEIP_DEFAULT_BUFFER_COUNT" "mCurrentOffset h = FEIP_BUFFER_SIZE"
  shows "\<exists>h' m'. http_full p h m = Some (h', m') \<and> http_ok h' \<and> mCurrentOffset h' = 0 \<and> media_ok m' \<and> pool_split [] m' \<and>
     mSPr m' = mSPr m \<and> (\<forall>i. posted_to i (ms_log m') = posted_to i (ms_log m)) \<and> in_queue m' = in_queue m @ heap_data m p"
proof -
  have p: "p \<in> {1..FEIP_DEFAULT_BUFFER_COUNT}" "p \<notin> set (consumerQueue (mFccBufferQueue m))" using f(2) by (auto simp: pool_split_def)
  obtain b where b: "ms_heap m p = Some b" "length (bq_data b) = FEIP_BUFFER_SIZE" "bq_channelInfo b \<noteq> Wild_ptr" "heap_data m p = bq_data b"
    using f(1) p(1) heap_okD unfolding media_ok_def by metis
  define b' where "b' = b\<lparr>bq_size := word_of_nat FEIP_BUFFER_SIZE, bq_capacity := word_of_nat FEIP_BUFFER_SIZE,
      bq_channelInfo := Str_ptr (c_str (hd_uri h))\<rparr>"
  define m1 where "m1 = m\<lparr>ms_heap := (ms_heap m)(p \<mapsto> b')\<rparr>"
  have sz: "unat (bq_size b') = FEIP_BUFFER_SIZE" by (simp add: b'_def FEIP_BUFFER_SIZE_def)
  have m1: "media_ok m1" unfolding m1_def by (rule media_ok_write[OF f(1) p]) (use b in \<open>simp_all add: b'_def\<close>)
  have len: "length (consumerQueue (mFccBufferQueue m)) < FEIP_DEFAULT_BUFFER_COUNT" using pool_lengths[OF f(2)] by simp
  obtain m2 where m2: "pushBuffertoBQ p 0 m1 = Some m2"
      "mFccBufferQueue m2 = (mFccBufferQueue m)\<lparr>consumerQueue := consumerQueue (mFccBufferQueue m) @ [p]\<rparr>"
      "ms_heap m2 = ms_heap m1" "mSPr m2 = mSPr m" "mDumpInputStreamEnabled m2 = mDumpInputStreamEnabled m"
      "\<forall>k. (map_of (mSessions m2) k = None) = (map_of (mSessions m) k = None)"
      "\<forall>i. posted_to i (ms_log m2) = posted_to i (ms_log m)"
  proof -
    obtain sess where "map_of (mSessions m) 0 = Some sess" using f(1) by (auto simp: media_ok_def)
    then show thesis using pushBuffertoBQ_spec[of m1 p b' 0 sess] sz b f(1) len that
      by (auto simp: m1_def b'_def media_ok_def)
  qed
  define n where "n = mHttpBufCount h + 1"
  define n' where "n' = (if n mod word_of_nat FEIP_DEFAULT_BUFFER_COUNT = 0 then 0 else n)"
  have un: "unat n = unat (mHttpBufCount h) + 1"
    using h(2) unfolding n_def FEIP_DEFAULT_BUFFER_COUNT_def by (subst unat_word_ariths) simp
  have n': "unat n' < FEIP_DEFAULT_BUFFER_COUNT"
  proof (cases "unat n = FEIP_DEFAULT_BUFFER_COUNT")
    case True
    then have "n = word_of_nat FEIP_DEFAULT_BUFFER_COUNT" by (simp add: word_unat_eq_iff FEIP_DEFAULT_BUFFER_COUNT_def)
    then show ?thesis by (simp add: n'_def FEIP_DEFAULT_BUFFER_COUNT_def)
  next
    case False
    then have "unat n < FEIP_DEFAULT_BUFFER_COUNT" using un h(2) by linarith
    then show ?thesis by (simp add: n'_def FEIP_DEFAULT_BUFFER_COUNT_def)
  qed
  define h' where "h' = h\<lparr>mCurrentOffset := 0, mHttpBufCount := n'\<rparr>"
  have "http_full p h m = Some (h', m2)"
    using b m2(1) h(3) by (simp add: http_full_def h'_def n'_def n_def m1_def b'_def Let_def)
  moreover have "http_ok h'" using n' h by (simp add: http_ok_def h'_def FEIP_BUFFER_SIZE_def)
  moreover have "media_ok m2" using m1 m2 sz by (auto simp: media_ok_def heap_ok_def m1_def)
  moreover have "pool_split [] m2" using f(2) m2(2) by (auto simp: pool_split_def)
  moreover have "in_queue m2 = in_queue m @ heap_data m p"
  proof -
    have "in_queue m2 = in_queue m1 @ heap_data m1 p"
      using heap_data_cong[OF m2(3)] m2(2) by (simp add: in_queue_def m1_def)
    moreover have "in_queue m1 = in_queue m" unfolding m1_def by (rule in_queue_write[OF p(2)])
    ultimately show ?thesis using b by (simp add: heap_data_def m1_def b'_def)
  qed
  ultimately show ?thesis using m2(4,7) by (auto simp: h'_def)
qed

text \<open>
  A pass of the loop of \<open>write\<close>: it waits for a free buffer, or it moves bytes from the piece to the buffer, and a
  full buffer to the queue.
\<close>

lemma http_pass_spec:
  assumes h: "http_ok h" and m: "media_ok m" "pool_split (cur_buf h) m" and ne: "data \<noteq> []"
  shows "(\<exists>rest h' m'. http_pass data h m = Some (rest, h', m') \<and> http_ok h' \<and> media_ok m' \<and> pool_split (cur_buf h') m' \<and>
     mSPr m' = mSPr m \<and> (\<forall>i. posted_to i (ms_log m') = posted_to i (ms_log m)) \<and>
     in_queue m' @ in_buffer h' m' @ rest = in_queue m @ in_buffer h m @ data \<and> length rest < length data) \<or>
     http_pass data h m = None \<and> mCurrentOffset h = 0 \<and> producerQueue (mFccBufferQueue m) = []"
proof (cases "http_buffer h m")
  case None
  then show ?thesis using http_buffer_spec[OF h m] by (auto simp: http_pass_def Let_def)
next
  case (Some hm)
  then obtain p h1 m1 where b1: "http_buffer h m = Some (h1, m1)" "filling p h1 m1" "mCurrentOffset h1 = mCurrentOffset h"
      "mHttpBufCount h1 = mHttpBufCount h" "mSPr m1 = mSPr m" "in_queue m1 = in_queue m" "ms_log m1 = ms_log m"
      "in_buffer h m = take (mCurrentOffset h) (heap_data m1 p)"
    using http_buffer_spec[OF h m] by auto
  have p: "p \<in> {1..FEIP_DEFAULT_BUFFER_COUNT}" "p \<notin> set (consumerQueue (mFccBufferQueue m1))"
    using b1(2) by (auto simp: filling_def pool_split_def)
  obtain b where b: "ms_heap m1 p = Some b" "length (bq_data b) = FEIP_BUFFER_SIZE" "bq_channelInfo b \<noteq> Wild_ptr" "heap_data m1 p = bq_data b"
    using b1(2) p(1) heap_okD unfolding filling_def media_ok_def by metis
  define off where "off = mCurrentOffset h"
  define wl where "wl = min (FEIP_BUFFER_SIZE - off) (length data)"
  have off: "off < FEIP_BUFFER_SIZE" using h by (simp add: http_ok_def off_def)
  have wl: "0 < wl" "wl \<le> length data" "off + wl \<le> FEIP_BUFFER_SIZE" using off ne by (auto simp: wl_def)
  define d where "d = take off (bq_data b) @ take wl data @ drop (off + wl) (bq_data b)"
  have w: "mem_write (bq_data b) off (take wl data) = Some d" using wl b(2) by (simp add: mem_write_def d_def)
  have dl: "length d = FEIP_BUFFER_SIZE" using wl b(2) off by (simp add: d_def)
  define m2 where "m2 = m1\<lparr>ms_heap := (ms_heap m1)(p \<mapsto> b\<lparr>bq_data := d\<rparr>)\<rparr>"
  define h2 where "h2 = h1\<lparr>mCurrentOffset := off + wl\<rparr>"
  have m2: "media_ok m2" unfolding m2_def
    by (rule media_ok_write[OF _ p]) (use b1(2) b dl in \<open>simp_all add: filling_def\<close>)
  have sp: "pool_split [p] m2" using b1(2) by (simp add: filling_def pool_split_def m2_def)
  have q2: "in_queue m2 = in_queue m" using in_queue_write[OF p(2)] b1(6) by (simp add: m2_def)
  have hd2: "heap_data m2 p = d" by (simp add: heap_data_def m2_def)
  have td: "take (off + wl) d @ drop wl data = in_buffer h m @ data"
    using wl b b1(8) off by (simp add: d_def off_def)
  have step: "http_pass data h m = do { (h, s) \<leftarrow> (if off + wl = FEIP_BUFFER_SIZE then http_full p h2 m2 else Some (h2, m2)); Some (drop wl data, h, s) }"
    using b1(1-4) b(1) w h by (simp add: http_pass_def rd_def filling_def off_def[symmetric] wl_def[symmetric] m2_def h2_def Let_def)
  show ?thesis
  proof (cases "off + wl = FEIP_BUFFER_SIZE")
    case True
    obtain h' m' where f: "http_full p h2 m2 = Some (h', m')" "http_ok h'" "mCurrentOffset h' = 0" "media_ok m'" "pool_split [] m'"
        "mSPr m' = mSPr m2" "\<forall>i. posted_to i (ms_log m') = posted_to i (ms_log m2)" "in_queue m' = in_queue m2 @ heap_data m2 p"
      using http_full_spec[OF m2 sp, of h2] b1(2) True by (auto simp: h2_def filling_def)
    have "in_queue m' @ in_buffer h' m' @ drop wl data = in_queue m @ in_buffer h m @ data"
      using f(3,8) q2 hd2 td dl True by (simp add: in_buffer_def)
    moreover have "cur_buf h' = []" using f(3) by (simp add: cur_buf_def)
    ultimately show ?thesis using step True f b1(5,7) wl by (simp add: m2_def)
  next
    case False
    have c: "cur_buf h2 = [p]" using b1(2) wl by (simp add: cur_buf_def h2_def filling_def)
    have "in_queue m2 @ in_buffer h2 m2 @ drop wl data = in_queue m @ in_buffer h m @ data"
      using q2 hd2 td c by (simp add: in_buffer_def h2_def)
    moreover have "http_ok h2" using b1(2) wl False by (simp add: http_ok_def filling_def h2_def)
    ultimately show ?thesis using step False m2 sp c b1(5,7) wl by (simp add: m2_def)
  qed
qed

lemma pipe_write_ok:
  assumes s: "pipe_ok csz s" and ne: "pp_pending s \<noteq> []"
  shows "http_pass (pp_pending s) (pp_http s) (pp_ms s) = Some (rest, h, m) \<Longrightarrow>
           pipe_ok csz (s\<lparr>pp_pending := rest, pp_http := h, pp_ms := m\<rparr>)"
    and "http_pass (pp_pending s) (pp_http s) (pp_ms s) = None \<Longrightarrow>
           mCurrentOffset (pp_http s) = 0 \<and> producerQueue (mFccBufferQueue (pp_ms s)) = []"
proof -
  have ok: "http_ok (pp_http s)" "media_ok (pp_ms s)" "pool_split (cur_buf (pp_http s)) (pp_ms s)" using s by (simp_all add: pipe_ok_def)
  note spec = http_pass_spec[OF ok ne]
  show "http_pass (pp_pending s) (pp_http s) (pp_ms s) = None \<Longrightarrow>
           mCurrentOffset (pp_http s) = 0 \<and> producerQueue (mFccBufferQueue (pp_ms s)) = []" using spec by auto
  assume r: "http_pass (pp_pending s) (pp_http s) (pp_ms s) = Some (rest, h, m)"
  then have x: "http_ok h" "media_ok m" "pool_split (cur_buf h) m" "mSPr m = mSPr (pp_ms s)"
      "\<forall>i. posted_to i (ms_log m) = posted_to i (ms_log (pp_ms s))"
      "in_queue m @ in_buffer h m @ rest = in_queue (pp_ms s) @ in_buffer (pp_http s) (pp_ms s) @ pp_pending s"
    using spec by auto
  then show "pipe_ok csz (s\<lparr>pp_pending := rest, pp_http := h, pp_ms := m\<rparr>)" using s by (simp add: pipe_ok_def)
qed

section \<open>Opening\<close>

lemma ms_note_kept [simp]: "media_kept s (ms_note es s)" "media_kept s (src_onOpen c s)" "media_kept s (src_onEndOfStream c s)" "media_kept s (ts_dump s)"
  by (simp_all add: media_kept_def ts_dump_def split: option.split)

lemma ms_open_keeps:
  assumes "ms_open E uri k now s = Some (rc, s')"
  shows "mFccBufferQueue s' = mFccBufferQueue s" "ms_heap s' = ms_heap s" "mSPr s' = mSPr s"
    "mDumpInputStreamEnabled s' = mDumpInputStreamEnabled s" "\<And>k'. (map_of (mSessions s') k' = None) = (map_of (mSessions s) k' = None)"
    "\<And>i. posted_to i (ms_log s') = posted_to i (ms_log s)"
  using assms
  by (auto simp: ms_open_def ms_disconnect_def ms_connect_def ts_dump_def map_of_put_session Let_def
      split: if_splits option.splits Option.bind_splits)

lemma pipe_open_ok:
  assumes s: "pipe_ok csz s" and "ms_open E uri 0 now (pp_ms s) = Some (rc, m)"
    and "(if rc = 0 \<and> uri \<noteq> '''' then http_open True uri (pp_http s) else Some (pp_http s)) = Some h"
  shows "pipe_ok csz (s\<lparr>pp_ms := m, pp_http := h\<rparr>)"
proof -
  note k = ms_open_keeps[OF assms(2)]
  have h: "mCurrentOffset h = mCurrentOffset (pp_http s)" "httpBuffer h = httpBuffer (pp_http s)" "mHttpBufCount h = mHttpBufCount (pp_http s)"
    using assms(3) by (auto simp: http_open_def split: if_splits)
  have c: "cur_buf h = cur_buf (pp_http s)" using h by (simp add: cur_buf_def)
  have "in_queue m = in_queue (pp_ms s)" by (rule in_queue_cong) (simp_all add: k)
  moreover have "in_buffer h m = in_buffer (pp_http s) (pp_ms s)" using h c heap_data_cong[OF k(2)] by (simp add: in_buffer_def)
  ultimately show ?thesis using s k h c by (simp add: pipe_ok_def media_ok_def heap_ok_def http_ok_def pool_split_def)
qed

section \<open>Start\<close>

lemma alloc_loop_spec:
  assumes "\<forall>j\<in>{i..<i + n}. \<exists>info data. mem j = Some (info, data) \<and> info \<noteq> Wild_ptr \<and> length data = FEIP_BUFFER_SIZE"
    and "length (producerQueue (mFccBufferQueue s)) + n \<le> mMaxDepth (mFccBufferQueue s)"
  shows "\<exists>c' s'. alloc_loop mem i n (c, s) = Some (c', s') \<and>
     mFccBufferQueue s' = (mFccBufferQueue s)\<lparr>producerQueue := producerQueue (mFccBufferQueue s) @ [Suc i..<Suc (i + n)]\<rparr> \<and>
     (\<forall>p. p \<notin> {Suc i..i + n} \<longrightarrow> ms_heap s' p = ms_heap s p) \<and>
     (\<forall>p\<in>{Suc i..i + n}. \<exists>b. ms_heap s' p = Some b \<and> length (bq_data b) = FEIP_BUFFER_SIZE \<and> bq_channelInfo b \<noteq> Wild_ptr) \<and>
     mSPr s' = mSPr s \<and> ms_log s' = ms_log s \<and> mDumpInputStreamEnabled s' = mDumpInputStreamEnabled s"
  using assms
proof (induction n arbitrary: i c s)
  case (Suc n)
  obtain info data where mem: "mem i = Some (info, data)" "info \<noteq> Wild_ptr" "length data = FEIP_BUFFER_SIZE"
    using Suc.prems(1) by force
  define b where "b = \<lparr>bq_magic = NOKIA_BUFFER_MAGIC, bq_channelInfo = info, bq_id = c + 1, bq_size = word_of_nat FEIP_BUFFER_SIZE,
      bq_capacity = word_of_nat FEIP_BUFFER_SIZE, bq_data = data\<rparr>"
  define q where "q = (mFccBufferQueue s)\<lparr>producerQueue := producerQueue (mFccBufferQueue s) @ [Suc i]\<rparr>"
  define s1 where "s1 = s\<lparr>ms_heap := (ms_heap s)(Suc i \<mapsto> b), bufferRefs := bufferRefs s @ [Suc i], mFccBufferQueue := q\<rparr>"
  have step: "alloc_loop mem i (Suc n) (c, s) = alloc_loop mem (Suc i) n (c + 1, s1)"
    using mem Suc.prems(2)
    by (simp add: alloc_bq_buffer_def bq_release_def isProducerQueueFull_def b_def[symmetric] q_def s1_def Let_def)
  obtain c' s' where r: "alloc_loop mem (Suc i) n (c + 1, s1) = Some (c', s')"
     "mFccBufferQueue s' = q\<lparr>producerQueue := producerQueue q @ [Suc (Suc i)..<Suc (Suc i + n)]\<rparr>"
     "\<forall>p. p \<notin> {Suc (Suc i)..Suc i + n} \<longrightarrow> ms_heap s' p = ms_heap s1 p"
     "\<forall>p\<in>{Suc (Suc i)..Suc i + n}. \<exists>b. ms_heap s' p = Some b \<and> length (bq_data b) = FEIP_BUFFER_SIZE \<and> bq_channelInfo b \<noteq> Wild_ptr"
     "mSPr s' = mSPr s" "ms_log s' = ms_log s" "mDumpInputStreamEnabled s' = mDumpInputStreamEnabled s"
    using Suc.IH[of "Suc i" s1 "c + 1"] Suc.prems by (fastforce simp: s1_def q_def)
  have "producerQueue q @ [Suc (Suc i)..<Suc (Suc i + n)] = producerQueue (mFccBufferQueue s) @ [Suc i..<Suc (i + Suc n)]"
    by (simp add: q_def upt_rec[of "Suc i"])
  then have "mFccBufferQueue s' = (mFccBufferQueue s)\<lparr>producerQueue := producerQueue (mFccBufferQueue s) @ [Suc i..<Suc (i + Suc n)]\<rparr>"
    using r(2) by (simp add: q_def)
  moreover have "ms_heap s' p = ms_heap s p" if "p \<notin> {Suc i..i + Suc n}" for p
    using r(3) that by (auto simp: s1_def)
  moreover have "\<exists>b. ms_heap s' p = Some b \<and> length (bq_data b) = FEIP_BUFFER_SIZE \<and> bq_channelInfo b \<noteq> Wild_ptr"
    if p: "p \<in> {Suc i..i + Suc n}" for p
  proof (cases "p = Suc i")
    case True
    then have "ms_heap s' p = Some b" using r(3) by (simp add: s1_def)
    then show ?thesis using mem by (simp add: b_def)
  next
    case False
    then show ?thesis using r(4) p by simp
  qed
  ultimately show ?case using step r(1,5-7) by auto
qed simp

lemma pipe_ok_init:
  assumes "0 < csz" "pipe_init E csz s"
  shows "pipe_ok csz s"
proof -
  obtain mem counter counter' sProc dump lost t0 junk where
    new: "MediaSourceHandler_new E mem counter 0 True sProc dump lost t0 = Some (counter', pp_ms s)" and dist: "distinct sProc"
    and mem: "\<forall>i<FEIP_DEFAULT_BUFFER_COUNT. \<exists>info data. mem i = Some (info, data) \<and> info \<noteq> Wild_ptr \<and> length data = FEIP_BUFFER_SIZE"
    and http: "pp_http s = http_init (HttpDemuxerImpl_new junk)"
    and rest: "pp_pending s = []" "pp_received s = []" "length (pp_chunk s) = csz" "pp_offset s = 0"
    using assms(2) unfolding pipe_init_def by blast
  obtain s1 c2 s2 where a: "alloc_loop mem 0 FEIP_DEFAULT_BUFFER_COUNT (counter, s1) = Some (c2, s2)"
      "mFccBufferQueue s1 = BufferQueue_new FEIP_DEFAULT_BUFFER_COUNT" "mSPr s1 = sProc" "ms_log s1 = []" "\<not> mDumpInputStreamEnabled s1"
    and ms: "pp_ms s = ms_note [Ev_setCallbackHandler, Ev_registerCallback] ((ms_note [Ev_demux 0 D_attach, Ev_demux 0 D_init] s2)
        \<lparr>mSessions := [(0, FeipSession_new\<lparr>connectionId := FEIP_CONNECTION_UNINITIALIZED\<rparr>)]\<rparr>)"
    using new unfolding MediaSourceHandler_new_def ms_assign_def
    by (auto simp: Let_def split: Option.bind_splits option.splits sum.splits)
  obtain c' s' where "alloc_loop mem 0 FEIP_DEFAULT_BUFFER_COUNT (counter, s1) = Some (c', s')"
     "mFccBufferQueue s' = (mFccBufferQueue s1)\<lparr>producerQueue := producerQueue (mFccBufferQueue s1) @ [Suc 0..<Suc (0 + FEIP_DEFAULT_BUFFER_COUNT)]\<rparr>"
     "\<forall>p\<in>{Suc 0..0 + FEIP_DEFAULT_BUFFER_COUNT}. \<exists>b. ms_heap s' p = Some b \<and> length (bq_data b) = FEIP_BUFFER_SIZE \<and> bq_channelInfo b \<noteq> Wild_ptr"
     "mSPr s' = mSPr s1" "ms_log s' = ms_log s1" "mDumpInputStreamEnabled s' = mDumpInputStreamEnabled s1"
    using alloc_loop_spec[of 0 FEIP_DEFAULT_BUFFER_COUNT mem s1 counter] mem a(2) by (auto simp: BufferQueue_new_def)
  then have q: "mFccBufferQueue s2 = (BufferQueue_new FEIP_DEFAULT_BUFFER_COUNT)\<lparr>producerQueue := [1..<Suc FEIP_DEFAULT_BUFFER_COUNT]\<rparr>"
    and hp: "\<forall>p\<in>{1..FEIP_DEFAULT_BUFFER_COUNT}. \<exists>b. ms_heap s2 p = Some b \<and> length (bq_data b) = FEIP_BUFFER_SIZE \<and> bq_channelInfo b \<noteq> Wild_ptr"
    and k: "mSPr s2 = sProc" "ms_log s2 = []" "\<not> mDumpInputStreamEnabled s2"
    using a by (simp_all add: BufferQueue_new_def)
  have "media_ok (pp_ms s)" using q hp k dist by (simp add: ms media_ok_def heap_ok_def BufferQueue_new_def)
  moreover have h: "cur_buf (pp_http s) = []" "http_ok (pp_http s)"
    by (simp_all add: http http_init_def HttpDemuxerImpl_new_def cur_buf_def http_ok_def FEIP_BUFFER_SIZE_def FEIP_DEFAULT_BUFFER_COUNT_def)
  moreover have "pool_split [] (pp_ms s)" using q by (auto simp: ms pool_split_def BufferQueue_new_def)
  moreover have "in_queue (pp_ms s) = []" using q by (simp add: ms in_queue_def BufferQueue_new_def)
  ultimately show ?thesis using rest assms(1) k by (simp add: pipe_ok_def in_buffer_def ms)
qed

section \<open>Delivery\<close>

lemma pipe_ok_step:
  assumes "0 < csz" "csz < 2 ^ 32" "pipe_ok csz s" "pipe_step E csz s t"
  shows "pipe_ok csz t"
  using assms(4)
proof cases
  case (pipe_recv d)
  then show ?thesis using assms(3) by (auto simp: pipe_ok_def)
next
  case (pipe_write rest h m)
  then show ?thesis using pipe_write_ok(1)[OF assms(3)] by blast
next
  case (pipe_consume elapsed chunk offset m)
  then show ?thesis using pipe_consume_ok(2)[OF assms(1-3)] by blast
next
  case (pipe_open uri now rc m h)
  then show ?thesis using pipe_open_ok[OF assms(3)] by blast
qed

interpretation pipe: inductive_invariant "pipe_init E csz" "pipe_step E csz"
  "\<lambda>s. 0 < csz \<and> csz < 2 ^ 32 \<longrightarrow> pipe_ok csz s" for E csz
  by unfold_locales (auto intro: pipe_ok_init pipe_ok_step)

text \<open>
  C1: From \<open>curl\<close> to the consumers nothing is lost, repeated or reordered: at any time, the chunks that a
  consumer has been given, the part of the next chunk, the queued buffers, the buffer being filled and the rest of
  the current piece are, in this order, the stream received so far; every chunk given is full. Neither thread runs
  into undefined behaviour: the writer only ever waits for a free buffer, and the consumer gets through its pass.
\<close>

theorem http_stream_delivered:
  assumes "0 < csz" "csz < 2 ^ 32" and "reach (pipe_init E csz) (pipe_step E csz) s" and "i \<in> set (mSPr (pp_ms s))"
  shows "pp_received s = concat (posted_to i (ms_log (pp_ms s))) @ take (pp_offset s) (pp_chunk s) @ in_queue (pp_ms s) @
           in_buffer (pp_http s) (pp_ms s) @ pp_pending s \<and>
     (\<forall>c\<in>set (posted_to i (ms_log (pp_ms s))). length c = csz) \<and>
     (pp_pending s \<noteq> [] \<longrightarrow> http_pass (pp_pending s) (pp_http s) (pp_ms s) = None \<longrightarrow>
        mCurrentOffset (pp_http s) = 0 \<and> producerQueue (mFccBufferQueue (pp_ms s)) = []) \<and>
     (\<exists>r. consumer_pass csz True (pp_chunk s, pp_offset s, pp_ms s) = Some r)"
proof -
  have ok: "pipe_ok csz s" using pipe.reach_inv[OF assms(3)] assms(1,2) by blast
  then show ?thesis using assms(4) pipe_write_ok(2)[OF ok] pipe_consume_ok(1)[OF assms(1,2) ok]
    by (auto simp: pipe_ok_def)
qed

text \<open>The constructor returns when every allocation succeeds and the watchers of the variable are alive.\<close>

lemma media_new_returns:
  assumes "\<forall>w\<in>set (mWatchers srcLost). \<not> ms_expired E w \<and> ms_callable E w"
    and "\<forall>i<FEIP_DEFAULT_BUFFER_COUNT. \<exists>info data. mem i = Some (info, data) \<and> info \<noteq> Wild_ptr \<and> length data = FEIP_BUFFER_SIZE"
  shows "\<exists>c m. MediaSourceHandler_new E mem counter k True sProc tsDump srcLost t0 = Some (c, m) \<and> mSPr m = sProc \<and> mCurrentUri m = '''' \<and>
     mSessions m = [(k, FeipSession_new\<lparr>connectionId := FEIP_CONNECTION_UNINITIALIZED\<rparr>)] \<and> ms_tsDumpEnable m = tsDump"
proof -
  have uri: "mCurrentUri s' = mCurrentUri s \<and> ms_tsDumpEnable s' = ms_tsDumpEnable s" if "alloc_loop mem i n (c, s) = Some (c', s')" for mem i n c s c' s'
    using that by (induction n arbitrary: i c s) (auto simp: Let_def split: prod.splits Option.bind_splits)
  define s where "s = \<lparr>mSPr = sProc, mFccBufferQueue = BufferQueue_new FEIP_DEFAULT_BUFFER_COUNT, mSessions = [],
              ms_exitRequested = False, mDumpInputStreamEnabled = False, mCurrentUri = '''', bufferRefs = [],
              ms_tsDumpEnable = tsDump, mLastValidBufferTimeMs = t0, mBufferSrcLostMVar = srcLost\<lparr>mValue := str_bytes (''0,'' @ nat_dec 0)\<rparr>,
              mCurrentChannelConfig = ChannelConfig_default, mBufferSourceLost = False, mSourceLostCounter = 0,
              ms_heap = (\<lambda>_. None), ms_log = []\<rparr>"
  obtain c' s' where a: "alloc_loop mem 0 FEIP_DEFAULT_BUFFER_COUNT (counter, s) = Some (c', s')" "mSPr s' = mSPr s"
    using alloc_loop_spec[of 0 FEIP_DEFAULT_BUFFER_COUNT mem s counter] assms(2) by (auto simp: s_def BufferQueue_new_def)
  then show ?thesis using uri[OF a(1)] assms(1)
    by (simp add: MediaSourceHandler_new_def ms_assign_live srcStateToMVar_def s_def[symmetric] ms_note_def Let_def)
       (simp add: s_def)
qed

text \<open>A channel is opened and three bytes arrive.\<close>

lemma sample_pipe:
  "\<exists>s. reach (pipe_init sample_ms_env 188) (pipe_step sample_ms_env 188) s \<and> mSPr (pp_ms s) = [0] \<and> pp_received s = [0x47, 1, 2]"
proof -
  obtain c m where new: "MediaSourceHandler_new sample_ms_env (\<lambda>i. Some (Null_ptr, replicate FEIP_BUFFER_SIZE 0)) 0 0 True [0] None
     \<lparr>mValue = [], mId = kBufferSrcLost0, mWatchers = []\<rparr> 0 = Some (c, m)" and m: "mSPr m = [0]" "mCurrentUri m = ''''"
     "mSessions m = [(0, FeipSession_new\<lparr>connectionId := FEIP_CONNECTION_UNINITIALIZED\<rparr>)]" "ms_tsDumpEnable m = None"
    using media_new_returns[of "\<lparr>mValue = [], mId = kBufferSrcLost0, mWatchers = []\<rparr>" sample_ms_env
        "\<lambda>i. Some (Null_ptr, replicate FEIP_BUFFER_SIZE 0)" 0 0 "[0]" None 0] by auto
  define s0 where "s0 = \<lparr>pp_http = http_init (HttpDemuxerImpl_new 0), pp_ms = m, pp_pending = [], pp_chunk = replicate 188 0, pp_offset = 0, pp_received = []\<rparr>"
  let ?i = "pipe_init sample_ms_env 188" and ?s = "pipe_step sample_ms_env 188"
  have "?i s0" unfolding pipe_init_def
  proof (intro conjI exI)
    show "MediaSourceHandler_new sample_ms_env (\<lambda>i. Some (Null_ptr, replicate FEIP_BUFFER_SIZE 0)) 0 0 True [0] None
     \<lparr>mValue = [], mId = kBufferSrcLost0, mWatchers = []\<rparr> 0 = Some (c, pp_ms s0)" using new by (simp add: s0_def)
    show "pp_http s0 = http_init (HttpDemuxerImpl_new 0)" by (simp add: s0_def)
  qed (simp_all add: s0_def)
  then have r0: "reach ?i ?s s0" by (rule reach_init)
  have "ChannelConfig_new (ms_cc sample_ms_env) ''http://a'' DEFAULT_SOCKET_PORT \<noteq> None"
    by (simp add: ChannelConfig_new_def cc_extract_def sample_ms_env_def parseIPV4string_def Let_def split: option.split)
  then obtain m1 where o1: "ms_open sample_ms_env ''http://a'' 0 0 m = Some (0, m1)"
    using open_calls[of "''http://a''" m 0 _ sample_ms_env] m by fastforce
  define h1 where "h1 = (http_init (HttpDemuxerImpl_new 0))\<lparr>hd_uri := ''http://a'', hd_exitRequested := False, mHttpThread := True\<rparr>"
  have "?s s0 (s0\<lparr>pp_ms := m1, pp_http := h1\<rparr>)"
    by (rule pipe_step.pipe_open[of _ _ "''http://a''" 0 0]) (simp_all add: s0_def o1 http_open_def h1_def)
  with r0 have r1: "reach ?i ?s (s0\<lparr>pp_ms := m1, pp_http := h1\<rparr>)" by (rule reach_step)
  have "?s (s0\<lparr>pp_ms := m1, pp_http := h1\<rparr>) ((s0\<lparr>pp_ms := m1, pp_http := h1\<rparr>)\<lparr>pp_pending := [0x47, 1, 2],
      pp_received := pp_received (s0\<lparr>pp_ms := m1, pp_http := h1\<rparr>) @ [0x47, 1, 2]\<rparr>)"
    by (rule pipe_step.pipe_recv) (simp_all add: s0_def h1_def)
  with r1 have "reach ?i ?s ((s0\<lparr>pp_ms := m1, pp_http := h1\<rparr>)\<lparr>pp_pending := [0x47, 1, 2],
      pp_received := pp_received (s0\<lparr>pp_ms := m1, pp_http := h1\<rparr>) @ [0x47, 1, 2]\<rparr>)" by (rule reach_step)
  then show ?thesis using m ms_open_keeps(3)[OF o1] by (intro exI conjI) (auto simp: s0_def)
qed

theorem http_stream_delivered_witness:
  "\<exists>s. reach (pipe_init sample_ms_env 188) (pipe_step sample_ms_env 188) s \<and>
     [0x47, 1, 2] = concat (posted_to 0 (ms_log (pp_ms s))) @ take (pp_offset s) (pp_chunk s) @ in_queue (pp_ms s) @
           in_buffer (pp_http s) (pp_ms s) @ pp_pending s"
proof -
  obtain s where s: "reach (pipe_init sample_ms_env 188) (pipe_step sample_ms_env 188) s" "mSPr (pp_ms s) = [0]" "pp_received s = [0x47, 1, 2]"
    using sample_pipe by blast
  have "0 < (188::nat)" "(188::nat) < 2 ^ 32" "0 \<in> set (mSPr (pp_ms s))" using s(2) by simp_all
  from http_stream_delivered[OF this(1,2) s(1) this(3)] show ?thesis using s(1,3) by (intro exI[of _ s]) simp
qed

section \<open>Faults\<close>

text \<open>
  Opening another channel keeps the partly filled buffer: when it is full, the bytes of the old channel in it are
  pushed under the address of the new one.
\<close>

theorem stale_bytes_in_new_channel:
  assumes "http_open True uri h = Some h'" and "ms_heap m p = Some b" and "http_full p (h'\<lparr>mCurrentOffset := n\<rparr>) m = Some (h2, m2)"
  shows "mCurrentOffset h' = mCurrentOffset h \<and>
     (\<exists>b'. ms_heap m2 p = Some b' \<and> bq_channelInfo b' = Str_ptr (c_str uri) \<and> bq_data b' = bq_data b)"
proof -
  have h': "h' = h\<lparr>hd_uri := uri, hd_exitRequested := False, mHttpThread := True\<rparr>" using assms(1) by (simp add: http_open_def)
  have keep: "ms_heap t = ms_heap s" if "pushBuffertoBQ p k s = Some t" for s t k
    using that by (auto simp: pushBuffertoBQ_def Let_def split: if_splits Option.bind_splits)
  show ?thesis using assms(2,3) keep unfolding http_full_def h'
    by (auto simp: Let_def split: if_splits Option.bind_splits)
qed

text \<open>
  The channel information of a new buffer is whatever the memory held: if that is not the null pointer, the first
  buffer pushed frees a stray pointer.
\<close>

theorem stray_channel_info_freed:
  assumes "ms_heap m p = Some b" and "alloc_bq_buffer (Some (Wild_ptr, data)) n c = (Some b, c')"
  shows "http_full p h m = None"
  using assms by (auto simp: http_full_def alloc_bq_buffer_def Let_def)

end
