(* ===== verification/Fcc_Plugin.thy ===== *)
theory Fcc_Plugin
  imports Config_Handlers Time_Shift_Play Http_Demuxer
begin

text \<open>
  The plugin that streamfs calls (\<open>FCCPlugin\<close>): opening, reading, writing and releasing the nodes. One node is the
  stream, read from the time-shift buffer; the others are answered by the handlers. The theorems follow requests
  from the file system to the handlers and back.
\<close>

section \<open>The plugin\<close>

record 'p FCCPlugin =
  mActiveUris :: "string list"
  mFiles :: "string list"
  mStreamOpenCounters :: "(string \<times> u32) list"
  fp :: "'p fcc"

definition available_channels_g :: "string list" where
  "available_channels_g = [STREAM_SRC_FILE]"

definition TS_FILE_FOOTER_BYTES :: nat where "TS_FILE_FOOTER_BYTES = 1024 * 1024 * 1000"
definition EOVERFLOW :: int where "EOVERFLOW = 75"

text \<open>
  The constructor. The monitored variables come with the watchers that the constructors of the handlers register;
  \<open>p0\<close> is the byte pool, \<open>mem\<close> what \<open>malloc\<close> returns for the buffers. The consumers are the time-shift
  buffer (0), the ECM cache (1), which does nothing, and the parser (2).
\<close>

definition FCCPlugin_new ::
    "('p, 'f) fcc_env \<Rightarrow> fcc_clock \<Rightarrow> (nat \<Rightarrow> (char_ptr \<times> bytes) option) \<Rightarrow> u64 \<Rightarrow> u32 \<Rightarrow> bool \<Rightarrow> bool \<Rightarrow> 'p \<Rightarrow> bytes vmd \<Rightarrow>
     bytes MVar \<Rightarrow> bytes MVar \<Rightarrow> bytes MVar \<Rightarrow> bool MVar \<Rightarrow> int \<times> int \<Rightarrow> (u64 \<times> 'p FCCPlugin) option" where
  "FCCPlugin_new E ck mem counter dMux cbHandler tsDumpEnable p0 vars flush trick srcLost cdm t0 = do {
     tsb \<leftarrow> TimeShiftBufferConsumer_new (Some tsDumpEnable) (ck_now ck) p0 flush trick;
     (counter, m) \<leftarrow> MediaSourceHandler_new (fe_ms E) mem counter dMux cbHandler [0, 1, 2] (Some tsDumpEnable) srcLost (fst t0);
     let s = initConfigHandlers \<lparr>fc_tsb = tsb, fc_media = m,
               fc_protection = ProtectionInfoRequestHandler_new (fe_float E) (fe_hex E), fc_vars = vars,
               mIsCdmSetupDone = cdm, mCdmConfigComplete = True, mLastRequestTime = t0, mGlobalStats = '''',
               mChannelStats = '''', configMap = [], mConfigHandlers = [], fc_notified = []\<rparr>;
     Some (counter, \<lparr>mActiveUris = available_channels_g, mFiles = available_channels_g @ map fst config_handlers_g,
                     mStreamOpenCounters = [], fp = s\<rparr>)
   }"

definition fcc_open :: "string \<Rightarrow> 'p FCCPlugin \<Rightarrow> int \<times> 'p FCCPlugin" where
  "fcc_open path s =
     (if path \<in> set (mFiles s) then
        (0, s\<lparr>mStreamOpenCounters := map_put path (case map_of (mStreamOpenCounters s) path of None \<Rightarrow> 1 | Some n \<Rightarrow> n + 1)
                                      (mStreamOpenCounters s)\<rparr>)
      else (-1, s))"

definition fcc_release :: "u64 \<Rightarrow> string \<Rightarrow> 'p FCCPlugin \<Rightarrow> int \<times> 'p FCCPlugin" where
  "fcc_release handle path s =
     (let s = (case map_of (mStreamOpenCounters s) path of
                 None \<Rightarrow> s | Some n \<Rightarrow> s\<lparr>mStreamOpenCounters := map_put path (n - 1) (mStreamOpenCounters s)\<rparr>)
      in (0, if path \<notin> set (mActiveUris s) then s\<lparr>fp := releaseConfigValue handle (fp s)\<rparr>
             else s\<lparr>fp := (fp s)\<lparr>fc_tsb := tsb_release handle (fc_tsb (fp s))\<rparr>\<rparr>))"

text \<open>
  \<open>read\<close> returns the result and the contents of the caller's buffer; \<open>x86\<close> is \<open>ARCH_X86_64\<close>.
\<close>

definition fcc_read_stream ::
    "('p, 'f) fcc_env \<Rightarrow> bool \<Rightarrow> u64 \<Rightarrow> bytes \<Rightarrow> u64 \<Rightarrow> 'p FCCPlugin \<Rightarrow> int \<times> bytes \<times> 'p FCCPlugin" where
  "fcc_read_stream E x86 handle buf offset s =
     (if isChannelActive (fc_media (fp s)) then
        let (n, buf, tsb) = tsb_readData (fe_tsb E) handle buf (fc_tsb (fp s));
            s = s\<lparr>fp := (fp s)\<lparr>fc_tsb := tsb\<rparr>\<rparr>
        in if x86 \<and> ret_size n = 0 \<and> offset > INT64_MAX - word_of_nat TS_FILE_FOOTER_BYTES
           then (ret_size (length buf), replicate (length buf) 0, s) else (ret_size n, buf, s)
      else (0, buf, s))"

definition fcc_read_node ::
    "('p, 'f) fcc_env \<Rightarrow> u64 \<Rightarrow> string \<Rightarrow> bytes \<Rightarrow> u64 \<Rightarrow> 'p FCCPlugin \<Rightarrow> (int \<times> bytes \<times> 'p FCCPlugin) option" where
  "fcc_read_node E handle path buf offset s = do {
     (conf, c) \<leftarrow> getConfigValue E handle path (offset \<noteq> 0) (fp s);
     let s = s\<lparr>fp := c\<rparr>;
     if conf = '''' then Some (0, buf, s)
     else if unat offset > length conf then Some (- EOVERFLOW, buf, s)
     else do {
       let readByteNum = min (length conf - unat offset) (length buf);
       let result = take (unat offset + readByteNum) (drop (unat offset) conf);
       d \<leftarrow> mem_read (str_bytes result) 0 readByteNum;
       buf \<leftarrow> mem_write buf 0 d;
       Some (ret_size readByteNum, buf, s)
     }
   }"

definition fcc_read ::
    "('p, 'f) fcc_env \<Rightarrow> bool \<Rightarrow> u64 \<Rightarrow> string \<Rightarrow> bytes \<Rightarrow> u64 \<Rightarrow> 'p FCCPlugin \<Rightarrow> (int \<times> bytes \<times> 'p FCCPlugin) option" where
  "fcc_read E x86 handle path buf offset s =
     (if path \<in> set (mActiveUris s) then Some (fcc_read_stream E x86 handle buf offset s)
      else fcc_read_node E handle path buf offset s)"

definition fcc_write ::
    "('p, 'f) fcc_env \<Rightarrow> fcc_clock \<Rightarrow> string \<Rightarrow> bytes \<Rightarrow> u64 \<Rightarrow> 'p FCCPlugin \<Rightarrow> (exn + int \<times> 'p FCCPlugin) option" where
  "fcc_write E ck node buf offset s =
     (if offset \<noteq> 0 then Some (Inr (ret_size (length buf), s))
      else case targetToConfigHandler node (fp s) of
        None \<Rightarrow> Some (Inr (ret_size (length buf), s))
      | Some h \<Rightarrow> map_option (map_sum id (\<lambda>(r, c). (r, s\<lparr>fp := c\<rparr>)))
                   (writeConfig E ck h node (bytes_str buf) (length buf) (fp s)))"

definition fcc_getSize :: "('p, 'f) fcc_env \<Rightarrow> string \<Rightarrow> 'p FCCPlugin \<Rightarrow> (u64 \<times> 'p FCCPlugin) option" where
  "fcc_getSize E path s =
     (if path \<in> set (mActiveUris s) then Some (INT64_MAX, s)
      else map_option (\<lambda>(n, c). (n, s\<lparr>fp := c\<rparr>)) (getConfigSize E path (fp s)))"

text \<open>Which demuxer the entry point makes, from the environment variable.\<close>

datatype demuxer_choice = Use_http | Use_linked | Refused

definition INIT_STREAMFS_PLUGIN :: "string option \<Rightarrow> bool \<Rightarrow> demuxer_choice" where
  "INIT_STREAMFS_PLUGIN streamType initialised = (case streamType of
     Some t \<Rightarrow> if t = ''http'' then Use_http else Refused
   | None \<Rightarrow> if initialised then Refused else Use_linked)"

section \<open>Every node has its handler\<close>

text \<open>The table that the constructor fills.\<close>

lemma init_table_handlers:
  "init_table config_handlers_g [] =
     [(CHANNEL_SELECT, ChannelSelector), (PLAYER_STATE, PlayerStateRequestHandler), (SEEK_CONTROL, SeekRequestHandler),
      (STATS_CONTROL, StatsRequestHandler), (PROTECTION_INFO, ProtectionInfoHandler), (CDM_STATUS, CdmStatusHandler),
      (STREAM_INFO, StreamInfoRequestHandler), (TRICK_PLAY, TrickPlayRequestHandler)]"
  by (simp add: config_handlers_g_def handler_of_def)

definition plugin_ok :: "'p FCCPlugin \<Rightarrow> bool" where
  "plugin_ok s \<longleftrightarrow> mActiveUris s = available_channels_g \<and> mFiles s = available_channels_g @ map fst config_handlers_g \<and>
     mConfigHandlers (fp s) = init_table config_handlers_g []"

text \<open>The entry of a node is found, although the search compares prefixes: no entry begins with an earlier one of another kind.\<close>

lemma node_type:
  assumes "(node, t) \<in> set config_handlers_g"
  shows "file_name_to_ConfigType node = t"
proof -
  have "list_all (\<lambda>(node, t). file_name_to_ConfigType node = t) config_handlers_g" by code_simp
  then show ?thesis using assms by (auto simp: list_all_iff)
qed

lemma plugin_new_ok:
  assumes "FCCPlugin_new E ck mem counter dMux cb tsDump p0 vars flush trick srcLost cdm t0 = Some (c, s)"
  shows "plugin_ok s"
  using assms unfolding FCCPlugin_new_def
  by (auto simp: plugin_ok_def initConfigHandlers_def split: Option.bind_splits)

text \<open>No request changes the table, the nodes or the streams.\<close>

lemma stats_getConfig_keeps: "stats_getConfig E f c = (r, c') \<Longrightarrow> mConfigHandlers c' = mConfigHandlers c"
  by (auto simp: stats_getConfig_def Let_def split: if_splits prod.splits)

lemma readConfig_keeps:
  assumes "readConfig E h path c = Some (v, c')"
  shows "mConfigHandlers c' = mConfigHandlers c"
  using assms stats_getConfig_keeps[of E path c v c']
  by (cases h) (auto simp: readConfig_def seek_getConfig_def info_getConfig_def split: option.splits Option.bind_splits)

lemma fcc_media_open_keeps: "fcc_media_open E ck uri c = Some (rc, c') \<Longrightarrow> mConfigHandlers c' = mConfigHandlers c"
  by (auto simp: fcc_media_open_def split: Option.bind_splits)

lemma chan_writeConfig_keeps:
  assumes "chan_writeConfig E ck f buf sz c = Some (Inr (r, c'))"
  shows "mConfigHandlers c' = mConfigHandlers c"
proof -
  define c1 where "c1 = (case ck_monotonic ck of None \<Rightarrow> c | Some t \<Rightarrow> c\<lparr>mLastRequestTime := t\<rparr>)"
  have "mConfigHandlers c1 = mConfigHandlers c" by (simp add: c1_def split: option.split)
  then show ?thesis using assms fcc_media_open_keeps[of E ck "filter (\<lambda>x. x \<noteq> CHR 0x0A) buf" c1]
    by (auto simp: chan_writeConfig_def Let_def c1_def[symmetric] fcc_notify_def split: if_splits Option.bind_splits)
qed

lemma writeConfig_keeps:
  assumes "writeConfig E ck h f buf sz c = Some (Inr (r, c'))"
  shows "mConfigHandlers c' = mConfigHandlers c"
proof (cases h)
  case ChannelSelector
  then show ?thesis using assms chan_writeConfig_keeps[of E ck f buf sz c r c'] by (simp add: writeConfig_def)
qed (use assms in \<open>auto simp: writeConfig_def player_writeConfig_def seek_writeConfig_def trick_writeConfig_def cdm_writeConfig_def Let_def
      split: sum.splits exn.splits if_splits option.splits Option.bind_splits\<close>)

inductive plugin_step :: "('p, 'f) fcc_env \<Rightarrow> 'p FCCPlugin \<Rightarrow> 'p FCCPlugin \<Rightarrow> bool" for E where
  plugin_open: "fcc_open path s = (r, s') \<Longrightarrow> plugin_step E s s'"
| plugin_release: "fcc_release handle path s = (r, s') \<Longrightarrow> plugin_step E s s'"
| plugin_read: "fcc_read E x86 handle path buf offset s = Some (r, buf', s') \<Longrightarrow> plugin_step E s s'"
| plugin_write: "fcc_write E ck node buf offset s = Some (Inr (r, s')) \<Longrightarrow> plugin_step E s s'"
| plugin_getSize: "fcc_getSize E path s = Some (n, s') \<Longrightarrow> plugin_step E s s'"

lemma getConfigValue_keeps: "getConfigValue E h path b c = Some (v, c') \<Longrightarrow> mConfigHandlers c' = mConfigHandlers c"
  by (auto simp: getConfigValue_def dest: readConfig_keeps split: option.splits)

lemma getConfigSize_keeps: "getConfigSize E path c = Some (v, c') \<Longrightarrow> mConfigHandlers c' = mConfigHandlers c"
  by (auto simp: getConfigSize_def handler_getSize_def dest: readConfig_keeps split: option.splits ConfigHandler.splits)

lemma plugin_ok_cong:
  "plugin_ok s \<Longrightarrow> mActiveUris s' = mActiveUris s \<Longrightarrow> mFiles s' = mFiles s \<Longrightarrow> mConfigHandlers (fp s') = mConfigHandlers (fp s) \<Longrightarrow> plugin_ok s'"
  by (simp add: plugin_ok_def)

lemma fcc_read_node_keeps:
  assumes "fcc_read_node E handle path buf offset s = Some (r, buf', s')"
  shows "\<exists>v c. getConfigValue E handle path (offset \<noteq> 0) (fp s) = Some (v, c) \<and> s' = s\<lparr>fp := c\<rparr>"
proof (cases "getConfigValue E handle path (offset \<noteq> 0) (fp s)")
  case None
  then show ?thesis using assms by (simp add: fcc_read_node_def)
next
  case (Some vc)
  obtain v c where vc: "vc = (v, c)" by (cases vc)
  show ?thesis using assms unfolding fcc_read_node_def Some vc
    by (simp add: Let_def mem_read_def mem_write_def split: if_splits)
qed

lemma fcc_write_keeps:
  assumes "fcc_write E ck node buf offset s = Some (Inr (r, s'))"
  shows "s' = s \<or> (\<exists>h c. writeConfig E ck h node (bytes_str buf) (length buf) (fp s) = Some (Inr (r, c)) \<and> s' = s\<lparr>fp := c\<rparr>)"
proof (cases "offset \<noteq> 0 \<or> targetToConfigHandler node (fp s) = None")
  case True
  then show ?thesis using assms by (auto simp: fcc_write_def split: if_splits)
next
  case False
  then obtain h where h: "targetToConfigHandler node (fp s) = Some h" by auto
  show ?thesis
  proof (cases "writeConfig E ck h node (bytes_str buf) (length buf) (fp s)")
    case None
    then show ?thesis using assms False h by (simp add: fcc_write_def)
  next
    case (Some w)
    then show ?thesis using assms False h by (cases w) (auto simp: fcc_write_def)
  qed
qed

lemma plugin_ok_step:
  assumes "plugin_ok s" "plugin_step E s s'"
  shows "plugin_ok s'"
  using assms(2)
proof cases
  case (plugin_open path r)
  then show ?thesis using assms(1) by (auto simp: fcc_open_def plugin_ok_def split: if_splits)
next
  case (plugin_release handle path r)
  then have "mActiveUris s' = mActiveUris s" "mFiles s' = mFiles s" "mConfigHandlers (fp s') = mConfigHandlers (fp s)"
    by (auto simp: fcc_release_def releaseConfigValue_def cache_remove_def Let_def split: if_splits option.splits)
  then show ?thesis by (rule plugin_ok_cong[OF assms(1)])
next
  case (plugin_read x86 handle path buf offset r buf')
  show ?thesis
  proof (cases "path \<in> set (mActiveUris s)")
    case True
    then have "fcc_read_stream E x86 handle buf offset s = (r, buf', s')" using plugin_read by (simp add: fcc_read_def)
    then have "mActiveUris s' = mActiveUris s" "mFiles s' = mFiles s" "mConfigHandlers (fp s') = mConfigHandlers (fp s)"
      by (auto simp: fcc_read_stream_def Let_def split: if_splits prod.splits)
    then show ?thesis by (rule plugin_ok_cong[OF assms(1)])
  next
    case False
    then have "fcc_read_node E handle path buf offset s = Some (r, buf', s')" using plugin_read by (simp add: fcc_read_def)
    from fcc_read_node_keeps[OF this] obtain v c
      where c: "getConfigValue E handle path (offset \<noteq> 0) (fp s) = Some (v, c)" "s' = s\<lparr>fp := c\<rparr>" by blast
    show ?thesis by (rule plugin_ok_cong[OF assms(1)]) (use c getConfigValue_keeps[OF c(1)] in simp_all)
  qed
next
  case (plugin_write ck node buf offset r)
  from fcc_write_keeps[OF plugin_write] show ?thesis
  proof (elim disjE exE conjE)
    assume "s' = s"
    then show ?thesis using assms(1) by simp
  next
    fix h c
    assume w: "writeConfig E ck h node (bytes_str buf) (length buf) (fp s) = Some (Inr (r, c))" "s' = s\<lparr>fp := c\<rparr>"
    show ?thesis by (rule plugin_ok_cong[OF assms(1)]) (use w writeConfig_keeps[OF w(1)] in simp_all)
  qed
next
  case (plugin_getSize path n)
  show ?thesis
  proof (cases "path \<in> set (mActiveUris s)")
    case True
    then show ?thesis using plugin_getSize assms(1) by (simp add: fcc_getSize_def)
  next
    case False
    then obtain c where c: "getConfigSize E path (fp s) = Some (n, c)" "s' = s\<lparr>fp := c\<rparr>"
      using plugin_getSize by (auto simp: fcc_getSize_def)
    show ?thesis by (rule plugin_ok_cong[OF assms(1)]) (use c getConfigSize_keeps[OF c(1)] in simp_all)
  qed
qed

definition plugin_init :: "('p, 'f) fcc_env \<Rightarrow> 'p FCCPlugin \<Rightarrow> bool" where
  "plugin_init E s \<longleftrightarrow> (\<exists>ck mem counter dMux cb tsDump p0 vars flush trick srcLost cdm t0 c.
     FCCPlugin_new E ck mem counter dMux cb tsDump p0 vars flush trick srcLost cdm t0 = Some (c, s))"

interpretation plugin: inductive_invariant "plugin_init E" "plugin_step E" plugin_ok for E
  by unfold_locales (auto simp: plugin_init_def intro: plugin_new_ok plugin_ok_step)

section \<open>Reading a node in pieces\<close>

lemma bytes_str_bytes [simp]: "bytes_str (str_bytes s) = s"
proof -
  have "char_of (unat (of_char c :: u8)) = c" for c
  proof -
    have "unat (word_of_nat (of_char c) :: u8) = of_char c"
      by (subst unat_of_nat) (simp add: take_bit_nat_eq_self)
    then have "unat (of_char c :: u8) = of_char c" by (simp only: of_nat_of_char)
    then show ?thesis by simp
  qed
  then show ?thesis by (induction s) (simp_all add: bytes_str_def str_bytes_def)
qed

text \<open>A reader that asks for pieces of the given sizes, each from where the last one ended.\<close>

fun read_pieces :: "('p, 'f) fcc_env \<Rightarrow> bool \<Rightarrow> u64 \<Rightarrow> string \<Rightarrow> nat list \<Rightarrow> nat \<Rightarrow> 'p FCCPlugin \<Rightarrow> bytes option" where
  "read_pieces E x86 handle path [] offset s = Some []"
| "read_pieces E x86 handle path (n # ns) offset s = do {
     (r, buf, s) \<leftarrow> fcc_read E x86 handle path (replicate n 0) (word_of_nat offset) s;
     if r < 0 then None
     else do {
       rest \<leftarrow> read_pieces E x86 handle path ns (offset + nat r) s;
       Some (take (nat r) buf @ rest)
     }
   }"

lemma node_handler:
  assumes "plugin_ok s" "(path, t) \<in> set config_handlers_g" "handler_of t = Some h"
  shows "targetToConfigHandler path (fp s) = Some h" "path \<notin> set (mActiveUris s)"
proof -
  have "map_of (init_table config_handlers_g []) t = handler_of t"
    unfolding init_table_handlers by (cases t) (simp_all add: handler_of_def)
  then show "targetToConfigHandler path (fp s) = Some h"
    using assms node_type[OF assms(2)] by (simp add: targetToConfigHandler_def plugin_ok_def)
  have "list_all (\<lambda>(node, t). node \<noteq> STREAM_SRC_FILE) config_handlers_g" by code_simp
  then show "path \<notin> set (mActiveUris s)"
    using assms(1,2) by (auto simp: plugin_ok_def available_channels_g_def list_all_iff)
qed

lemma ret_size_nat: "n < 2 ^ 31 \<Longrightarrow> ret_size n = int n"
proof -
  assume n: "n < 2 ^ 31"
  then have "unat (word_of_nat n :: u32) = n" by (subst unat_of_nat) (simp add: take_bit_nat_eq_self)
  then have "uint (word_of_nat n :: u32) = int n" by (metis uint_nat)
  then show ?thesis using n by (simp add: ret_size_def sint_uint signed_take_bit_int_eq_self)
qed

lemma read_piece:
  assumes "targetToConfigHandler path (fp s) = Some h" "path \<notin> set (mActiveUris s)" "readConfig E h path (fp s) = Some (v, fp s)"
    and "length v < 2 ^ 31" "offset \<le> length v"
  shows "\<exists>buf. fcc_read E x86 handle path (replicate n 0) (word_of_nat offset) s = Some (int (min (length v - offset) n), buf, s) \<and>
     take (min (length v - offset) n) buf = str_bytes (take n (drop offset v))"
proof (cases "v = []")
  case True
  then show ?thesis using assms by (simp add: fcc_read_def fcc_read_node_def getConfigValue_def str_bytes_def)
next
  case False
  define k where "k = min (length v - offset) n"
  have o: "unat (word_of_nat offset :: u64) = offset"
    using assms(4,5) by (subst unat_of_nat) (simp add: take_bit_nat_eq_self)
  have k: "ret_size k = int k" using assms(4) by (intro ret_size_nat) (simp add: k_def)
  define d where "d = take k (str_bytes (take (offset + k) (drop offset v)))"
  have dl: "length d = k" by (simp add: d_def str_bytes_def k_def)
  have r: "mem_read (str_bytes (take (offset + k) (drop offset v))) 0 k = Some d"
    by (simp add: mem_read_def d_def str_bytes_def k_def)
  have w: "mem_write (replicate n 0) 0 d = Some (d @ drop k (replicate n 0))"
    using dl by (simp add: mem_write_def k_def)
  have de: "d = str_bytes (take n (drop offset v))"
    by (simp add: d_def str_bytes_def k_def take_map min_def)
  show ?thesis using assms False o k r w dl de
    by (simp add: fcc_read_def fcc_read_node_def getConfigValue_def Let_def k_def[symmetric])
qed

lemma read_pieces_from:
  assumes "targetToConfigHandler path (fp s) = Some h" "path \<notin> set (mActiveUris s)" "readConfig E h path (fp s) = Some (v, fp s)"
    and "length v < 2 ^ 31" "offset \<le> length v"
  shows "read_pieces E x86 handle path ns offset s = Some (str_bytes (take (sum_list ns) (drop offset v)))"
  using assms(5)
proof (induction ns arbitrary: offset)
  case Nil
  then show ?case by (simp add: str_bytes_def)
next
  case (Cons n ns)
  define k where "k = min (length v - offset) n"
  obtain buf where b: "fcc_read E x86 handle path (replicate n 0) (word_of_nat offset) s = Some (int k, buf, s)"
      "take k buf = str_bytes (take n (drop offset v))"
    using read_piece[OF assms(1-4) Cons.prems, of x86 handle n] unfolding k_def by blast
  have "read_pieces E x86 handle path ns (offset + k) s = Some (str_bytes (take (sum_list ns) (drop (offset + k) v)))"
    using Cons.prems by (intro Cons.IH) (simp add: k_def)
  moreover have "take n (drop offset v) @ take (sum_list ns) (drop (offset + k) v) = take (n + sum_list ns) (drop offset v)"
    by (simp add: k_def take_add min_def add.commute)
  ultimately show ?case using b by (simp add: str_bytes_def flip: map_append)
qed


definition sample_fcc_env :: "(u64, int) fcc_env" where
  "sample_fcc_env = \<lparr>fe_tsb = count_env, fe_ms = sample_ms_env, fe_float = float_ops_int, fe_hex = hex_upper,
     fe_norm = (\<lambda>s. s), fe_signed_char = True, PROJECT_MAJOR_VERSION = 1, PROJECT_MINOR_VERSION = 0, PROJECT_REVISION = ''a'',
     getpid = 1\<rparr>"

definition sample_clock :: fcc_clock where
  "sample_clock = \<lparr>ck_monotonic = Some (0, 0), ck_ms = 0, ck_us = 0, ck_now = 0\<rparr>"

lemma sample_plugin: "\<exists>s. reach (plugin_init sample_fcc_env) (plugin_step sample_fcc_env) s \<and> getPlayerState (fc_tsb (fp s)) = UNDEF"
proof -
  let ?mem = "\<lambda>i::nat. Some (Null_ptr, replicate FEIP_BUFFER_SIZE (0::u8))"
  have tsb: "TimeShiftBufferConsumer_new (Some False) 0 0 quiet_var quiet_var = Some (tsb_new\<lparr>mTsDumpEnable := Some False\<rparr>)"
    by (simp add: TimeShiftBufferConsumer_new_def BufferIndexer_new_def pool_size BUFFER_POOL_TAIL_SIZE_def BUFFER_SAMPLING_RATIO_def tsb_new_def)
  obtain c m where m: "MediaSourceHandler_new sample_ms_env ?mem 0 0 True [0, 1, 2] (Some False) quiet_var 0 = Some (c, m)"
    using media_new_returns[of quiet_var sample_ms_env ?mem 0 0 "[0, 1, 2]" "Some False" 0] by (auto simp: quiet_var_def)
  obtain s where s: "FCCPlugin_new sample_fcc_env sample_clock ?mem 0 0 True False 0 Map.empty quiet_var quiet_var quiet_var
      \<lparr>mValue = False, mId = kCdm0, mWatchers = []\<rparr> (0, 0) = Some (c, s)" "fc_tsb (fp s) = tsb_new\<lparr>mTsDumpEnable := Some False\<rparr>"
    using tsb m by (simp add: FCCPlugin_new_def sample_fcc_env_def sample_clock_def initConfigHandlers_def)
  have "plugin_init sample_fcc_env s" unfolding plugin_init_def using s(1) by blast
  then have "reach (plugin_init sample_fcc_env) (plugin_step sample_fcc_env) s" by (rule reach_init)
  then show ?thesis using s(2) by (intro exI[of _ s]) (simp add: getPlayerState_def tsb_new_def)
qed


section \<open>Writing a seek time\<close>

lemma stoull_nat_dec: "stoull (nat_dec n @ [CHR 0x0A]) = (if n < 2 ^ 64 then Inr (word_of_nat n) else Inl Out_of_range)"
  using sto_number_int_dec[of "[CHR 0x0A]" "int n"] by (simp add: stoull_def int_dec_def isdigit_def)



section \<open>Trick play and channels\<close>

text \<open>The speed is read as an \<open>int\<close> and kept in sixteen bits: 65538 is taken for 2.\<close>

theorem trick_speed_truncated: "trick_writeConfig E ''65538'' sz c = trick_writeConfig E ''2'' sz c"
proof -
  have s: "stoi ''65538'' = Inr 65538" "stoi ''2'' = Inr 2"
    by (simp_all add: stoi_def sto_int_def sto_number_def isspace_def isdigit_def dec_val_def digit_val_def)
  have w: "(word_of_int 65538 :: u16) = word_of_int 2" by (simp add: word_of_int_eq_iff take_bit_eq_mod)
  show ?thesis by (simp only: trick_writeConfig_def s sum.case w)
qed

text \<open>Selecting the channel that is on already fails, although the node is notified.\<close>

theorem same_channel_refused:
  assumes "mCurrentUri (fc_media c) = uri" "CHR 0x0A \<notin> set uri" "ms_tsDumpEnable (fc_media c) = None"
  shows "\<exists>c'. chan_writeConfig E ck CONFIG_F_CHANNEL_SELECT uri sz c = Some (Inr (-1, c')) \<and>
     fc_notified c' = fc_notified c @ [CONFIG_F_CHANNEL_SELECT]"
proof -
  have "filter (\<lambda>x. x \<noteq> CHR 0x0A) uri = uri" using assms(2) by (simp add: filter_id_conv) metis
  then show ?thesis using assms
    by (cases "ck_monotonic ck") (simp_all add: chan_writeConfig_def fcc_media_open_def ms_open_def ts_dump_def fcc_notify_def Let_def)
qed

end
