(* ===== verification/Udp_Listener.thy ===== *)
theory Udp_Listener
  imports Rtp_Listener Media_Stream
begin

text \<open>
  The UDP input (\<open>3rdparty/udp\<close>), the data source that the build takes unless another is chosen: its socket, the
  turn of its reader thread that copies a datagram into a buffer of the media source, and the demuxers around it and
  around the RTP listener. The
  answers of the system calls are arguments. \<open>None\<close> is undefined behaviour or a call that does not return.
\<close>

section \<open>The listener\<close>

text \<open>
  The pointer to the media source has no initialiser: \<open>None\<close> until \<open>setup\<close> stores one. The descriptors that the
  class holds open are recorded.
\<close>

record UdpStreamListener =
  udp_mFd :: int
  udp_mExitRequested :: bool
  udp_mAddr_port :: u16
  udp_mPHandler :: "bool option"
  udp_open_fds :: "int list"

definition UdpStreamListener_new :: UdpStreamListener where
  "UdpStreamListener_new = \<lparr>udp_mFd = 0, udp_mExitRequested = False, udp_mAddr_port = 0, udp_mPHandler = None, udp_open_fds = []\<rparr>"

definition udp_setup :: "setup_calls \<Rightarrow> u16 \<Rightarrow> UdpStreamListener \<Rightarrow> int \<times> UdpStreamListener" where
  "udp_setup os port s =
     (let s = s\<lparr>udp_mPHandler := Some True\<rparr>; fd = sc_socket os
      in if fd < 0 then (1, s)
         else
           let s = s\<lparr>udp_open_fds := fd # udp_open_fds s\<rparr>;
               fail_setup = (1, s\<lparr>udp_open_fds := remove1 fd (udp_open_fds s)\<rparr>)
           in if sc_reuse os < 0 then fail_setup
              else if sc_bind os < 0 then fail_setup
              else if sc_join os < 0 then fail_setup
              else
                let s = (if udp_mFd s \<noteq> 0 then s\<lparr>udp_open_fds := remove1 (udp_mFd s) (udp_open_fds s)\<rparr> else s)
                in (0, s\<lparr>udp_mAddr_port := port, udp_mFd := fd\<rparr>))"

text \<open>
  A turn of \<open>readLoop\<close> in which \<open>recvfrom\<close> returns \<open>n\<close> and leaves \<open>buf\<close> in the local array.
\<close>

definition udp_turn :: "ms_env \<Rightarrow> int \<Rightarrow> int \<Rightarrow> bytes \<Rightarrow> UdpStreamListener \<Rightarrow> MediaSourceHandler \<Rightarrow> MediaSourceHandler option" where
  "udp_turn E now n buf u s = do {
     handler \<leftarrow> udp_mPHandler u;
     if handler then do {
       (cBuf, s) \<leftarrow> acquireBuffer s;
       b \<leftarrow> ms_heap s cBuf;
       d \<leftarrow> mem_read buf 0 FEIP_BUFFER_SIZE;
       d \<leftarrow> mem_write (bq_data b) 0 d;
       s \<leftarrow> pushBuffertoBQ cBuf 0 (s\<lparr>ms_heap := (ms_heap s)(cBuf \<mapsto> b\<lparr>bq_data := d, bq_size := word_of_int n\<rparr>)\<rparr>);
       reportTSBufferQueued E now s
     } else Some s
   }"

definition udp_destroy :: "UdpStreamListener \<Rightarrow> UdpStreamListener" where
  "udp_destroy s =
     (let s = s\<lparr>udp_mExitRequested := True\<rparr>
      in if udp_mFd s \<noteq> 0 then s\<lparr>udp_open_fds := remove1 (udp_mFd s) (udp_open_fds s)\<rparr> else s)"

section \<open>The demuxers\<close>

text \<open>
  Opening a channel with \<open>UdpDemuxer\<close> and \<open>RtpDemuxer\<close>. Their other methods have an empty body or return 0 or the
  empty string.
\<close>

definition udp_open :: "cc_env \<Rightarrow> setup_calls \<Rightarrow> string \<Rightarrow> UdpStreamListener \<Rightarrow> (int \<times> UdpStreamListener) option" where
  "udp_open E os uri s = do {
     channelConfig \<leftarrow> ChannelConfig_new E uri DEFAULT_SOCKET_PORT;
     Some (0, snd (udp_setup os (cc_port channelConfig) s))
   }"

definition rtp_open :: "cc_env \<Rightarrow> setup_calls \<Rightarrow> string \<Rightarrow> RtpStreamListener \<Rightarrow> (int \<times> RtpStreamListener) option" where
  "rtp_open E os uri s = do {
     channelConfig \<leftarrow> ChannelConfig_new E uri DEFAULT_SOCKET_PORT;
     Some (0, snd (RtpStreamListener_setup os (uint (cc_port channelConfig)) s))
   }"

section \<open>Datagrams\<close>

lemma mem_write_all: "length d = length m \<Longrightarrow> mem_write m 0 d = Some d"
  by (simp add: mem_write_def)

lemma reportTSBufferQueued_live:
  assumes "\<forall>w\<in>set (mWatchers (mBufferSrcLostMVar s)). \<not> ms_expired E w \<and> ms_callable E w"
  shows "\<exists>s'. reportTSBufferQueued E now s = Some s' \<and> mFccBufferQueue s' = mFccBufferQueue s \<and> ms_heap s' = ms_heap s \<and>
     mSPr s' = mSPr s \<and> ms_log s' = ms_log s \<and> \<not> mBufferSourceLost s' \<and> mLastValidBufferTimeMs s' = now"
  using assms by (simp add: reportTSBufferQueued_def ms_assign_live Let_def)

text \<open>What a turn leaves: the buffer, with the datagram in it, at the end of the queue.\<close>

lemma udp_turn_spec:
  assumes n: "0 \<le> n" "n \<le> int FEIP_BUFFER_SIZE" "length buf = FEIP_BUFFER_SIZE" and u: "udp_mPHandler u = Some True"
    and watchers: "\<forall>w\<in>set (mWatchers (mBufferSrcLostMVar s)). \<not> ms_expired E w \<and> ms_callable E w"
    and queue: "\<not> exitPending (mFccBufferQueue s)" "producerQueue (mFccBufferQueue s) = p # ps"
      "length (consumerQueue (mFccBufferQueue s)) < mMaxDepth (mFccBufferQueue s)"
    and buffer: "ms_heap s p = Some b" "length (bq_data b) = FEIP_BUFFER_SIZE"
    and sess: "map_of (mSessions s) 0 = Some sess" and dmp: "\<not> mDumpInputStreamEnabled s"
  shows "\<exists>s'. udp_turn E now n buf u s = Some s' \<and>
     mFccBufferQueue s' = (mFccBufferQueue s)\<lparr>producerQueue := ps, consumerQueue := consumerQueue (mFccBufferQueue s) @ [p]\<rparr> \<and>
     ms_heap s' = (ms_heap s)(p \<mapsto> b\<lparr>bq_data := buf, bq_size := word_of_int n\<rparr>) \<and> mSPr s' = mSPr s \<and>
     (\<forall>i. posted_to i (ms_log s') = posted_to i (ms_log s)) \<and> \<not> mBufferSourceLost s' \<and> mLastValidBufferTimeMs s' = now"
proof -
  define b' where "b' = b\<lparr>bq_data := buf, bq_size := word_of_int n\<rparr>"
  define s1 where "s1 = s\<lparr>mFccBufferQueue := (mFccBufferQueue s)\<lparr>producerQueue := ps\<rparr>, ms_heap := (ms_heap s)(p \<mapsto> b')\<rparr>"
  have size: "unat (bq_size b') \<le> length (bq_data b')"
    using n by (simp add: b'_def FEIP_BUFFER_SIZE_def unsigned_of_int nat_le_iff take_bit_int_eq_self)
  obtain s2 where p: "pushBuffertoBQ p 0 s1 = Some s2"
      "mFccBufferQueue s2 = (mFccBufferQueue s1)\<lparr>consumerQueue := consumerQueue (mFccBufferQueue s1) @ [p]\<rparr>"
      "ms_heap s2 = ms_heap s1" "mSPr s2 = mSPr s1" "\<forall>i. posted_to i (ms_log s2) = posted_to i (ms_log s1)"
      "mBufferSrcLostMVar s2 = mBufferSrcLostMVar s1"
    using pushBuffertoBQ_spec[of s1 p b' 0 sess] size queue sess dmp by (auto simp: s1_def)
  obtain s' where r: "reportTSBufferQueued E now s2 = Some s'" "mFccBufferQueue s' = mFccBufferQueue s2" "ms_heap s' = ms_heap s2"
      "mSPr s' = mSPr s2" "ms_log s' = ms_log s2" "\<not> mBufferSourceLost s'" "mLastValidBufferTimeMs s' = now"
    using reportTSBufferQueued_live[of s2 E now] watchers p(6) by (auto simp: s1_def)
  have "udp_turn E now n buf u s = Some s'"
    using u queue buffer n(3) p(1) r(1)
    by (simp add: udp_turn_def acquireBuffer_def bq_acquire_def isProducerQueueEmpty_def mem_read_def mem_write_all s1_def b'_def)
  then show ?thesis using p r by (simp add: s1_def b'_def)
qed

text \<open>The pass of the consumer that finds one buffer in the queue, of whatever size up to its memory.\<close>

lemma consume_first:
  assumes csz: "0 < csz" "csz < 2 ^ 32" and c: "length chunk = csz" "offset < csz" and d: "distinct (mSPr s)"
    and q: "\<not> exitPending (mFccBufferQueue s)" "consumerQueue (mFccBufferQueue s) = p # qs"
      "length (producerQueue (mFccBufferQueue s)) < mMaxDepth (mFccBufferQueue s)"
    and b: "ms_heap s p = Some b" "unat (bq_size b) \<le> length (bq_data b)"
  shows "\<exists>chunk' offset' s' cs. consumer_pass csz elapsed (chunk, offset, s) = Some (chunk', offset', s') \<and>
     mFccBufferQueue s' = (mFccBufferQueue s)\<lparr>consumerQueue := qs, producerQueue := producerQueue (mFccBufferQueue s) @ [p]\<rparr> \<and>
     (\<forall>i\<in>set (mSPr s). posted_to i (ms_log s') = posted_to i (ms_log s) @ cs) \<and> (\<forall>c\<in>set cs. length c = csz) \<and>
     concat cs @ take offset' chunk' = take offset chunk @ take (unat (bq_size b)) (bq_data b)"
proof -
  define s1 where "s1 = s\<lparr>mFccBufferQueue := (mFccBufferQueue s)\<lparr>consumerQueue := qs\<rparr>\<rparr>"
  obtain chunk' offset' s2 cs where a: "assemble csz (bq_channelInfo b) (bq_data b) 0 (bq_size b) (chunk, offset, s1) = Some (chunk', offset', s2)"
      "media_kept s1 s2" "\<forall>i\<in>set (mSPr s1). posted_to i (ms_log s2) = posted_to i (ms_log s1) @ cs"
      "\<forall>c\<in>set cs. length c = csz" "concat cs @ take offset' chunk' = take offset chunk @ take (unat (bq_size b)) (drop 0 (bq_data b))"
    using assemble_spec[OF csz c, of 0 "bq_size b" "bq_data b" s1 "bq_channelInfo b"] b d by (auto simp: s1_def)
  define s' where "s' = s2\<lparr>mFccBufferQueue := (mFccBufferQueue s)\<lparr>consumerQueue := qs, producerQueue := producerQueue (mFccBufferQueue s) @ [p]\<rparr>\<rparr>"
  have "consumer_pass csz elapsed (chunk, offset, s) = Some (chunk', offset', s')"
    using q a(1,2) b(1)
    by (simp add: consumer_pass_def bq_consume_for_def isConsumerQueueEmpty_def s1_def[symmetric] media_kept_def
        bq_release_def isProducerQueueFull_def s'_def) (simp add: s1_def)
  then show ?thesis using a by (intro exI[of _ chunk'] exI[of _ offset'] exI[of _ s'] exI[of _ cs]) (simp add: s1_def s'_def)
qed

text \<open>
  C22: A datagram reaches the consumers: the turn of the reader that receives it and the next pass of the consumer
  return, the chunks posted to every consumer followed by the part of the next one are the part that was there
  followed by the datagram, every chunk is full, the buffer is free again, and the source no longer counts as lost.
\<close>

theorem udp_datagram_delivered:
  assumes n: "0 \<le> n" "n \<le> int FEIP_BUFFER_SIZE" "length buf = FEIP_BUFFER_SIZE" and u: "udp_mPHandler u = Some True"
    and watchers: "\<forall>w\<in>set (mWatchers (mBufferSrcLostMVar s)). \<not> ms_expired E w \<and> ms_callable E w"
    and queue: "\<not> exitPending (mFccBufferQueue s)" "producerQueue (mFccBufferQueue s) = p # ps" "consumerQueue (mFccBufferQueue s) = []"
      "length ps < mMaxDepth (mFccBufferQueue s)"
    and buffer: "ms_heap s p = Some b" "length (bq_data b) = FEIP_BUFFER_SIZE"
    and sess: "map_of (mSessions s) 0 = Some sess" and "\<not> mDumpInputStreamEnabled s"
    and c: "0 < csz" "csz < 2 ^ 32" "length chunk = csz" "offset < csz" "distinct (mSPr s)"
  shows "\<exists>s1 s2 chunk' offset' cs. udp_turn E now n buf u s = Some s1 \<and> \<not> mBufferSourceLost s1 \<and> mLastValidBufferTimeMs s1 = now \<and>
     consumer_pass csz elapsed (chunk, offset, s1) = Some (chunk', offset', s2) \<and>
     (\<forall>i\<in>set (mSPr s). posted_to i (ms_log s2) = posted_to i (ms_log s) @ cs) \<and> (\<forall>c\<in>set cs. length c = csz) \<and>
     concat cs @ take offset' chunk' = take offset chunk @ take (nat n) buf \<and>
     mFccBufferQueue s2 = (mFccBufferQueue s)\<lparr>producerQueue := ps @ [p]\<rparr>"
proof -
  obtain s1 where s1: "udp_turn E now n buf u s = Some s1"
      "mFccBufferQueue s1 = (mFccBufferQueue s)\<lparr>producerQueue := ps, consumerQueue := [p]\<rparr>"
      "ms_heap s1 p = Some (b\<lparr>bq_data := buf, bq_size := word_of_int n\<rparr>)" "mSPr s1 = mSPr s"
      "\<forall>i. posted_to i (ms_log s1) = posted_to i (ms_log s)" "\<not> mBufferSourceLost s1" "mLastValidBufferTimeMs s1 = now"
    using udp_turn_spec[OF n u watchers queue(1,2) _ buffer sess, where now = now] queue(3,4) assms(13) by fastforce
  have size: "unat (word_of_int n :: u32) = nat n"
    using n(1,2) by (simp add: FEIP_BUFFER_SIZE_def unsigned_of_int take_bit_int_eq_self)
  have "unat (bq_size (b\<lparr>bq_data := buf, bq_size := word_of_int n\<rparr>)) \<le> length (bq_data (b\<lparr>bq_data := buf, bq_size := word_of_int n\<rparr>))"
    using n size by simp
  from consume_first[OF c(1-4) _ _ _ _ s1(3) this, of "[]" elapsed] show ?thesis using s1 size queue c(5) by fastforce
qed

theorem udp_datagram_delivered_witness:
  "\<exists>s1 s2 chunk' offset' cs. udp_turn sample_ms_env 3000 3 (1 # 2 # 3 # replicate (FEIP_BUFFER_SIZE - 3) 0)
       (snd (udp_setup \<lparr>sc_socket = 5, sc_reuse = 0, sc_bind = 0, sc_join = 0\<rparr> 5900 UdpStreamListener_new)) sample_ms = Some s1 \<and>
     consumer_pass 2 False ([7, 8], 1, s1) = Some (chunk', offset', s2) \<and>
     concat cs @ take offset' chunk' = [7, 1, 2, 3] \<and> posted_to 0 (ms_log s2) = cs"
proof -
  let ?u = "snd (udp_setup \<lparr>sc_socket = 5, sc_reuse = 0, sc_bind = 0, sc_join = 0\<rparr> 5900 UdpStreamListener_new)"
  have u: "udp_mPHandler ?u = Some True" by (simp add: udp_setup_def UdpStreamListener_new_def Let_def)
  have s: "mWatchers (mBufferSrcLostMVar sample_ms) = [3]" "\<not> exitPending (mFccBufferQueue sample_ms)"
      "producerQueue (mFccBufferQueue sample_ms) = [1]" "consumerQueue (mFccBufferQueue sample_ms) = []" "0 < mMaxDepth (mFccBufferQueue sample_ms)"
      "ms_heap sample_ms 1 = Some sample_buf" "length (bq_data sample_buf) = FEIP_BUFFER_SIZE"
      "map_of (mSessions sample_ms) 0 = Some FeipSession_new" "\<not> mDumpInputStreamEnabled sample_ms" "mSPr sample_ms = [0]"
      "posted_to 0 (ms_log sample_ms) = []"
    by (simp_all add: sample_ms_def sample_buf_def BufferQueue_new_def)
  obtain s1 s2 chunk' offset' cs where x: "udp_turn sample_ms_env 3000 3 (1 # 2 # 3 # replicate (FEIP_BUFFER_SIZE - 3) 0) ?u sample_ms = Some s1"
      "consumer_pass 2 False ([7, 8], 1, s1) = Some (chunk', offset', s2)"
      "\<forall>i\<in>set (mSPr sample_ms). posted_to i (ms_log s2) = posted_to i (ms_log sample_ms) @ cs"
      "concat cs @ take offset' chunk' = take 1 [7, 8] @ take (nat 3) (1 # 2 # 3 # replicate (FEIP_BUFFER_SIZE - 3) 0)"
    using udp_datagram_delivered [of 3 "1 # 2 # 3 # replicate (FEIP_BUFFER_SIZE - 3) 0" ?u sample_ms sample_ms_env 1 "[]" sample_buf
        FeipSession_new 2 "[7, 8]" 1 3000 False] s u
    by (auto simp: FEIP_BUFFER_SIZE_def sample_ms_env_def)
  then show ?thesis using s(10,11) by (intro exI[of _ s1] exI[of _ s2] exI[of _ chunk'] exI[of _ offset'] exI[of _ cs]) (simp add: numeral_3_eq_3)
qed

section \<open>Faults\<close>

text \<open>
  A failed \<open>recvfrom\<close> is not noticed before its result has become the size of a buffer: pushing the buffer then reads
  outside its memory, whatever the state.
\<close>

theorem udp_recv_error_out_of_bounds:
  assumes "n < 0" "- (2 ^ 31) \<le> n" "length buf = FEIP_BUFFER_SIZE" and "udp_mPHandler u = Some True"
    and "\<forall>p b. ms_heap s p = Some b \<longrightarrow> length (bq_data b) = FEIP_BUFFER_SIZE"
  shows "udp_turn E now n buf u s = None"
proof -
  have "take_bit 32 n = 2 ^ 32 + n" using assms(1,2) by (simp add: take_bit_eq_mod mod_pos_neg_trivial) (smt (verit) mod_add_self1 mod_pos_pos_trivial)
  then have size: "FEIP_BUFFER_SIZE < unat (word_of_int n :: u32)"
    using assms(1,2) by (simp add: FEIP_BUFFER_SIZE_def unsigned_of_int)
  have "pushBuffertoBQ p 0 (t\<lparr>ms_heap := m(p \<mapsto> b\<lparr>bq_data := buf, bq_size := word_of_int n\<rparr>)\<rparr>) = None" for p t m b
    using size assms(3) by (simp add: pushBuffertoBQ_def mem_read_def)
  moreover have "ms_heap t = ms_heap s" if "acquireBuffer s = Some (p, t)" for p t
    using that by (auto simp: acquireBuffer_def split: Option.bind_splits)
  ultimately show ?thesis using assms(3-5)
    by (auto simp: udp_turn_def mem_read_def mem_write_all split: Option.bind_splits)
qed

text \<open>
  A channel that cannot be joined is reported as opened, and the listener goes on with the socket of the old one.
\<close>

theorem udp_open_failure_unreported:
  assumes "ChannelConfig_new E uri DEFAULT_SOCKET_PORT = Some cc" and "sc_bind os < 0"
  shows "\<exists>u'. udp_open E os uri u = Some (0, u') \<and> udp_mFd u' = udp_mFd u \<and> udp_open_fds u' = udp_open_fds u"
  using assms by (simp add: udp_open_def udp_setup_def Let_def)

text \<open>
  Opening another RTP channel keeps the sequence number expected and the packets cached from the old channel.
\<close>

theorem rtp_open_keeps_sequence:
  assumes "rtp_open E os uri s = Some (rc, s')"
  shows "mNextSequenceNumber s' = mNextSequenceNumber s \<and> mBufferCache s' = mBufferCache s"
  using assms by (auto simp: rtp_open_def RtpStreamListener_setup_def Let_def split: Option.bind_splits)

text \<open>The class holds its current socket and no other, from its construction to the end of its destruction.\<close>

definition udp_one_socket :: "UdpStreamListener \<Rightarrow> bool" where
  "udp_one_socket u \<longleftrightarrow> udp_open_fds u = (if udp_mFd u = 0 then [] else [udp_mFd u]) \<and> (udp_mFd u \<noteq> 0 \<longrightarrow> udp_mPHandler u = Some True)"

lemma udp_one_socket_kept:
  "udp_one_socket UdpStreamListener_new"
  "udp_one_socket u \<Longrightarrow> sc_socket os \<noteq> 0 \<Longrightarrow> sc_socket os \<notin> set (udp_open_fds u) \<Longrightarrow> udp_one_socket (snd (udp_setup os port u))"
  "udp_one_socket u \<Longrightarrow> udp_open_fds (udp_destroy u) = []"
  by (auto simp: udp_one_socket_def UdpStreamListener_new_def udp_setup_def udp_destroy_def Let_def)

end
