(* ===== verification/Spec2Isabelle.thy ===== *)
theory Spec2Isabelle
  imports Prelude Rtp_Packets Psi_Stream Psi_Tables Buffer_Queue Monitored_Variable Json_Roundtrip Protection Timers
    Buffer_Indexer Socket_Server Fcc_Plugin Udp_Listener
begin

text \<open>
  Verification of the fast-channel-change plugin for streamfs (the sources under \<open>src/\<close>).

  \<^bold>\<open>The program.\<close> Streamfs mounts a file system and calls the plugin (\<open>FCCPlugin\<close>) when a node is opened, read,
  written or released. Writing the node \<open>chan_select0\<close> opens a channel: the media source (\<open>MediaSourceHandler\<close>)
  asks a demuxer (UDP, RTP or HTTP) to join it. The demuxer's thread takes a free buffer from the buffer queue, fills it
  and queues it; the consumer thread cuts the buffers into chunks and posts them to the stream processor, which hands
  them to its consumers: the PSI parser, which finds the tables needed for decryption and publishes them on the
  node \<open>drm0\<close>, and the time-shift buffer, which keeps the chunks in the pool of streamfs and an index of times
  and byte counts. Reads of the stream node come from the time-shift buffer at the position chosen by seek, pause
  and trick play. The other nodes are served by request handlers, which communicate with the components through monitored
  variables. A network monitor tells the media source about changes of the default route, and a TCP server copies the
  stream to clients.

  \<^bold>\<open>Conventions.\<close> A class is a record whose fields are its members; a method is a function on it, under the
  name of the source where that is free. Machine integers are words of their width, so that they wrap. \<open>None\<close> is
  undefined behaviour (an access outside an array, a stray pointer, an invalid iterator) or a call that does not
  return; exceptions are values of a sum type. A thread is a step between the points at which it waits, or one pass of its
  loop. Clock readings, answers of system calls and the contents of fresh memory are arguments. Libraries that are not
  in the repository (\<open>boost\<close>, the pool and the sizes of streamfs, floating-point rounding, \<open>inet_aton\<close>)
  are fields of environment records; what is relied on is a named predicate, and an instance shows that it can hold.
  Log output is left out.

  \<^bold>\<open>Theories.\<close>
  \<^item> \<open>Prelude\<close>: words, memory accesses, lists, and the locales \<open>inductive_invariant\<close> and \<open>step_invariant\<close>,
    which carry the proofs over runs; every component with states interprets one of them on its own steps.
  \<^item> \<open>Externals\<close>: \<open>boost::circular_buffer\<close> and \<open>boost::lockfree::queue\<close>. \<open>Cpp_Strings\<close>: character classes,
    \<open>to_string\<close>, \<open>stoi\<close>, \<open>stol\<close>, \<open>stoull\<close>. \<open>Config_Options\<close>: \<open>config_options.h\<close> and the sizes of \<open>config_fcc.h\<close>.
  \<^item> \<open>Rtp_Listener\<close>, \<open>Rtp_Packets\<close>: \<open>3rdparty/rtp/RtpStreamListener\<close>. Well-formed packets are decoded, packets that
    arrive out of order are delivered in order, the cache stays below its capacity, memory is respected when
    \<open>char\<close> is unsigned; a failed \<open>recvfrom\<close> is not survived.
  \<^item> \<open>Udp_Listener\<close>: \<open>3rdparty/udp\<close> and opening with \<open>RtpDemuxer\<close>. A datagram reaches the consumers; the same failure.
  \<^item> \<open>Http_Demuxer\<close>: \<open>HttpDemuxerImpl\<close> together with the media source. From \<open>curl\<close> to the consumers no byte is lost,
    repeated or reordered, whatever the interleaving of the threads and of changes of the channel.
  \<^item> \<open>Buffer_Queue\<close>: \<open>BufferQueue.h\<close>. The queue is a FIFO, and its users do not deadlock.
  \<^item> \<open>Channel_Config\<close>: \<open>ChannelConfig.h\<close>. \<open>Network_Route\<close>: \<open>NetworkRouteMonitor\<close>, \<open>NetworkRouteObserver\<close>; the route in
    use has the lowest metric.
  \<^item> \<open>Media_Source\<close>, \<open>Media_Stream\<close>: \<open>MediaSourceHandler\<close>, \<open>StreamProcessor\<close>, \<open>StreamSource\<close>, \<open>externals\<close>. Buffers
    share an explicit memory; the calls of demuxers and consumers are recorded in a log. Null packets replace a source
    that is silent.
  \<^item> \<open>Ts_Stream\<close>, \<open>Psi_Parser\<close>, \<open>Psi_Reach\<close>, \<open>Psi_Stream\<close>, \<open>Psi_Tables\<close>: \<open>PSIParser\<close>. Cutting packets out of chunks refines
    a sequence of packets; entitlement control messages are reassembled; protection data is published at most once per
    request; bounds of the reads.
  \<^item> \<open>Json_Value\<close>, \<open>Json_Parser\<close>, \<open>Json_Termination\<close>, \<open>Json_Grammar\<close>, \<open>Json_Roundtrip\<close>: \<open>utils/json.hpp\<close>. Loading terminates,
    accepts the grammar, returns well-formed values and inverts printing.
  \<^item> \<open>Protection\<close>: \<open>StreamProtectionConfigExport\<close> and \<open>ProtectionInfoRequestHandler\<close>. The text of \<open>drm0\<close> can be
    loaded, and the record of the highest confidence is kept.
  \<^item> \<open>Monitored_Variable\<close>: \<open>MonitoredVariable.h\<close>, \<open>VariableMonitorDispatcher\<close>. When assignments return and whom they
    notify.
  \<^item> \<open>Timers\<close>: \<open>TimeoutWatchdog\<close>, \<open>CyclicEventTimer\<close>, \<open>TimeIntervalMonitor\<close>, \<open>ScheduledTask\<close>,
    \<open>ConstDelayDefHandler\<close>, \<open>TimeStampCorrector\<close>.
  \<^item> \<open>Buffer_Indexer\<close>: \<open>BufferIndexer\<close>. The search interpolates between neighbouring entries up to the error of
    rounding.
  \<^item> \<open>Player_State\<close>, \<open>Time_Shift_Buffer\<close>, \<open>Time_Shift_Play\<close>: \<open>PlayerStateEnum.h\<close>, \<open>TimeShiftBufferConsumer\<close>, \<open>HandleContext\<close>.
    Reads after a seek, steps of trick play, the invariant of all operations, a lock order that can deadlock.
  \<^item> \<open>Socket_Server\<close>: \<open>SocketServer\<close>. Clients receive in order; \<open>stop\<close> ends the threads.
  \<^item> \<open>Config_Handlers\<close>, \<open>Fcc_Plugin\<close>: \<open>confighandler/\<close>, \<open>FCCConfigHandlers\<close>, \<open>ConfigCache\<close>, \<open>FCCPlugin\<close>. A node read in
    pieces gives its text; a seek written as text reaches the time-shift buffer.

  \<^bold>\<open>Bounds and fuel.\<close> The mutually recursive functions of the JSON parser take fuel; \<open>json_Load\<close> passes an amount
  that is proved to be enough for every text. Every other loop is structural, has a termination proof, or is
  a \<open>partial_function\<close> for which returning is proved where a theorem relies on it. Theorems on the time-shift buffer
  assume that fewer than \<open>2\<^sup>6\<^sup>3\<close> bytes have been streamed and that the clock does not go back.

  \<^bold>\<open>Not modelled.\<close> The DVB demuxer, which only sleeps; the Nokia callback handler, which no configuration of the
  build compiles; the abstract demuxer classes and the empty ECM cache; logging and tracing; joining of threads
  where nothing but the wait happens; the transfer loop of \<open>curl\<close>; tests, scripts and build files. Data races on members
  read without their mutex are outside the model: a step is atomic.
\<close>

end
